(* ===== verification/Sd_Prelude.thy ===== *)
theory Sd_Prelude
  imports Main "HOL-Library.Word" "HOL-Library.Monad_Syntax"
begin

text \<open>
  Shared vocabulary of the development: the Rust integer types as words, Rust's
  checked arithmetic, results as sums (\<open>Inl\<close> is \<open>Err\<close>, \<open>Inr\<close> is \<open>Ok\<close>),
  the collections of rewrite rules the component theories extend, and the generic
  lemmas on words, lists and options they share.
\<close>

unbundle bit_operations_syntax

section \<open>Types\<close>

type_synonym u8 = "8 word"
type_synonym u16 = "16 word"
type_synonym u32 = "32 word"
type_synonym u64 = "64 word"
type_synonym u128 = "128 word"

section \<open>Collections\<close>

named_theorems reg_simps \<open>positions of register fields\<close>
named_theorems trace_simps \<open>what an operation appends to the history\<close>
named_theorems frame_simps \<open>what an operation leaves unchanged\<close>

section \<open>Rust arithmetic on words\<close>

definition checked_add :: "'a::len word \<Rightarrow> 'a word \<Rightarrow> 'a word option" where
  "checked_add a b = (if unat a + unat b < 2 ^ LENGTH('a) then Some (a + b) else None)"

definition is_multiple_of :: "nat \<Rightarrow> nat \<Rightarrow> bool" where
  "is_multiple_of a b = (if b = 0 then a = 0 else a mod b = 0)"

definition div_ceil :: "nat \<Rightarrow> nat \<Rightarrow> nat" where
  "div_ceil a b = (if a mod b = 0 then a div b else a div b + 1)"

lemma checked_add_Some:
  "checked_add a b = Some c \<Longrightarrow> c = a + b \<and> unat c = unat a + unat b"
  by (auto simp: checked_add_def unat_word_ariths split: if_splits)

lemma checked_add_None_iff:
  fixes a b :: "'a::len word"
  shows "checked_add a b = None \<longleftrightarrow> 2 ^ LENGTH('a) \<le> unat a + unat b"
  by (auto simp: checked_add_def)

lemma checked_add_fits:
  fixes a b :: "'a::len word"
  assumes "unat a + unat b < 2 ^ LENGTH('a)"
  shows "checked_add a b = Some (a + b)"
  using assms by (simp add: checked_add_def)

lemma is_multiple_of_iff: "0 < b \<Longrightarrow> is_multiple_of a b \<longleftrightarrow> b dvd a"
  by (simp add: is_multiple_of_def dvd_eq_mod_eq_0)

lemma div_ceil_bounds:
  assumes "0 < b" "0 < a"
  shows "(div_ceil a b - 1) * b < a \<and> a \<le> div_ceil a b * b \<and> 0 < div_ceil a b"
proof (cases "a mod b = 0")
  case True
  then obtain q where q: "a = b * q" by (auto simp: mod_eq_0_iff_dvd)
  with assms have "0 < q" by (cases q) auto
  with q assms True show ?thesis
    by (cases q) (auto simp: div_ceil_def)
next
  case False
  have eq: "b * (a div b) + a mod b = a" by simp
  have lt: "a mod b < b" using assms by simp
  have "b * (a div b) < a" using eq False by linarith
  moreover have "a \<le> b + b * (a div b)" using eq lt by linarith
  ultimately show ?thesis using False
    by (simp add: div_ceil_def mult.commute)
qed

section \<open>Words\<close>

lemma word_neq_0_iff: "x \<noteq> 0 \<longleftrightarrow> (\<exists>n. bit x n)" for x :: "'a::len word"
  by (auto intro: bit_word_eqI)

lemma unat_ucast_up:
  "LENGTH('a) \<le> LENGTH('b) \<Longrightarrow> unat (ucast x :: 'b::len word) = unat (x :: 'a::len word)"
  by transfer (simp add: min_def)

lemma unat_take_bit_less: "unat (take_bit k x) < 2 ^ k" for x :: "'a::len word"
  by (simp add: unsigned_take_bit_eq)

lemma unat_of_nat_less: "n < 2 ^ LENGTH('a) \<Longrightarrow> unat (of_nat n :: 'a::len word) = n"
  by (simp add: unat_of_nat take_bit_nat_eq_self)

lemma unat_add_less:
  "unat a + unat b < 2 ^ LENGTH('a) \<Longrightarrow> unat (a + b) = unat a + unat (b :: 'a::len word)"
  by (simp add: unat_word_ariths)

lemma upt_append: "i \<le> j \<Longrightarrow> j \<le> k \<Longrightarrow> [i..<j] @ [j..<k] = [i..<k]"
  using upt_add_eq_append [of i j "k - j"] by simp

section \<open>Results\<close>

definition res_bind :: "'e + 'a \<Rightarrow> ('a \<Rightarrow> 'e + 'b) \<Rightarrow> 'e + 'b" where
  "res_bind m f = (case m of Inl e \<Rightarrow> Inl e | Inr x \<Rightarrow> f x)"

lemma res_bind_simps [simp]:
  "res_bind (Inl e) f = Inl e"
  "res_bind (Inr x) f = f x"
  by (simp_all add: res_bind_def)

text \<open>A sequence of steps returns if each of them does.\<close>

lemma bind_returns:
  "m \<noteq> None \<Longrightarrow> (\<And>v w. m = Some (v, w) \<Longrightarrow> f (v, w) \<noteq> None) \<Longrightarrow> Option.bind m f \<noteq> None"
  by (cases m) auto

lemma case_prod_returns: "(\<And>v w. p = (v, w) \<Longrightarrow> f v w \<noteq> None) \<Longrightarrow> case_prod f p \<noteq> None"
  by (cases p) auto

end
