(* ===== verification/Bitfield.thy ===== *)
theory Bitfield
  imports Sd_Prelude
begin

text \<open>
  The \<open>#[bitfield(uN, order = Msb)]\<close> declarations of the driver.  A declaration is a
  table of field names and widths in the source's order, the first field being the
  most significant one; \<open>''__''\<close> names padding, as it does in the source.  The
  accessors \<open>x.f()\<close>, \<open>x.with_f(v)\<close> and \<open>X::new()\<close> read and write the bits the
  table gives to \<open>f\<close>.  The locale \<open>bitfield\<close> states what makes a table a register
  layout (it fills the integer and no name is used twice) and proves the laws of
  the accessors once for all registers.
\<close>

type_synonym layout = "(string \<times> nat) list"

abbreviation pad :: string where "pad \<equiv> ''__''"

fun layout_width :: "layout \<Rightarrow> nat" where
  "layout_width [] = 0"
| "layout_width ((_, k) # fs) = k + layout_width fs"

fun field_pos :: "layout \<Rightarrow> string \<Rightarrow> (nat \<times> nat) option" where
  "field_pos [] f = None"
| "field_pos ((g, k) # fs) f =
     (if g = f then Some (layout_width fs, k) else field_pos fs f)"

definition get_bits :: "nat \<Rightarrow> nat \<Rightarrow> 'a::len word \<Rightarrow> 'a word" where
  "get_bits off k x = take_bit k (drop_bit off x)"

definition put_bits :: "nat \<Rightarrow> nat \<Rightarrow> 'a::len word \<Rightarrow> 'a word \<Rightarrow> 'a word" where
  "put_bits off k v x =
     (x AND NOT (push_bit off (mask k))) OR push_bit off (take_bit k v)"

definition get_field :: "layout \<Rightarrow> string \<Rightarrow> 'a::len word \<Rightarrow> 'a word" where
  "get_field L f x = (case field_pos L f of None \<Rightarrow> 0 | Some (off, k) \<Rightarrow> get_bits off k x)"

definition with_field :: "layout \<Rightarrow> string \<Rightarrow> 'a::len word \<Rightarrow> 'a word \<Rightarrow> 'a word" where
  "with_field L f v x =
     (case field_pos L f of None \<Rightarrow> x | Some (off, k) \<Rightarrow> put_bits off k v x)"

definition get_flag :: "layout \<Rightarrow> string \<Rightarrow> 'a::len word \<Rightarrow> bool" where
  "get_flag L f x = (get_field L f x \<noteq> 0)"

definition with_flag :: "layout \<Rightarrow> string \<Rightarrow> bool \<Rightarrow> 'a::len word \<Rightarrow> 'a word" where
  "with_flag L f b x = with_field L f (of_bool b) x"

definition layout_names :: "layout \<Rightarrow> string list" where
  "layout_names L = filter (\<lambda>f. f \<noteq> pad) (map fst L)"

section \<open>Bits of the accessors\<close>

lemma bit_get_bits:
  fixes x :: "'a::len word"
  shows "bit (get_bits off k x) n \<longleftrightarrow> n < k \<and> bit x (off + n)"
  by (simp add: get_bits_def bit_take_bit_iff bit_drop_bit_eq)

lemma bit_put_bits:
  fixes x v :: "'a::len word"
  shows "bit (put_bits off k v x) n \<longleftrightarrow>
    n < LENGTH('a) \<and> (if off \<le> n \<and> n < off + k then bit v (n - off) else bit x n)"
proof -
  have "n - off < k \<longleftrightarrow> n < off + k" if "off \<le> n" using that by arith
  then show ?thesis
    by (auto simp: put_bits_def bit_or_iff bit_and_iff bit_not_iff bit_push_bit_iff
        bit_take_bit_iff bit_mask_iff possible_bit_word dest: bit_imp_le_length)
qed

lemma get_put_bits_same:
  fixes x v :: "'a::len word"
  assumes "off + k \<le> LENGTH('a)"
  shows "get_bits off k (put_bits off k v x) = take_bit k v"
  using assms by (intro bit_eqI) (auto simp: bit_get_bits bit_put_bits bit_take_bit_iff)

lemma get_put_bits_other:
  fixes x v :: "'a::len word"
  assumes "off + k \<le> off' \<or> off' + k' \<le> off"
  shows "get_bits off k (put_bits off' k' v x) = get_bits off k x"
  using assms by (intro bit_eqI) (auto simp: bit_get_bits bit_put_bits dest: bit_imp_le_length)

lemma get_bits_one: "get_bits off 1 x \<noteq> 0 \<longleftrightarrow> bit x off" for x :: "'a::len word"
proof
  assume "get_bits off 1 x \<noteq> 0"
  then obtain n where "bit (get_bits off 1 x) n" by (auto simp: bit_eq_iff)
  then show "bit x off" by (auto simp: bit_get_bits)
next
  assume "bit x off"
  then have "bit (get_bits off 1 x) 0" by (simp add: bit_get_bits)
  then show "get_bits off 1 x \<noteq> 0" by auto
qed

lemma get_bits_low:
  fixes x y :: "'a::len word"
  assumes "\<And>n. n < k \<Longrightarrow> bit x n = bit y n" and "take_bit k y = y"
  shows "get_bits 0 k x = y"
proof (rule bit_eqI)
  fix n
  have "bit y n \<longleftrightarrow> n < k \<and> bit y n" using arg_cong [OF assms(2), of "\<lambda>z. bit z n"]
    by (auto simp: bit_take_bit_iff)
  with assms(1) show "bit (get_bits 0 k x) n = bit y n" by (auto simp: bit_get_bits)
qed

lemma get_flag_bit: "field_pos L f = Some (off, 1) \<Longrightarrow> get_flag L f x = bit x off"
  by (simp only: get_flag_def get_field_def option.case prod.case get_bits_one)

lemma get_field_bits: "field_pos L f = Some (off, k) \<Longrightarrow> get_field L f x = get_bits off k x"
  by (simp add: get_field_def)

lemma bit_with_flag:
  fixes x :: "'a::len word"
  assumes "field_pos L f = Some (off, 1)" "off < LENGTH('a)"
  shows "bit (with_flag L f b x) n \<longleftrightarrow> (if n = off then b else bit x n)"
  using assms
  by (auto simp: with_flag_def with_field_def bit_put_bits bit_1_iff le_less_Suc_eq
      dest: bit_imp_le_length)

section \<open>Layouts\<close>

lemma field_pos_bound: "field_pos L f = Some (off, k) \<Longrightarrow> off + k \<le> layout_width L"
  by (induction L f rule: field_pos.induct) (auto split: if_splits)

lemma field_pos_disjoint:
  assumes "field_pos L f = Some (off, k)" "field_pos L g = Some (off', k')" "f \<noteq> g"
  shows "off + k \<le> off' \<or> off' + k' \<le> off"
  using assms
proof (induction L arbitrary: off k off' k')
  case Nil
  then show ?case by simp
next
  case (Cons p L)
  obtain h w where p: "p = (h, w)" by (cases p)
  show ?case
    using Cons.prems Cons.IH p field_pos_bound [of L f off k] field_pos_bound [of L g off' k']
    by (auto split: if_splits)
qed

lemma field_pos_names: "f \<noteq> pad \<Longrightarrow> field_pos L f \<noteq> None \<longleftrightarrow> f \<in> set (layout_names L)"
  by (induction L f rule: field_pos.induct) (auto simp: layout_names_def)

locale bitfield =
  fixes L :: layout and ty :: "'a::len itself"
  assumes fills: "layout_width L = LENGTH('a)"
    and distinct_names: "distinct (layout_names L)"
begin

lemma get_with_same:
  assumes "f \<in> set (layout_names L)"
  obtains off k where "field_pos L f = Some (off, k)"
    "\<And>(v::'a word) x. get_field L f (with_field L f v x) = take_bit k v"
proof -
  from assms have "f \<noteq> pad" by (auto simp: layout_names_def)
  with assms have "field_pos L f \<noteq> None" using field_pos_names by blast
  then obtain off k where pos: "field_pos L f = Some (off, k)" by auto
  then have "off + k \<le> LENGTH('a)" using field_pos_bound fills by metis
  with pos that show ?thesis
    by (simp add: get_field_def with_field_def get_put_bits_same)
qed

lemma get_with_other:
  "f \<noteq> g \<Longrightarrow> get_field L f (with_field L g v x) = get_field L f (x :: 'a word)"
  by (auto simp: get_field_def with_field_def field_pos_disjoint get_put_bits_other
      split: option.splits)

lemma get_flag_with_flag:
  assumes "field_pos L g = Some (off, 1)"
  shows "get_flag L f (with_flag L g b (x :: 'a word)) = (if f = g then b else get_flag L f x)"
proof -
  have lt: "off < LENGTH('a)" using field_pos_bound [OF assms] fills by simp
  show ?thesis
  proof (cases "f = g")
    case True
    then show ?thesis using assms lt by (simp add: get_flag_bit bit_with_flag)
  next
    case False
    then show ?thesis by (simp add: get_flag_def with_flag_def get_with_other)
  qed
qed

end

end
