(* ===== verification/Sd_Regs.thy ===== *)
theory Sd_Regs
  imports Bitfield
begin

text \<open>
  The register file of the DesignWare mobile storage host controller
  (\<open>simple-sdmmc-extended/src/regs.rs\<close>): the order and sizes of the registers in
  \<open>RegisterBlock\<close> (a \<open>repr(C)\<close> struct, so the order fixes the offsets) and one
  layout table per register.  The lemmas in \<open>reg_simps\<close> give the bit position the
  declaration order assigns to each field the driver reads or writes.
\<close>

section \<open>The register block\<close>

datatype reg =
      CTRL | PWREN | CLKDIV | CLKSRC | CLKENA | TMOUT | CTYPE | BLKSIZ | BYTCNT
    | INTMASK | CMDARG | CMD | RESP | MINTSTS | RINTSTS | STATUS | FIFOTH | CDETECT
    | WRTPRT | GPIO | TCBCNT | TBBCNT | DEBNCE | USRID | VERID | HCON | UHS | RST
    | RESERVED0 | BMOD | PLDMND | DBADDR | IDSTS | IDINTEN

definition RegisterBlock :: "(reg \<times> nat) list" where
  "RegisterBlock =
    [(CTRL, 4), (PWREN, 4), (CLKDIV, 4), (CLKSRC, 4), (CLKENA, 4), (TMOUT, 4), (CTYPE, 4),
     (BLKSIZ, 4), (BYTCNT, 4), (INTMASK, 4), (CMDARG, 4), (CMD, 4), (RESP, 16),
     (MINTSTS, 4), (RINTSTS, 4), (STATUS, 4), (FIFOTH, 4), (CDETECT, 4), (WRTPRT, 4),
     (GPIO, 4), (TCBCNT, 4), (TBBCNT, 4), (DEBNCE, 4), (USRID, 4), (VERID, 4), (HCON, 4),
     (UHS, 4), (RST, 4), (RESERVED0, 4), (BMOD, 4), (PLDMND, 4), (DBADDR, 4), (IDSTS, 4),
     (IDINTEN, 4)]"

fun reg_offset_in :: "(reg \<times> nat) list \<Rightarrow> reg \<Rightarrow> nat option" where
  "reg_offset_in [] r = None"
| "reg_offset_in ((q, k) # rs) r =
     (if q = r then Some 0 else map_option (\<lambda>off. k + off) (reg_offset_in rs r))"

definition reg_offset :: "reg \<Rightarrow> nat option" where
  "reg_offset r = reg_offset_in RegisterBlock r"

section \<open>Register layouts\<close>

definition Ctrl_layout :: layout where
  "Ctrl_layout =
    [(pad, 6), (''use_internal_dmac'', 1), (''enable_od_pullup'', 1),
     (''card_voltage_b'', 4), (''card_voltage_a'', 4), (pad, 4),
     (''ceata_device_interrupt'', 1), (''send_auto_stop_ccsd'', 1), (''send_ccsd'', 1),
     (''abort_read_data'', 1), (''send_irq_response'', 1), (''read_wait'', 1),
     (''dma_enable'', 1), (''int_enable'', 1), (pad, 1), (''dma_reset'', 1),
     (''fifo_reset'', 1), (''controller_reset'', 1)]"

definition PwrEn_layout :: layout where
  "PwrEn_layout =
    [(pad, 16), (''power_enable'', 16)]"

definition ClkDiv_layout :: layout where
  "ClkDiv_layout =
    [(''clk_divider3'', 8), (''clk_divider2'', 8), (''clk_divider1'', 8),
     (''clk_divider0'', 8)]"

definition ClkSrc_layout :: layout where
  "ClkSrc_layout =
    [(''card15_clk_source'', 2), (''card14_clk_source'', 2), (''card13_clk_source'', 2),
     (''card12_clk_source'', 2), (''card11_clk_source'', 2), (''card10_clk_source'', 2),
     (''card9_clk_source'', 2), (''card8_clk_source'', 2), (''card7_clk_source'', 2),
     (''card6_clk_source'', 2), (''card5_clk_source'', 2), (''card4_clk_source'', 2),
     (''card3_clk_source'', 2), (''card2_clk_source'', 2), (''card1_clk_source'', 2),
     (''card0_clk_source'', 2)]"

definition ClkEna_layout :: layout where
  "ClkEna_layout =
    [(''cclk_low_power'', 16), (''cclk_enable'', 16)]"

definition TmOut_layout :: layout where
  "TmOut_layout =
    [(''data_timeout'', 24), (''response_timeout'', 8)]"

definition CType_layout :: layout where
  "CType_layout =
    [(''width8'', 16), (''width4'', 16)]"

definition BlkSiz_layout :: layout where
  "BlkSiz_layout =
    [(pad, 16), (''block_size'', 16)]"

definition IntMask_layout :: layout where
  "IntMask_layout =
    [(''sdio'', 16), (''ebe'', 1), (''acd'', 1), (''sbe'', 1), (''hle'', 1), (''frun'', 1),
     (''hto'', 1), (''drto'', 1), (''rto'', 1), (''dcrc'', 1), (''rcrc'', 1),
     (''rxdr'', 1), (''txdr'', 1), (''dto'', 1), (''cmd'', 1), (''re'', 1), (''cd'', 1)]"

definition Cmd_layout :: layout where
  "Cmd_layout =
    [(''start_cmd'', 1), (pad, 1), (''use_hold_reg'', 1), (''volt_switch'', 1),
     (''boot_mode'', 1), (''disable_boot'', 1), (''expect_boot_ack'', 1),
     (''enable_boot'', 1), (''ccs_expected'', 1), (''read_ceata_device'', 1),
     (''update_clock_registers_only'', 1), (''card_number'', 5),
     (''send_initialization'', 1), (''stop_abort_cmd'', 1), (''wait_prvdata_complete'', 1),
     (''send_auto_stop'', 1), (''transfer_mode'', 1), (''read_write'', 1),
     (''data_expected'', 1), (''check_response_crc'', 1), (''response_length'', 1),
     (''response_expect'', 1), (''cmd_index'', 6)]"

definition MIntSts_layout :: layout where
  "MIntSts_layout =
    [(''sdio'', 16), (''end_bit_error'', 1), (''auto_command_done'', 1),
     (''start_bit_error'', 1), (''hardware_locked_write'', 1),
     (''fifo_under_over_run'', 1), (''host_timeout'', 1), (''data_read_timeout'', 1),
     (''response_timeout'', 1), (''data_crc_error'', 1), (''response_crc_error'', 1),
     (''receive_fifo_data_request'', 1), (''transmit_fifo_data_request'', 1),
     (''data_transfer_over'', 1), (''command_done'', 1), (''response_error'', 1),
     (''card_detect'', 1)]"

definition RIntSts_layout :: layout where
  "RIntSts_layout =
    [(''sdio'', 16), (''end_bit_error'', 1), (''auto_command_done'', 1),
     (''start_bit_error'', 1), (''hardware_locked_write'', 1),
     (''fifo_under_over_run'', 1), (''host_timeout'', 1), (''data_read_timeout'', 1),
     (''response_timeout'', 1), (''data_crc_error'', 1), (''response_crc_error'', 1),
     (''receive_fifo_data_request'', 1), (''transmit_fifo_data_request'', 1),
     (''data_transfer_over'', 1), (''command_done'', 1), (''response_error'', 1),
     (''card_detect'', 1)]"

definition Status_layout :: layout where
  "Status_layout =
    [(''dma_req'', 1), (''dma_ack'', 1), (''fifo_count'', 13), (''response_index'', 6),
     (''data_state_mc_busy'', 1), (''data_busy'', 1), (''data_3_status'', 1),
     (''command_fsm_states'', 4), (''fifo_full'', 1), (''fifo_empty'', 1),
     (''fifo_tx_watermark'', 1), (''fifo_rx_watermark'', 1)]"

definition FifoTh_layout :: layout where
  "FifoTh_layout =
    [(pad, 1), (''dw_dma_multiple_transaction_size'', 3), (''rx_watermark'', 12), (pad, 4),
     (''tx_watermark'', 12)]"

definition CDetect_layout :: layout where
  "CDetect_layout =
    [(pad, 16), (''card_detect_n'', 16)]"

definition WrtPrt_layout :: layout where
  "WrtPrt_layout =
    [(pad, 16), (''write_protect'', 16)]"

definition GPIO_layout :: layout where
  "GPIO_layout =
    [(pad, 8), (''gpo'', 16), (''gpi'', 8)]"

definition Debnce_layout :: layout where
  "Debnce_layout =
    [(pad, 8), (''debounce_count'', 24)]"

definition HCon_layout :: layout where
  "HCon_layout =
    [(pad, 4), (''addr_config'', 1), (''area_opt'', 1), (''num_clk_dic'', 2),
     (''false_path'', 1), (''hold_reg'', 1), (''fifo_ram_ins'', 1),
     (''ge_dma_data_width'', 3), (''dma_if'', 2), (''h_addr_width'', 6),
     (''h_data_width'', 3), (''bus_type'', 1), (''num_card'', 5), (''card_type'', 1)]"

definition UHS_layout :: layout where
  "UHS_layout =
    [(''ddr'', 16), (''volt'', 16)]"

definition Rst_layout :: layout where
  "Rst_layout =
    [(pad, 16), (''card_reset'', 16)]"

definition BMod_layout :: layout where
  "BMod_layout =
    [(pad, 21), (''pbl'', 3), (''de'', 1), (''dsl'', 5), (''fb'', 1), (''swr'', 1)]"

definition IdSts_layout :: layout where
  "IdSts_layout =
    [(pad, 15), (''fsm'', 4), (''ebe'', 3), (''ais'', 1), (''nis'', 1), (pad, 2),
     (''ces'', 1), (''du'', 1), (pad, 1), (''fbe'', 1), (''ri'', 1), (''ti'', 1)]"

definition IdIntEn_layout :: layout where
  "IdIntEn_layout =
    [(pad, 22), (''ai'', 1), (''ni'', 1), (pad, 2), (''ces'', 1), (''du'', 1), (pad, 1),
     (''fbe'', 1), (''ri'', 1), (''ti'', 1)]"

definition Cmd_default :: u32 where
  "Cmd_default = with_flag Cmd_layout ''start_cmd'' True
     (with_flag Cmd_layout ''wait_prvdata_complete'' True 0)"

definition RIntSts_error :: "u32 \<Rightarrow> bool" where
  "RIntSts_error r \<longleftrightarrow>
     get_flag RIntSts_layout ''response_timeout'' r
     \<or> get_flag RIntSts_layout ''data_read_timeout'' r
     \<or> get_flag RIntSts_layout ''fifo_under_over_run'' r
     \<or> get_flag RIntSts_layout ''host_timeout'' r
     \<or> get_flag RIntSts_layout ''start_bit_error'' r
     \<or> get_flag RIntSts_layout ''end_bit_error'' r
     \<or> get_flag RIntSts_layout ''data_crc_error'' r
     \<or> get_flag RIntSts_layout ''response_crc_error'' r
     \<or> get_flag RIntSts_layout ''response_error'' r
     \<or> get_flag RIntSts_layout ''hardware_locked_write'' r"

section \<open>Every table is a register layout\<close>

interpretation ctrl_bf: bitfield Ctrl_layout "TYPE(32)"
  by unfold_locales (simp_all add: Ctrl_layout_def layout_names_def)

interpretation pwren_bf: bitfield PwrEn_layout "TYPE(32)"
  by unfold_locales (simp_all add: PwrEn_layout_def layout_names_def)

interpretation clkdiv_bf: bitfield ClkDiv_layout "TYPE(32)"
  by unfold_locales (simp_all add: ClkDiv_layout_def layout_names_def)

interpretation clksrc_bf: bitfield ClkSrc_layout "TYPE(32)"
  by unfold_locales (simp_all add: ClkSrc_layout_def layout_names_def)

interpretation clkena_bf: bitfield ClkEna_layout "TYPE(32)"
  by unfold_locales (simp_all add: ClkEna_layout_def layout_names_def)

interpretation tmout_bf: bitfield TmOut_layout "TYPE(32)"
  by unfold_locales (simp_all add: TmOut_layout_def layout_names_def)

interpretation ctype_bf: bitfield CType_layout "TYPE(32)"
  by unfold_locales (simp_all add: CType_layout_def layout_names_def)

interpretation blksiz_bf: bitfield BlkSiz_layout "TYPE(32)"
  by unfold_locales (simp_all add: BlkSiz_layout_def layout_names_def)

interpretation intmask_bf: bitfield IntMask_layout "TYPE(32)"
  by unfold_locales (simp_all add: IntMask_layout_def layout_names_def)

interpretation cmd_bf: bitfield Cmd_layout "TYPE(32)"
  by unfold_locales (simp_all add: Cmd_layout_def layout_names_def)

interpretation mintsts_bf: bitfield MIntSts_layout "TYPE(32)"
  by unfold_locales (simp_all add: MIntSts_layout_def layout_names_def)

interpretation rintsts_bf: bitfield RIntSts_layout "TYPE(32)"
  by unfold_locales (simp_all add: RIntSts_layout_def layout_names_def)

interpretation status_bf: bitfield Status_layout "TYPE(32)"
  by unfold_locales (simp_all add: Status_layout_def layout_names_def)

interpretation fifoth_bf: bitfield FifoTh_layout "TYPE(32)"
  by unfold_locales (simp_all add: FifoTh_layout_def layout_names_def)

interpretation cdetect_bf: bitfield CDetect_layout "TYPE(32)"
  by unfold_locales (simp_all add: CDetect_layout_def layout_names_def)

interpretation wrtprt_bf: bitfield WrtPrt_layout "TYPE(32)"
  by unfold_locales (simp_all add: WrtPrt_layout_def layout_names_def)

interpretation gpio_bf: bitfield GPIO_layout "TYPE(32)"
  by unfold_locales (simp_all add: GPIO_layout_def layout_names_def)

interpretation debnce_bf: bitfield Debnce_layout "TYPE(32)"
  by unfold_locales (simp_all add: Debnce_layout_def layout_names_def)

interpretation hcon_bf: bitfield HCon_layout "TYPE(32)"
  by unfold_locales (simp_all add: HCon_layout_def layout_names_def)

interpretation uhs_bf: bitfield UHS_layout "TYPE(32)"
  by unfold_locales (simp_all add: UHS_layout_def layout_names_def)

interpretation rst_bf: bitfield Rst_layout "TYPE(32)"
  by unfold_locales (simp_all add: Rst_layout_def layout_names_def)

interpretation bmod_bf: bitfield BMod_layout "TYPE(32)"
  by unfold_locales (simp_all add: BMod_layout_def layout_names_def)

interpretation idsts_bf: bitfield IdSts_layout "TYPE(32)"
  by unfold_locales (simp_all add: IdSts_layout_def layout_names_def)

interpretation idinten_bf: bitfield IdIntEn_layout "TYPE(32)"
  by unfold_locales (simp_all add: IdIntEn_layout_def layout_names_def)

section \<open>Field positions\<close>

lemma Ctrl_pos [reg_simps]:
  "field_pos Ctrl_layout ''use_internal_dmac'' = Some (25, 1)"
  "field_pos Ctrl_layout ''enable_od_pullup'' = Some (24, 1)"
  "field_pos Ctrl_layout ''card_voltage_b'' = Some (20, 4)"
  "field_pos Ctrl_layout ''card_voltage_a'' = Some (16, 4)"
  "field_pos Ctrl_layout ''ceata_device_interrupt'' = Some (11, 1)"
  "field_pos Ctrl_layout ''send_auto_stop_ccsd'' = Some (10, 1)"
  "field_pos Ctrl_layout ''send_ccsd'' = Some (9, 1)"
  "field_pos Ctrl_layout ''abort_read_data'' = Some (8, 1)"
  "field_pos Ctrl_layout ''send_irq_response'' = Some (7, 1)"
  "field_pos Ctrl_layout ''read_wait'' = Some (6, 1)"
  "field_pos Ctrl_layout ''dma_enable'' = Some (5, 1)"
  "field_pos Ctrl_layout ''int_enable'' = Some (4, 1)"
  "field_pos Ctrl_layout ''dma_reset'' = Some (2, 1)"
  "field_pos Ctrl_layout ''fifo_reset'' = Some (1, 1)"
  "field_pos Ctrl_layout ''controller_reset'' = Some (0, 1)"
  by (simp_all add: Ctrl_layout_def)

lemma Ctrl_flags [reg_simps]:
  "get_flag Ctrl_layout ''use_internal_dmac'' r = bit r 25"
  "get_flag Ctrl_layout ''enable_od_pullup'' r = bit r 24"
  "get_flag Ctrl_layout ''ceata_device_interrupt'' r = bit r 11"
  "get_flag Ctrl_layout ''send_auto_stop_ccsd'' r = bit r 10"
  "get_flag Ctrl_layout ''send_ccsd'' r = bit r 9"
  "get_flag Ctrl_layout ''abort_read_data'' r = bit r 8"
  "get_flag Ctrl_layout ''send_irq_response'' r = bit r 7"
  "get_flag Ctrl_layout ''read_wait'' r = bit r 6"
  "get_flag Ctrl_layout ''dma_enable'' r = bit r 5"
  "get_flag Ctrl_layout ''int_enable'' r = bit r 4"
  "get_flag Ctrl_layout ''dma_reset'' r = bit r 2"
  "get_flag Ctrl_layout ''fifo_reset'' r = bit r 1"
  "get_flag Ctrl_layout ''controller_reset'' r = bit r 0"
  by (simp_all add: get_flag_bit Ctrl_pos)

lemma Ctrl_fields [reg_simps]:
  "get_field Ctrl_layout ''card_voltage_b'' r = get_bits 20 4 r"
  "get_field Ctrl_layout ''card_voltage_a'' r = get_bits 16 4 r"
  by (simp_all add: get_field_bits Ctrl_pos)

lemma ClkDiv_pos [reg_simps]:
  "field_pos ClkDiv_layout ''clk_divider3'' = Some (24, 8)"
  "field_pos ClkDiv_layout ''clk_divider2'' = Some (16, 8)"
  "field_pos ClkDiv_layout ''clk_divider1'' = Some (8, 8)"
  "field_pos ClkDiv_layout ''clk_divider0'' = Some (0, 8)"
  by (simp_all add: ClkDiv_layout_def)

lemma ClkDiv_fields [reg_simps]:
  "get_field ClkDiv_layout ''clk_divider3'' r = get_bits 24 8 r"
  "get_field ClkDiv_layout ''clk_divider2'' r = get_bits 16 8 r"
  "get_field ClkDiv_layout ''clk_divider1'' r = get_bits 8 8 r"
  "get_field ClkDiv_layout ''clk_divider0'' r = get_bits 0 8 r"
  by (simp_all add: get_field_bits ClkDiv_pos)

lemma ClkEna_pos [reg_simps]:
  "field_pos ClkEna_layout ''cclk_low_power'' = Some (16, 16)"
  "field_pos ClkEna_layout ''cclk_enable'' = Some (0, 16)"
  by (simp_all add: ClkEna_layout_def)

lemma ClkEna_fields [reg_simps]:
  "get_field ClkEna_layout ''cclk_low_power'' r = get_bits 16 16 r"
  "get_field ClkEna_layout ''cclk_enable'' r = get_bits 0 16 r"
  by (simp_all add: get_field_bits ClkEna_pos)

lemma BlkSiz_pos [reg_simps]:
  "field_pos BlkSiz_layout ''block_size'' = Some (0, 16)"
  by (simp_all add: BlkSiz_layout_def)

lemma BlkSiz_fields [reg_simps]:
  "get_field BlkSiz_layout ''block_size'' r = get_bits 0 16 r"
  by (simp_all add: get_field_bits BlkSiz_pos)

lemma IntMask_pos [reg_simps]:
  "field_pos IntMask_layout ''sdio'' = Some (16, 16)"
  "field_pos IntMask_layout ''ebe'' = Some (15, 1)"
  "field_pos IntMask_layout ''acd'' = Some (14, 1)"
  "field_pos IntMask_layout ''sbe'' = Some (13, 1)"
  "field_pos IntMask_layout ''hle'' = Some (12, 1)"
  "field_pos IntMask_layout ''frun'' = Some (11, 1)"
  "field_pos IntMask_layout ''hto'' = Some (10, 1)"
  "field_pos IntMask_layout ''drto'' = Some (9, 1)"
  "field_pos IntMask_layout ''rto'' = Some (8, 1)"
  "field_pos IntMask_layout ''dcrc'' = Some (7, 1)"
  "field_pos IntMask_layout ''rcrc'' = Some (6, 1)"
  "field_pos IntMask_layout ''rxdr'' = Some (5, 1)"
  "field_pos IntMask_layout ''txdr'' = Some (4, 1)"
  "field_pos IntMask_layout ''dto'' = Some (3, 1)"
  "field_pos IntMask_layout ''cmd'' = Some (2, 1)"
  "field_pos IntMask_layout ''re'' = Some (1, 1)"
  "field_pos IntMask_layout ''cd'' = Some (0, 1)"
  by (simp_all add: IntMask_layout_def)

lemma IntMask_flags [reg_simps]:
  "get_flag IntMask_layout ''ebe'' r = bit r 15"
  "get_flag IntMask_layout ''acd'' r = bit r 14"
  "get_flag IntMask_layout ''sbe'' r = bit r 13"
  "get_flag IntMask_layout ''hle'' r = bit r 12"
  "get_flag IntMask_layout ''frun'' r = bit r 11"
  "get_flag IntMask_layout ''hto'' r = bit r 10"
  "get_flag IntMask_layout ''drto'' r = bit r 9"
  "get_flag IntMask_layout ''rto'' r = bit r 8"
  "get_flag IntMask_layout ''dcrc'' r = bit r 7"
  "get_flag IntMask_layout ''rcrc'' r = bit r 6"
  "get_flag IntMask_layout ''rxdr'' r = bit r 5"
  "get_flag IntMask_layout ''txdr'' r = bit r 4"
  "get_flag IntMask_layout ''dto'' r = bit r 3"
  "get_flag IntMask_layout ''cmd'' r = bit r 2"
  "get_flag IntMask_layout ''re'' r = bit r 1"
  "get_flag IntMask_layout ''cd'' r = bit r 0"
  by (simp_all add: get_flag_bit IntMask_pos)

lemma IntMask_fields [reg_simps]:
  "get_field IntMask_layout ''sdio'' r = get_bits 16 16 r"
  by (simp_all add: get_field_bits IntMask_pos)

lemma Cmd_pos [reg_simps]:
  "field_pos Cmd_layout ''start_cmd'' = Some (31, 1)"
  "field_pos Cmd_layout ''use_hold_reg'' = Some (29, 1)"
  "field_pos Cmd_layout ''volt_switch'' = Some (28, 1)"
  "field_pos Cmd_layout ''boot_mode'' = Some (27, 1)"
  "field_pos Cmd_layout ''disable_boot'' = Some (26, 1)"
  "field_pos Cmd_layout ''expect_boot_ack'' = Some (25, 1)"
  "field_pos Cmd_layout ''enable_boot'' = Some (24, 1)"
  "field_pos Cmd_layout ''ccs_expected'' = Some (23, 1)"
  "field_pos Cmd_layout ''read_ceata_device'' = Some (22, 1)"
  "field_pos Cmd_layout ''update_clock_registers_only'' = Some (21, 1)"
  "field_pos Cmd_layout ''card_number'' = Some (16, 5)"
  "field_pos Cmd_layout ''send_initialization'' = Some (15, 1)"
  "field_pos Cmd_layout ''stop_abort_cmd'' = Some (14, 1)"
  "field_pos Cmd_layout ''wait_prvdata_complete'' = Some (13, 1)"
  "field_pos Cmd_layout ''send_auto_stop'' = Some (12, 1)"
  "field_pos Cmd_layout ''transfer_mode'' = Some (11, 1)"
  "field_pos Cmd_layout ''read_write'' = Some (10, 1)"
  "field_pos Cmd_layout ''data_expected'' = Some (9, 1)"
  "field_pos Cmd_layout ''check_response_crc'' = Some (8, 1)"
  "field_pos Cmd_layout ''response_length'' = Some (7, 1)"
  "field_pos Cmd_layout ''response_expect'' = Some (6, 1)"
  "field_pos Cmd_layout ''cmd_index'' = Some (0, 6)"
  by (simp_all add: Cmd_layout_def)

lemma Cmd_flags [reg_simps]:
  "get_flag Cmd_layout ''start_cmd'' r = bit r 31"
  "get_flag Cmd_layout ''use_hold_reg'' r = bit r 29"
  "get_flag Cmd_layout ''volt_switch'' r = bit r 28"
  "get_flag Cmd_layout ''boot_mode'' r = bit r 27"
  "get_flag Cmd_layout ''disable_boot'' r = bit r 26"
  "get_flag Cmd_layout ''expect_boot_ack'' r = bit r 25"
  "get_flag Cmd_layout ''enable_boot'' r = bit r 24"
  "get_flag Cmd_layout ''ccs_expected'' r = bit r 23"
  "get_flag Cmd_layout ''read_ceata_device'' r = bit r 22"
  "get_flag Cmd_layout ''update_clock_registers_only'' r = bit r 21"
  "get_flag Cmd_layout ''send_initialization'' r = bit r 15"
  "get_flag Cmd_layout ''stop_abort_cmd'' r = bit r 14"
  "get_flag Cmd_layout ''wait_prvdata_complete'' r = bit r 13"
  "get_flag Cmd_layout ''send_auto_stop'' r = bit r 12"
  "get_flag Cmd_layout ''transfer_mode'' r = bit r 11"
  "get_flag Cmd_layout ''read_write'' r = bit r 10"
  "get_flag Cmd_layout ''data_expected'' r = bit r 9"
  "get_flag Cmd_layout ''check_response_crc'' r = bit r 8"
  "get_flag Cmd_layout ''response_length'' r = bit r 7"
  "get_flag Cmd_layout ''response_expect'' r = bit r 6"
  by (simp_all add: get_flag_bit Cmd_pos)

lemma Cmd_fields [reg_simps]:
  "get_field Cmd_layout ''card_number'' r = get_bits 16 5 r"
  "get_field Cmd_layout ''cmd_index'' r = get_bits 0 6 r"
  by (simp_all add: get_field_bits Cmd_pos)

lemma RIntSts_pos [reg_simps]:
  "field_pos RIntSts_layout ''sdio'' = Some (16, 16)"
  "field_pos RIntSts_layout ''end_bit_error'' = Some (15, 1)"
  "field_pos RIntSts_layout ''auto_command_done'' = Some (14, 1)"
  "field_pos RIntSts_layout ''start_bit_error'' = Some (13, 1)"
  "field_pos RIntSts_layout ''hardware_locked_write'' = Some (12, 1)"
  "field_pos RIntSts_layout ''fifo_under_over_run'' = Some (11, 1)"
  "field_pos RIntSts_layout ''host_timeout'' = Some (10, 1)"
  "field_pos RIntSts_layout ''data_read_timeout'' = Some (9, 1)"
  "field_pos RIntSts_layout ''response_timeout'' = Some (8, 1)"
  "field_pos RIntSts_layout ''data_crc_error'' = Some (7, 1)"
  "field_pos RIntSts_layout ''response_crc_error'' = Some (6, 1)"
  "field_pos RIntSts_layout ''receive_fifo_data_request'' = Some (5, 1)"
  "field_pos RIntSts_layout ''transmit_fifo_data_request'' = Some (4, 1)"
  "field_pos RIntSts_layout ''data_transfer_over'' = Some (3, 1)"
  "field_pos RIntSts_layout ''command_done'' = Some (2, 1)"
  "field_pos RIntSts_layout ''response_error'' = Some (1, 1)"
  "field_pos RIntSts_layout ''card_detect'' = Some (0, 1)"
  by (simp_all add: RIntSts_layout_def)

lemma RIntSts_flags [reg_simps]:
  "get_flag RIntSts_layout ''end_bit_error'' r = bit r 15"
  "get_flag RIntSts_layout ''auto_command_done'' r = bit r 14"
  "get_flag RIntSts_layout ''start_bit_error'' r = bit r 13"
  "get_flag RIntSts_layout ''hardware_locked_write'' r = bit r 12"
  "get_flag RIntSts_layout ''fifo_under_over_run'' r = bit r 11"
  "get_flag RIntSts_layout ''host_timeout'' r = bit r 10"
  "get_flag RIntSts_layout ''data_read_timeout'' r = bit r 9"
  "get_flag RIntSts_layout ''response_timeout'' r = bit r 8"
  "get_flag RIntSts_layout ''data_crc_error'' r = bit r 7"
  "get_flag RIntSts_layout ''response_crc_error'' r = bit r 6"
  "get_flag RIntSts_layout ''receive_fifo_data_request'' r = bit r 5"
  "get_flag RIntSts_layout ''transmit_fifo_data_request'' r = bit r 4"
  "get_flag RIntSts_layout ''data_transfer_over'' r = bit r 3"
  "get_flag RIntSts_layout ''command_done'' r = bit r 2"
  "get_flag RIntSts_layout ''response_error'' r = bit r 1"
  "get_flag RIntSts_layout ''card_detect'' r = bit r 0"
  by (simp_all add: get_flag_bit RIntSts_pos)

lemma RIntSts_fields [reg_simps]:
  "get_field RIntSts_layout ''sdio'' r = get_bits 16 16 r"
  by (simp_all add: get_field_bits RIntSts_pos)

lemma Status_pos [reg_simps]:
  "field_pos Status_layout ''dma_req'' = Some (31, 1)"
  "field_pos Status_layout ''dma_ack'' = Some (30, 1)"
  "field_pos Status_layout ''fifo_count'' = Some (17, 13)"
  "field_pos Status_layout ''response_index'' = Some (11, 6)"
  "field_pos Status_layout ''data_state_mc_busy'' = Some (10, 1)"
  "field_pos Status_layout ''data_busy'' = Some (9, 1)"
  "field_pos Status_layout ''data_3_status'' = Some (8, 1)"
  "field_pos Status_layout ''command_fsm_states'' = Some (4, 4)"
  "field_pos Status_layout ''fifo_full'' = Some (3, 1)"
  "field_pos Status_layout ''fifo_empty'' = Some (2, 1)"
  "field_pos Status_layout ''fifo_tx_watermark'' = Some (1, 1)"
  "field_pos Status_layout ''fifo_rx_watermark'' = Some (0, 1)"
  by (simp_all add: Status_layout_def)

lemma Status_flags [reg_simps]:
  "get_flag Status_layout ''dma_req'' r = bit r 31"
  "get_flag Status_layout ''dma_ack'' r = bit r 30"
  "get_flag Status_layout ''data_state_mc_busy'' r = bit r 10"
  "get_flag Status_layout ''data_busy'' r = bit r 9"
  "get_flag Status_layout ''data_3_status'' r = bit r 8"
  "get_flag Status_layout ''fifo_full'' r = bit r 3"
  "get_flag Status_layout ''fifo_empty'' r = bit r 2"
  "get_flag Status_layout ''fifo_tx_watermark'' r = bit r 1"
  "get_flag Status_layout ''fifo_rx_watermark'' r = bit r 0"
  by (simp_all add: get_flag_bit Status_pos)

lemma Status_fields [reg_simps]:
  "get_field Status_layout ''fifo_count'' r = get_bits 17 13 r"
  "get_field Status_layout ''response_index'' r = get_bits 11 6 r"
  "get_field Status_layout ''command_fsm_states'' r = get_bits 4 4 r"
  by (simp_all add: get_field_bits Status_pos)

lemma HCon_pos [reg_simps]:
  "field_pos HCon_layout ''addr_config'' = Some (27, 1)"
  "field_pos HCon_layout ''area_opt'' = Some (26, 1)"
  "field_pos HCon_layout ''num_clk_dic'' = Some (24, 2)"
  "field_pos HCon_layout ''false_path'' = Some (23, 1)"
  "field_pos HCon_layout ''hold_reg'' = Some (22, 1)"
  "field_pos HCon_layout ''fifo_ram_ins'' = Some (21, 1)"
  "field_pos HCon_layout ''ge_dma_data_width'' = Some (18, 3)"
  "field_pos HCon_layout ''dma_if'' = Some (16, 2)"
  "field_pos HCon_layout ''h_addr_width'' = Some (10, 6)"
  "field_pos HCon_layout ''h_data_width'' = Some (7, 3)"
  "field_pos HCon_layout ''bus_type'' = Some (6, 1)"
  "field_pos HCon_layout ''num_card'' = Some (1, 5)"
  "field_pos HCon_layout ''card_type'' = Some (0, 1)"
  by (simp_all add: HCon_layout_def)

lemma HCon_flags [reg_simps]:
  "get_flag HCon_layout ''addr_config'' r = bit r 27"
  "get_flag HCon_layout ''area_opt'' r = bit r 26"
  "get_flag HCon_layout ''false_path'' r = bit r 23"
  "get_flag HCon_layout ''hold_reg'' r = bit r 22"
  "get_flag HCon_layout ''fifo_ram_ins'' r = bit r 21"
  "get_flag HCon_layout ''bus_type'' r = bit r 6"
  "get_flag HCon_layout ''card_type'' r = bit r 0"
  by (simp_all add: get_flag_bit HCon_pos)

lemma HCon_fields [reg_simps]:
  "get_field HCon_layout ''num_clk_dic'' r = get_bits 24 2 r"
  "get_field HCon_layout ''ge_dma_data_width'' r = get_bits 18 3 r"
  "get_field HCon_layout ''dma_if'' r = get_bits 16 2 r"
  "get_field HCon_layout ''h_addr_width'' r = get_bits 10 6 r"
  "get_field HCon_layout ''h_data_width'' r = get_bits 7 3 r"
  "get_field HCon_layout ''num_card'' r = get_bits 1 5 r"
  by (simp_all add: get_field_bits HCon_pos)

lemma BMod_pos [reg_simps]:
  "field_pos BMod_layout ''pbl'' = Some (8, 3)"
  "field_pos BMod_layout ''de'' = Some (7, 1)"
  "field_pos BMod_layout ''dsl'' = Some (2, 5)"
  "field_pos BMod_layout ''fb'' = Some (1, 1)"
  "field_pos BMod_layout ''swr'' = Some (0, 1)"
  by (simp_all add: BMod_layout_def)

lemma BMod_flags [reg_simps]:
  "get_flag BMod_layout ''de'' r = bit r 7"
  "get_flag BMod_layout ''fb'' r = bit r 1"
  "get_flag BMod_layout ''swr'' r = bit r 0"
  by (simp_all add: get_flag_bit BMod_pos)

lemma BMod_fields [reg_simps]:
  "get_field BMod_layout ''pbl'' r = get_bits 8 3 r"
  "get_field BMod_layout ''dsl'' r = get_bits 2 5 r"
  by (simp_all add: get_field_bits BMod_pos)

lemma IdSts_pos [reg_simps]:
  "field_pos IdSts_layout ''fsm'' = Some (13, 4)"
  "field_pos IdSts_layout ''ebe'' = Some (10, 3)"
  "field_pos IdSts_layout ''ais'' = Some (9, 1)"
  "field_pos IdSts_layout ''nis'' = Some (8, 1)"
  "field_pos IdSts_layout ''ces'' = Some (5, 1)"
  "field_pos IdSts_layout ''du'' = Some (4, 1)"
  "field_pos IdSts_layout ''fbe'' = Some (2, 1)"
  "field_pos IdSts_layout ''ri'' = Some (1, 1)"
  "field_pos IdSts_layout ''ti'' = Some (0, 1)"
  by (simp_all add: IdSts_layout_def)

lemma IdSts_flags [reg_simps]:
  "get_flag IdSts_layout ''ais'' r = bit r 9"
  "get_flag IdSts_layout ''nis'' r = bit r 8"
  "get_flag IdSts_layout ''ces'' r = bit r 5"
  "get_flag IdSts_layout ''du'' r = bit r 4"
  "get_flag IdSts_layout ''fbe'' r = bit r 2"
  "get_flag IdSts_layout ''ri'' r = bit r 1"
  "get_flag IdSts_layout ''ti'' r = bit r 0"
  by (simp_all add: get_flag_bit IdSts_pos)

lemma IdSts_fields [reg_simps]:
  "get_field IdSts_layout ''fsm'' r = get_bits 13 4 r"
  "get_field IdSts_layout ''ebe'' r = get_bits 10 3 r"
  by (simp_all add: get_field_bits IdSts_pos)

lemma IdIntEn_pos [reg_simps]:
  "field_pos IdIntEn_layout ''ai'' = Some (9, 1)"
  "field_pos IdIntEn_layout ''ni'' = Some (8, 1)"
  "field_pos IdIntEn_layout ''ces'' = Some (5, 1)"
  "field_pos IdIntEn_layout ''du'' = Some (4, 1)"
  "field_pos IdIntEn_layout ''fbe'' = Some (2, 1)"
  "field_pos IdIntEn_layout ''ri'' = Some (1, 1)"
  "field_pos IdIntEn_layout ''ti'' = Some (0, 1)"
  by (simp_all add: IdIntEn_layout_def)

lemma IdIntEn_flags [reg_simps]:
  "get_flag IdIntEn_layout ''ai'' r = bit r 9"
  "get_flag IdIntEn_layout ''ni'' r = bit r 8"
  "get_flag IdIntEn_layout ''ces'' r = bit r 5"
  "get_flag IdIntEn_layout ''du'' r = bit r 4"
  "get_flag IdIntEn_layout ''fbe'' r = bit r 2"
  "get_flag IdIntEn_layout ''ri'' r = bit r 1"
  "get_flag IdIntEn_layout ''ti'' r = bit r 0"
  by (simp_all add: get_flag_bit IdIntEn_pos)

end
