(* ===== verification/Sd_Cmd.thy ===== *)
theory Sd_Cmd
  imports Sd_Regs
begin

text \<open>
  The command set of the driver (\<open>simple-sdmmc-extended/src/cmd.rs\<close>): the commands,
  their indices and responses, and the translation of a command into the value of
  the CMD register, the argument and the data phase.
\<close>

datatype Command =
    GoIdleState
  | AllSendCid
  | SendRelativeAddr
  | SelectCard u32
  | SendIfCond u32
  | SendCsd u32
  | SendStatus u32
  | ReadSingleBlock u32 "u8 list"
  | ReadMultipleBlocks u32 "u8 list"
  | WriteSingleBlock u32 "u8 list"
  | WriteMultipleBlocks u32 "u8 list"
  | SdSendOpCond u32
  | SendScr "u8 list"
  | AppCmd u32
  | ResetClock

datatype DataXfer = XferRead "u8 list" | XferWrite "u8 list"

fun cmd_index :: "Command \<Rightarrow> u8" where
  "cmd_index GoIdleState = 0"
| "cmd_index AllSendCid = 2"
| "cmd_index SendRelativeAddr = 3"
| "cmd_index (SelectCard _) = 7"
| "cmd_index (SendIfCond _) = 8"
| "cmd_index (SendCsd _) = 9"
| "cmd_index (SendStatus _) = 13"
| "cmd_index (ReadSingleBlock _ _) = 17"
| "cmd_index (ReadMultipleBlocks _ _) = 18"
| "cmd_index (WriteSingleBlock _ _) = 24"
| "cmd_index (WriteMultipleBlocks _ _) = 25"
| "cmd_index (SdSendOpCond _) = 41"
| "cmd_index (SendScr _) = 51"
| "cmd_index (AppCmd _) = 55"
| "cmd_index ResetClock = 0"

fun has_r1_response :: "Command \<Rightarrow> bool" where
  "has_r1_response (SelectCard _) = True"
| "has_r1_response (SendStatus _) = True"
| "has_r1_response (ReadSingleBlock _ _) = True"
| "has_r1_response (ReadMultipleBlocks _ _) = True"
| "has_r1_response (WriteSingleBlock _ _) = True"
| "has_r1_response (WriteMultipleBlocks _ _) = True"
| "has_r1_response (SendScr _) = True"
| "has_r1_response (AppCmd _) = True"
| "has_r1_response _ = False"

fun requires_app_cmd_accepted :: "Command \<Rightarrow> bool" where
  "requires_app_cmd_accepted (AppCmd _) = True"
| "requires_app_cmd_accepted _ = False"

definition cmd_with :: "string \<Rightarrow> bool \<Rightarrow> u32 \<Rightarrow> u32" where
  "cmd_with f b c = with_flag Cmd_layout f b c"

definition build_base :: "Command \<Rightarrow> u32" where
  "build_base command =
     with_field Cmd_layout ''cmd_index'' (ucast (cmd_index command))
       (cmd_with ''use_hold_reg'' True Cmd_default)"

definition build_resp :: "Command \<Rightarrow> u32" where
  "build_resp command = cmd_with ''response_expect'' True (build_base command)"

definition build_crc :: "Command \<Rightarrow> u32" where
  "build_crc command = cmd_with ''check_response_crc'' True (build_resp command)"

definition build :: "Command \<Rightarrow> u32 \<times> u32 \<times> DataXfer option" where
  "build command =
     (let cmd = build_base command; cmd_resp = build_resp command; cmd_crc = build_crc command in
      case command of
        GoIdleState \<Rightarrow> (cmd_with ''send_initialization'' True cmd, 0, None)
      | SendRelativeAddr \<Rightarrow> (cmd_crc, 0, None)
      | SelectCard arg \<Rightarrow> (cmd_crc, arg, None)
      | SendIfCond arg \<Rightarrow> (cmd_crc, arg, None)
      | AppCmd arg \<Rightarrow> (cmd_crc, arg, None)
      | AllSendCid \<Rightarrow> (cmd_with ''response_length'' True cmd_crc, 0, None)
      | SendCsd arg \<Rightarrow> (cmd_with ''response_length'' True cmd_crc, arg, None)
      | SendStatus arg \<Rightarrow> (cmd_with ''wait_prvdata_complete'' False cmd_crc, arg, None)
      | SdSendOpCond arg \<Rightarrow> (cmd_resp, arg, None)
      | ReadSingleBlock block buf \<Rightarrow>
          (cmd_with ''data_expected'' True cmd_crc, block, Some (XferRead buf))
      | ReadMultipleBlocks block buf \<Rightarrow>
          (cmd_with ''send_auto_stop'' True (cmd_with ''data_expected'' True cmd_crc),
           block, Some (XferRead buf))
      | SendScr buf \<Rightarrow> (cmd_with ''data_expected'' True cmd_crc, 0, Some (XferRead buf))
      | WriteSingleBlock block buf \<Rightarrow>
          (cmd_with ''read_write'' True (cmd_with ''data_expected'' True cmd_crc),
           block, Some (XferWrite buf))
      | WriteMultipleBlocks block buf \<Rightarrow>
          (cmd_with ''send_auto_stop'' True
             (cmd_with ''read_write'' True (cmd_with ''data_expected'' True cmd_crc)),
           block, Some (XferWrite buf))
      | ResetClock \<Rightarrow>
          (cmd_with ''response_expect'' False
             (cmd_with ''update_clock_registers_only'' True Cmd_default), 0, None))"

section \<open>The bits of a built command\<close>

lemma Cmd_default_value: "Cmd_default = 0x80002000"
  by (simp add: Cmd_default_def with_flag_def with_field_def put_bits_def Cmd_pos)

lemma bit_cmd_with:
  assumes "field_pos Cmd_layout f = Some (off, 1)" "off < 32"
  shows "bit (cmd_with f b c) n = (if n = off then b else bit c n)"
  using assms by (simp add: cmd_with_def bit_with_flag)

lemma bit_Cmd_default: "bit Cmd_default n = (n = 31 \<or> n = 13)"
  by (simp add: Cmd_default_def bit_with_flag Cmd_pos)

lemma bit_build_base:
  "bit (build_base c) n =
     (n < 32 \<and> (if n < 6 then bit (ucast (cmd_index c) :: u32) n
               else n = 13 \<or> n = 29 \<or> n = 31))"
  by (auto simp: build_base_def with_field_def Cmd_pos bit_put_bits bit_cmd_with
      bit_Cmd_default)

lemmas build_bits =
  bit_cmd_with bit_build_base bit_Cmd_default Cmd_pos build_resp_def build_crc_def

lemma cmd_index_six_bits: "take_bit 6 (ucast (cmd_index c) :: u32) = ucast (cmd_index c)"
  by (cases c) simp_all

lemma build_data_expected:
  "build c = (cmd, arg, xfer) \<Longrightarrow> get_flag Cmd_layout ''data_expected'' cmd \<longleftrightarrow> xfer \<noteq> None"
  by (cases c) (auto simp: build_def Let_def Cmd_flags build_bits)

lemma build_read_write:
  "build c = (cmd, arg, xfer) \<Longrightarrow>
     get_flag Cmd_layout ''read_write'' cmd \<longleftrightarrow> (\<exists>buf. xfer = Some (XferWrite buf))"
  by (cases c) (auto simp: build_def Let_def Cmd_flags build_bits)

lemma build_index:
  "get_field Cmd_layout ''cmd_index'' (fst (build c)) = ucast (cmd_index c)"
  unfolding Cmd_fields
  by (rule get_bits_low [OF _ cmd_index_six_bits]; cases c)
    (simp_all add: build_def build_bits)

section \<open>Properties\<close>

text \<open>
  C30: every command the driver builds starts the controller and carries its index
  unharmed by the six-bit field, announces a data phase
  exactly when a buffer comes with it (so the assertion at the head of
  \<open>send_cmd_with_deadline\<close> never fires), has the write direction exactly for a
  buffer to be written, asks for an automatic stop exactly for the two multi-block
  commands, expects a response for all but index 0, and waits for the preceding
  data transfer unless it is the status query.
\<close>

theorem build_encodes:
  "case build c of (cmd, arg, xfer) \<Rightarrow>
     get_flag Cmd_layout ''start_cmd'' cmd \<and>
     get_field Cmd_layout ''cmd_index'' cmd = ucast (cmd_index c) \<and>
     (get_flag Cmd_layout ''data_expected'' cmd \<longleftrightarrow> xfer \<noteq> None) \<and>
     (get_flag Cmd_layout ''read_write'' cmd \<longleftrightarrow> (\<exists>buf. xfer = Some (XferWrite buf))) \<and>
     (get_flag Cmd_layout ''send_auto_stop'' cmd \<longleftrightarrow> cmd_index c \<in> {18, 25}) \<and>
     (get_flag Cmd_layout ''response_expect'' cmd \<longleftrightarrow> cmd_index c \<noteq> 0) \<and>
     (get_flag Cmd_layout ''wait_prvdata_complete'' cmd \<longleftrightarrow> cmd_index c \<noteq> 13)"
proof -
  have "case build c of (cmd, arg, xfer) \<Rightarrow>
     get_flag Cmd_layout ''start_cmd'' cmd \<and>
     (get_flag Cmd_layout ''data_expected'' cmd \<longleftrightarrow> xfer \<noteq> None) \<and>
     (get_flag Cmd_layout ''read_write'' cmd \<longleftrightarrow> (\<exists>buf. xfer = Some (XferWrite buf))) \<and>
     (get_flag Cmd_layout ''send_auto_stop'' cmd \<longleftrightarrow> cmd_index c \<in> {18, 25}) \<and>
     (get_flag Cmd_layout ''response_expect'' cmd \<longleftrightarrow> cmd_index c \<noteq> 0) \<and>
     (get_flag Cmd_layout ''wait_prvdata_complete'' cmd \<longleftrightarrow> cmd_index c \<noteq> 13)"
    by (cases c) (simp_all add: build_def Cmd_flags build_bits)
  with build_index [of c] show ?thesis by (auto split: prod.splits)
qed

end
