(* ===== verification/Sd_Card.thy ===== *)
theory Sd_Card
  imports Bitfield
begin

text \<open>
  What the card reports (\<open>simple-sdmmc-extended/src/utils.rs\<close>): the R1 status word
  with its error bits and state field, and the CID and CSD registers as 128-bit
  values assembled from the four response words.
\<close>

section \<open>R1 card status\<close>

datatype R1CurrentState =
    Idle | Ready | Identification | Standby | Transfer | SendingData | ReceiveData
  | Programming | Disconnect | Reserved u8

type_synonym R1CardStatus = u32

definition ERROR_MASK :: u32 where
  "ERROR_MASK = 0xfff98088"

definition r1_bit :: "R1CardStatus \<Rightarrow> nat \<Rightarrow> bool" where
  "r1_bit s b = (s AND push_bit b 1 \<noteq> 0)"

definition error_bits :: "R1CardStatus \<Rightarrow> u32" where
  "error_bits s = s AND ERROR_MASK"

definition has_error :: "R1CardStatus \<Rightarrow> bool" where
  "has_error s = (error_bits s \<noteq> 0)"

definition r1_out_of_range :: "R1CardStatus \<Rightarrow> bool" where
  "r1_out_of_range s = r1_bit s 31"

definition r1_address_error :: "R1CardStatus \<Rightarrow> bool" where
  "r1_address_error s = r1_bit s 30"

definition r1_block_len_error :: "R1CardStatus \<Rightarrow> bool" where
  "r1_block_len_error s = r1_bit s 29"

definition r1_erase_seq_error :: "R1CardStatus \<Rightarrow> bool" where
  "r1_erase_seq_error s = r1_bit s 28"

definition r1_erase_param :: "R1CardStatus \<Rightarrow> bool" where
  "r1_erase_param s = r1_bit s 27"

definition r1_wp_violation :: "R1CardStatus \<Rightarrow> bool" where
  "r1_wp_violation s = r1_bit s 26"

definition r1_card_is_locked :: "R1CardStatus \<Rightarrow> bool" where
  "r1_card_is_locked s = r1_bit s 25"

definition r1_lock_unlock_failed :: "R1CardStatus \<Rightarrow> bool" where
  "r1_lock_unlock_failed s = r1_bit s 24"

definition r1_com_crc_error :: "R1CardStatus \<Rightarrow> bool" where
  "r1_com_crc_error s = r1_bit s 23"

definition r1_illegal_command :: "R1CardStatus \<Rightarrow> bool" where
  "r1_illegal_command s = r1_bit s 22"

definition r1_card_ecc_failed :: "R1CardStatus \<Rightarrow> bool" where
  "r1_card_ecc_failed s = r1_bit s 21"

definition r1_cc_error :: "R1CardStatus \<Rightarrow> bool" where
  "r1_cc_error s = r1_bit s 20"

definition r1_error :: "R1CardStatus \<Rightarrow> bool" where
  "r1_error s = r1_bit s 19"

definition r1_cid_csd_overwrite :: "R1CardStatus \<Rightarrow> bool" where
  "r1_cid_csd_overwrite s = r1_bit s 16"

definition r1_wp_erase_skip :: "R1CardStatus \<Rightarrow> bool" where
  "r1_wp_erase_skip s = r1_bit s 15"

definition r1_card_ecc_disabled :: "R1CardStatus \<Rightarrow> bool" where
  "r1_card_ecc_disabled s = r1_bit s 14"

definition r1_erase_reset :: "R1CardStatus \<Rightarrow> bool" where
  "r1_erase_reset s = r1_bit s 13"

definition r1_ready_for_data :: "R1CardStatus \<Rightarrow> bool" where
  "r1_ready_for_data s = r1_bit s 8"

definition r1_switch_error :: "R1CardStatus \<Rightarrow> bool" where
  "r1_switch_error s = r1_bit s 7"

definition r1_exception_event :: "R1CardStatus \<Rightarrow> bool" where
  "r1_exception_event s = r1_bit s 6"

definition r1_app_cmd :: "R1CardStatus \<Rightarrow> bool" where
  "r1_app_cmd s = r1_bit s 5"

definition r1_ake_seq_error :: "R1CardStatus \<Rightarrow> bool" where
  "r1_ake_seq_error s = r1_bit s 3"

definition current_state :: "R1CardStatus \<Rightarrow> R1CurrentState" where
  "current_state s =
     (let state = (ucast (drop_bit 9 s AND 0xf) :: u8) in
      if state = 0 then Idle
      else if state = 1 then Ready
      else if state = 2 then Identification
      else if state = 3 then Standby
      else if state = 4 then Transfer
      else if state = 5 then SendingData
      else if state = 6 then ReceiveData
      else if state = 7 then Programming
      else if state = 8 then Disconnect
      else Reserved state)"

definition R1ErrorNames :: "R1CardStatus \<Rightarrow> string list" where
  "R1ErrorNames s =
     (if r1_out_of_range s then [''OUT_OF_RANGE''] else []) @
     (if r1_address_error s then [''ADDRESS_ERROR''] else []) @
     (if r1_block_len_error s then [''BLOCK_LEN_ERROR''] else []) @
     (if r1_erase_seq_error s then [''ERASE_SEQ_ERROR''] else []) @
     (if r1_erase_param s then [''ERASE_PARAM''] else []) @
     (if r1_wp_violation s then [''WP_VIOLATION''] else []) @
     (if r1_card_is_locked s then [''CARD_IS_LOCKED''] else []) @
     (if r1_lock_unlock_failed s then [''LOCK_UNLOCK_FAILED''] else []) @
     (if r1_com_crc_error s then [''COM_CRC_ERROR''] else []) @
     (if r1_illegal_command s then [''ILLEGAL_COMMAND''] else []) @
     (if r1_card_ecc_failed s then [''CARD_ECC_FAILED''] else []) @
     (if r1_cc_error s then [''CC_ERROR''] else []) @
     (if r1_error s then [''ERROR''] else []) @
     (if r1_cid_csd_overwrite s then [''CID_CSD_OVERWRITE''] else []) @
     (if r1_wp_erase_skip s then [''WP_ERASE_SKIP''] else []) @
     (if r1_switch_error s then [''SWITCH_ERROR''] else []) @
     (if r1_ake_seq_error s then [''AKE_SEQ_ERROR''] else [])"

section \<open>CID and CSD\<close>

definition ProductRevision_layout :: layout where
  "ProductRevision_layout =
    [(''hwrev'', 4), (''fwrev'', 4)]"

definition ManufacturingDate_layout :: layout where
  "ManufacturingDate_layout =
    [(pad, 4), (''year'', 8), (''month'', 4)]"

definition Cid_layout :: layout where
  "Cid_layout =
    [(''mid'', 8), (''oid'', 16), (''pnm'', 40), (''prv'', 8), (''psn'', 32),
     (''mdt'', 16), (''crc'', 7), (pad, 1)]"

definition CsdV2_layout :: layout where
  "CsdV2_layout =
    [(''csd_structure'', 2), (pad, 6), (''taac'', 8), (''nsac'', 8), (''tran_speed'', 8),
     (''ccc'', 12), (''read_bl_len'', 4), (''read_blk_partial'', 1),
     (''write_blk_misaligned'', 1), (''read_blk_misaligned'', 1), (''dsr_imp'', 1),
     (pad, 6), (''c_size'', 22), (pad, 1), (''erase_blk_en'', 1), (''sector_size'', 7),
     (''wp_grp_size'', 7), (''wp_grp_enable'', 1), (pad, 2), (''r2w_factor'', 3),
     (''write_bl_len'', 4), (''write_blk_partial'', 1), (pad, 5), (''file_format_grp'', 1),
     (''copy'', 1), (''perm_write_protect'', 1), (''tmp_write_protect'', 1),
     (''file_format'', 2), (pad, 2), (''crc'', 7), (pad, 1)]"

text \<open>\<open>transmute::<[u32; 4], u128>\<close> on the little-endian targets of the kernel.\<close>

fun resp_u128 :: "u32 \<times> u32 \<times> u32 \<times> u32 \<Rightarrow> u128" where
  "resp_u128 (r0, r1, r2, r3) =
     ucast r0 OR push_bit 32 (ucast r1) OR push_bit 64 (ucast r2) OR push_bit 96 (ucast r3)"

definition c_size :: "u128 \<Rightarrow> u32" where
  "c_size csd = ucast (get_field CsdV2_layout ''c_size'' csd)"

definition csd_structure :: "u128 \<Rightarrow> u8" where
  "csd_structure csd = ucast (get_field CsdV2_layout ''csd_structure'' csd)"

definition csd_num_blocks :: "u128 \<Rightarrow> u64" where
  "csd_num_blocks csd = (ucast (c_size csd) + 1) * 1024"

interpretation productrevision_bf: bitfield ProductRevision_layout "TYPE(8)"
  by unfold_locales (simp_all add: ProductRevision_layout_def layout_names_def)

interpretation manufacturingdate_bf: bitfield ManufacturingDate_layout "TYPE(16)"
  by unfold_locales (simp_all add: ManufacturingDate_layout_def layout_names_def)

interpretation cid_bf: bitfield Cid_layout "TYPE(128)"
  by unfold_locales (simp_all add: Cid_layout_def layout_names_def)

interpretation csdv2_bf: bitfield CsdV2_layout "TYPE(128)"
  by unfold_locales (simp_all add: CsdV2_layout_def layout_names_def)

lemma Cid_pos [reg_simps]:
  "field_pos Cid_layout ''mid'' = Some (120, 8)"
  "field_pos Cid_layout ''oid'' = Some (104, 16)"
  "field_pos Cid_layout ''pnm'' = Some (64, 40)"
  "field_pos Cid_layout ''prv'' = Some (56, 8)"
  "field_pos Cid_layout ''psn'' = Some (24, 32)"
  "field_pos Cid_layout ''mdt'' = Some (8, 16)"
  "field_pos Cid_layout ''crc'' = Some (1, 7)"
  by (simp_all add: Cid_layout_def)

lemma Cid_fields [reg_simps]:
  "get_field Cid_layout ''mid'' r = get_bits 120 8 r"
  "get_field Cid_layout ''oid'' r = get_bits 104 16 r"
  "get_field Cid_layout ''pnm'' r = get_bits 64 40 r"
  "get_field Cid_layout ''prv'' r = get_bits 56 8 r"
  "get_field Cid_layout ''psn'' r = get_bits 24 32 r"
  "get_field Cid_layout ''mdt'' r = get_bits 8 16 r"
  "get_field Cid_layout ''crc'' r = get_bits 1 7 r"
  by (simp_all add: get_field_bits Cid_pos)

lemma CsdV2_pos [reg_simps]:
  "field_pos CsdV2_layout ''csd_structure'' = Some (126, 2)"
  "field_pos CsdV2_layout ''taac'' = Some (112, 8)"
  "field_pos CsdV2_layout ''nsac'' = Some (104, 8)"
  "field_pos CsdV2_layout ''tran_speed'' = Some (96, 8)"
  "field_pos CsdV2_layout ''ccc'' = Some (84, 12)"
  "field_pos CsdV2_layout ''read_bl_len'' = Some (80, 4)"
  "field_pos CsdV2_layout ''read_blk_partial'' = Some (79, 1)"
  "field_pos CsdV2_layout ''write_blk_misaligned'' = Some (78, 1)"
  "field_pos CsdV2_layout ''read_blk_misaligned'' = Some (77, 1)"
  "field_pos CsdV2_layout ''dsr_imp'' = Some (76, 1)"
  "field_pos CsdV2_layout ''c_size'' = Some (48, 22)"
  "field_pos CsdV2_layout ''erase_blk_en'' = Some (46, 1)"
  "field_pos CsdV2_layout ''sector_size'' = Some (39, 7)"
  "field_pos CsdV2_layout ''wp_grp_size'' = Some (32, 7)"
  "field_pos CsdV2_layout ''wp_grp_enable'' = Some (31, 1)"
  "field_pos CsdV2_layout ''r2w_factor'' = Some (26, 3)"
  "field_pos CsdV2_layout ''write_bl_len'' = Some (22, 4)"
  "field_pos CsdV2_layout ''write_blk_partial'' = Some (21, 1)"
  "field_pos CsdV2_layout ''file_format_grp'' = Some (15, 1)"
  "field_pos CsdV2_layout ''copy'' = Some (14, 1)"
  "field_pos CsdV2_layout ''perm_write_protect'' = Some (13, 1)"
  "field_pos CsdV2_layout ''tmp_write_protect'' = Some (12, 1)"
  "field_pos CsdV2_layout ''file_format'' = Some (10, 2)"
  "field_pos CsdV2_layout ''crc'' = Some (1, 7)"
  by (simp_all add: CsdV2_layout_def)

lemma CsdV2_flags [reg_simps]:
  "get_flag CsdV2_layout ''read_blk_partial'' r = bit r 79"
  "get_flag CsdV2_layout ''write_blk_misaligned'' r = bit r 78"
  "get_flag CsdV2_layout ''read_blk_misaligned'' r = bit r 77"
  "get_flag CsdV2_layout ''dsr_imp'' r = bit r 76"
  "get_flag CsdV2_layout ''erase_blk_en'' r = bit r 46"
  "get_flag CsdV2_layout ''wp_grp_enable'' r = bit r 31"
  "get_flag CsdV2_layout ''write_blk_partial'' r = bit r 21"
  "get_flag CsdV2_layout ''file_format_grp'' r = bit r 15"
  "get_flag CsdV2_layout ''copy'' r = bit r 14"
  "get_flag CsdV2_layout ''perm_write_protect'' r = bit r 13"
  "get_flag CsdV2_layout ''tmp_write_protect'' r = bit r 12"
  by (simp_all add: get_flag_bit CsdV2_pos)

lemma CsdV2_fields [reg_simps]:
  "get_field CsdV2_layout ''csd_structure'' r = get_bits 126 2 r"
  "get_field CsdV2_layout ''taac'' r = get_bits 112 8 r"
  "get_field CsdV2_layout ''nsac'' r = get_bits 104 8 r"
  "get_field CsdV2_layout ''tran_speed'' r = get_bits 96 8 r"
  "get_field CsdV2_layout ''ccc'' r = get_bits 84 12 r"
  "get_field CsdV2_layout ''read_bl_len'' r = get_bits 80 4 r"
  "get_field CsdV2_layout ''c_size'' r = get_bits 48 22 r"
  "get_field CsdV2_layout ''sector_size'' r = get_bits 39 7 r"
  "get_field CsdV2_layout ''wp_grp_size'' r = get_bits 32 7 r"
  "get_field CsdV2_layout ''r2w_factor'' r = get_bits 26 3 r"
  "get_field CsdV2_layout ''write_bl_len'' r = get_bits 22 4 r"
  "get_field CsdV2_layout ''file_format'' r = get_bits 10 2 r"
  "get_field CsdV2_layout ''crc'' r = get_bits 1 7 r"
  by (simp_all add: get_field_bits CsdV2_pos)

section \<open>Status bits\<close>

lemmas r1_error_defs =
  r1_out_of_range_def r1_address_error_def r1_block_len_error_def r1_erase_seq_error_def
  r1_erase_param_def r1_wp_violation_def r1_card_is_locked_def r1_lock_unlock_failed_def
  r1_com_crc_error_def r1_illegal_command_def r1_card_ecc_failed_def r1_cc_error_def
  r1_error_def r1_cid_csd_overwrite_def r1_wp_erase_skip_def r1_switch_error_def
  r1_ake_seq_error_def

lemma r1_bit_eq: "r1_bit s b \<longleftrightarrow> bit s b"
proof -
  have "bit (s AND push_bit b 1) n \<longleftrightarrow> n = b \<and> bit s b" for n
    by (auto simp: bit_and_iff bit_exp_iff possible_bit_word dest: bit_imp_le_length)
  then show ?thesis unfolding r1_bit_def word_neq_0_iff by blast
qed

lemma if_singleton_Nil: "((if b then [x] else []) = []) \<longleftrightarrow> \<not> b"
  by simp

lemma ERROR_MASK_bits:
  "bit ERROR_MASK n \<longleftrightarrow>
     n \<in> set [3, 7, 15, 16, 19, 20, 21, 22, 23, 24, 25, 26, 27, 28, 29, 30, 31]"
proof (cases "n < 32")
  case True
  then have "n \<in> set [0..<32]" by simp
  moreover have "\<forall>n \<in> set [0..<32]. bit ERROR_MASK n \<longleftrightarrow>
     n \<in> set [3, 7, 15, 16, 19, 20, 21, 22, 23, 24, 25, 26, 27, 28, 29, 30, 31]"
    by (simp add: ERROR_MASK_def upt_rec del: set_upt)
  ultimately show ?thesis by blast
next
  case False
  then show ?thesis using bit_imp_le_length [of ERROR_MASK n] by auto
qed

lemma has_error_iff: "has_error s \<longleftrightarrow> (\<exists>n. bit ERROR_MASK n \<and> bit s n)"
  unfolding has_error_def error_bits_def word_neq_0_iff by (auto simp: bit_and_iff)

lemma c_size_bound: "unat (c_size csd) < 2 ^ 22"
proof -
  have "c_size csd = take_bit 22 (ucast (drop_bit 48 csd))"
    by (rule bit_word_eqI)
      (simp add: c_size_def CsdV2_fields bit_get_bits bit_ucast_iff bit_take_bit_iff
        bit_drop_bit_eq)
  then show ?thesis by (simp only: unat_take_bit_less)
qed

lemma unat_csd_num_blocks: "unat (csd_num_blocks csd) = (unat (c_size csd) + 1) * 1024"
  using c_size_bound [of csd]
  by (simp add: csd_num_blocks_def unat_word_ariths unat_ucast_up)

section \<open>Properties\<close>

text \<open>
  C31: the error mask that makes a command fail and the list of named errors in the
  diagnostic output agree: a status has an error bit exactly when at least one
  error is named.
\<close>

theorem R1ErrorNames_complete: "R1ErrorNames s \<noteq> [] \<longleftrightarrow> has_error s"
proof -
  have "has_error s \<longleftrightarrow> (\<exists>n \<in> set [3, 7, 15, 16, 19, 20, 21, 22, 23, 24, 25, 26, 27, 28,
      29, 30, 31]. bit s n)"
    unfolding has_error_iff ERROR_MASK_bits by blast
  then show ?thesis
    by (simp add: R1ErrorNames_def r1_bit_eq r1_error_defs if_singleton_Nil split del: if_split)
      blast
qed

text \<open>
  C32: the capacity computed from a CSD v2 register is what the SD specification
  says, \<open>(C_SIZE + 1) * 1024\<close> blocks, with \<open>C_SIZE\<close> taken from bits 69..48 of the
  register, that is from the second and third response word; it is never zero and
  at most \<open>2^32\<close> blocks, so no 64-bit overflow happens.
\<close>

theorem csd_capacity:
  "let csd = resp_u128 (r0, r1, r2, r3) in
     c_size csd = (push_bit 16 (take_bit 6 r2) OR drop_bit 16 r1) \<and>
     unat (csd_num_blocks csd) = (unat (c_size csd) + 1) * 1024 \<and>
     unat (csd_num_blocks csd) \<le> 2 ^ 32"
proof -
  have "c_size (resp_u128 (r0, r1, r2, r3)) = (push_bit 16 (take_bit 6 r2) OR drop_bit 16 r1)"
    by (rule bit_word_eqI, simp add: c_size_def CsdV2_fields bit_get_bits bit_ucast_iff
        bit_or_iff bit_push_bit_iff bit_take_bit_iff bit_drop_bit_eq)
      (auto dest: bit_imp_le_length simp: algebra_simps)
  then show ?thesis
    using c_size_bound [of "resp_u128 (r0, r1, r2, r3)"]
    by (simp only: Let_def unat_csd_num_blocks) auto
qed

end
