(* ===== verification/Sd_Dma_Desc.thy ===== *)
theory Sd_Dma_Desc
  imports Bitfield
begin

text \<open>
  Descriptors of the controller's internal DMA engine
  (\<open>simple-sdmmc-extended/src/dma.rs\<close>) and the chain
  \<open>SdMmc::prepare_idmac_transfer\<close> writes for a transfer (\<open>sdmmc.rs\<close>).  The
  specification is the engine's view: \<open>idmac_walk\<close> follows the chain from its base
  address as the comments of \<open>dma.rs\<close> describe and collects the memory segments.
\<close>

section \<open>Descriptors\<close>

definition IdmacDes0_layout :: layout where
  "IdmacDes0_layout =
    [(''own'', 1), (''ces'', 1), (''_reserved1'', 24), (''er'', 1), (''ch'', 1),
     (''fs'', 1), (''ld'', 1), (''dic'', 1), (''_reserved0'', 1)]"

definition IdmacDes1_layout :: layout where
  "IdmacDes1_layout =
    [(''_reserved'', 19), (''bs1'', 13)]"

record IdmacDescriptor =
  des0 :: u32
  des1 :: u32
  des2 :: u32
  des3 :: u32

definition IdmacDescriptor_new :: IdmacDescriptor where
  "IdmacDescriptor_new = \<lparr>des0 = 0, des1 = 0, des2 = 0, des3 = 0\<rparr>"

definition set_desc0_control_descriptor ::
  "bool \<Rightarrow> bool \<Rightarrow> bool \<Rightarrow> bool \<Rightarrow> bool \<Rightarrow> bool \<Rightarrow> bool \<Rightarrow> IdmacDescriptor \<Rightarrow> IdmacDescriptor" where
  "set_desc0_control_descriptor own ces er ch fs ld dic d =
     d\<lparr>des0 := with_flag IdmacDes0_layout ''dic'' dic
               (with_flag IdmacDes0_layout ''ld'' ld
               (with_flag IdmacDes0_layout ''fs'' fs
               (with_flag IdmacDes0_layout ''ch'' ch
               (with_flag IdmacDes0_layout ''er'' er
               (with_flag IdmacDes0_layout ''ces'' ces
               (with_flag IdmacDes0_layout ''own'' own 0))))))\<rparr>"

definition set_des1_buffer1_size :: "u16 \<Rightarrow> IdmacDescriptor \<Rightarrow> IdmacDescriptor" where
  "set_des1_buffer1_size sz d =
     d\<lparr>des1 := with_field IdmacDes1_layout ''bs1'' (ucast sz) (des1 d)\<rparr>"

definition set_des2_buffer1_address :: "u32 \<Rightarrow> IdmacDescriptor \<Rightarrow> IdmacDescriptor" where
  "set_des2_buffer1_address addr d = d\<lparr>des2 := addr\<rparr>"

definition set_des3_next_descriptor_address :: "u32 \<Rightarrow> IdmacDescriptor \<Rightarrow> IdmacDescriptor" where
  "set_des3_next_descriptor_address addr d = d\<lparr>des3 := addr\<rparr>"

section \<open>The chain of a transfer\<close>

definition MAX_DMA_BLOCKS :: nat where "MAX_DMA_BLOCKS = 32"

definition DMA_BUFFER_SIZE :: nat where "DMA_BUFFER_SIZE = MAX_DMA_BLOCKS * 512"

definition IDMAC_DESCRIPTOR_BUFFER_SIZE :: nat where
  "IDMAC_DESCRIPTOR_BUFFER_SIZE = 8 * 512"

definition DESCRIPTOR_SIZE :: nat where "DESCRIPTOR_SIZE = 16"

definition chain_descriptor :: "u32 \<Rightarrow> u32 \<Rightarrow> nat \<Rightarrow> nat \<Rightarrow> nat \<Rightarrow> IdmacDescriptor" where
  "chain_descriptor dma_bus_addr desc_phy_addr buf_len descriptor_count index =
     (let offset = index * IDMAC_DESCRIPTOR_BUFFER_SIZE;
          segment_len = min (buf_len - offset) IDMAC_DESCRIPTOR_BUFFER_SIZE;
          last = (index + 1 = descriptor_count);
          buffer_addr = dma_bus_addr + of_nat offset;
          next_descriptor_addr =
            (if last then 0 else desc_phy_addr + of_nat ((index + 1) * DESCRIPTOR_SIZE))
      in set_des3_next_descriptor_address next_descriptor_addr
          (set_des2_buffer1_address buffer_addr
          (set_des1_buffer1_size (of_nat segment_len)
          (set_desc0_control_descriptor True False False (\<not> last) (index = 0) last (\<not> last)
             IdmacDescriptor_new))))"

definition build_chain :: "u32 \<Rightarrow> u32 \<Rightarrow> nat \<Rightarrow> nat \<Rightarrow> IdmacDescriptor list" where
  "build_chain dma_bus_addr desc_phy_addr buf_len descriptor_count =
     map (chain_descriptor dma_bus_addr desc_phy_addr buf_len descriptor_count)
       [0..<descriptor_count]"

section \<open>The engine's view of a chain\<close>

definition desc_bs1 :: "IdmacDescriptor \<Rightarrow> nat" where
  "desc_bs1 d = unat (get_field IdmacDes1_layout ''bs1'' (des1 d))"

fun idmac_walk :: "(u32 \<Rightarrow> IdmacDescriptor option) \<Rightarrow> nat \<Rightarrow> u32 \<Rightarrow> (u32 \<times> nat) list option" where
  "idmac_walk m 0 a = None"
| "idmac_walk m (Suc n) a =
     (case m a of
        None \<Rightarrow> None
      | Some d \<Rightarrow>
          if \<not> get_flag IdmacDes0_layout ''own'' (des0 d) then None
          else if get_flag IdmacDes0_layout ''ld'' (des0 d) then Some [(des2 d, desc_bs1 d)]
          else if get_flag IdmacDes0_layout ''ch'' (des0 d)
          then map_option ((#) (des2 d, desc_bs1 d)) (idmac_walk m n (des3 d))
          else None)"

definition chain_memory :: "u32 \<Rightarrow> IdmacDescriptor list \<Rightarrow> u32 \<Rightarrow> IdmacDescriptor option" where
  "chain_memory base ds =
     map_of (zip (map (\<lambda>i. base + of_nat (i * DESCRIPTOR_SIZE)) [0..<length ds]) ds)"

definition segment_bytes :: "u32 \<times> nat \<Rightarrow> nat list" where
  "segment_bytes s = (case s of (a, k) \<Rightarrow> map (\<lambda>i. unat a + i) [0..<k])"

section \<open>Descriptor fields\<close>

interpretation idmacdes0_bf: bitfield IdmacDes0_layout "TYPE(32)"
  by unfold_locales (simp_all add: IdmacDes0_layout_def layout_names_def)

interpretation idmacdes1_bf: bitfield IdmacDes1_layout "TYPE(32)"
  by unfold_locales (simp_all add: IdmacDes1_layout_def layout_names_def)

lemma IdmacDes0_pos [reg_simps]:
  "field_pos IdmacDes0_layout ''own'' = Some (31, 1)"
  "field_pos IdmacDes0_layout ''ces'' = Some (30, 1)"
  "field_pos IdmacDes0_layout ''_reserved1'' = Some (6, 24)"
  "field_pos IdmacDes0_layout ''er'' = Some (5, 1)"
  "field_pos IdmacDes0_layout ''ch'' = Some (4, 1)"
  "field_pos IdmacDes0_layout ''fs'' = Some (3, 1)"
  "field_pos IdmacDes0_layout ''ld'' = Some (2, 1)"
  "field_pos IdmacDes0_layout ''dic'' = Some (1, 1)"
  "field_pos IdmacDes0_layout ''_reserved0'' = Some (0, 1)"
  by (simp_all add: IdmacDes0_layout_def)

lemma IdmacDes0_flags [reg_simps]:
  "get_flag IdmacDes0_layout ''own'' r = bit r 31"
  "get_flag IdmacDes0_layout ''ces'' r = bit r 30"
  "get_flag IdmacDes0_layout ''er'' r = bit r 5"
  "get_flag IdmacDes0_layout ''ch'' r = bit r 4"
  "get_flag IdmacDes0_layout ''fs'' r = bit r 3"
  "get_flag IdmacDes0_layout ''ld'' r = bit r 2"
  "get_flag IdmacDes0_layout ''dic'' r = bit r 1"
  "get_flag IdmacDes0_layout ''_reserved0'' r = bit r 0"
  by (simp_all add: get_flag_bit IdmacDes0_pos)

lemma IdmacDes0_fields [reg_simps]:
  "get_field IdmacDes0_layout ''_reserved1'' r = get_bits 6 24 r"
  by (simp_all add: get_field_bits IdmacDes0_pos)

lemma IdmacDes1_pos [reg_simps]:
  "field_pos IdmacDes1_layout ''_reserved'' = Some (13, 19)"
  "field_pos IdmacDes1_layout ''bs1'' = Some (0, 13)"
  by (simp_all add: IdmacDes1_layout_def)

lemma IdmacDes1_fields [reg_simps]:
  "get_field IdmacDes1_layout ''_reserved'' r = get_bits 13 19 r"
  "get_field IdmacDes1_layout ''bs1'' r = get_bits 0 13 r"
  by (simp_all add: get_field_bits IdmacDes1_pos)

section \<open>The chain maps the buffer\<close>

lemmas chain_defs = chain_descriptor_def Let_def set_des3_next_descriptor_address_def
  set_des2_buffer1_address_def set_des1_buffer1_size_def set_desc0_control_descriptor_def
  IdmacDescriptor_new_def

lemma chain_flags:
  fixes b p :: u32 and len n i :: nat
  defines "d \<equiv> chain_descriptor b p len n i"
  shows "get_flag IdmacDes0_layout ''own'' (des0 d)"
    "get_flag IdmacDes0_layout ''fs'' (des0 d) = (i = 0)"
    "get_flag IdmacDes0_layout ''ld'' (des0 d) = (i + 1 = n)"
    "get_flag IdmacDes0_layout ''ch'' (des0 d) = (i + 1 \<noteq> n)"
    "get_flag IdmacDes0_layout ''dic'' (des0 d) = (i + 1 \<noteq> n)"
    "\<not> get_flag IdmacDes0_layout ''er'' (des0 d)"
    "\<not> get_flag IdmacDes0_layout ''ces'' (des0 d)"
    "des2 d = b + of_nat (i * IDMAC_DESCRIPTOR_BUFFER_SIZE)"
    "i + 1 \<noteq> n \<Longrightarrow> des3 d = p + of_nat ((i + 1) * DESCRIPTOR_SIZE)"
  by (simp_all add: d_def chain_defs IdmacDes0_flags bit_with_flag IdmacDes0_pos)

lemma chain_bs1:
  "desc_bs1 (chain_descriptor b p len n i)
     = min (len - i * IDMAC_DESCRIPTOR_BUFFER_SIZE) IDMAC_DESCRIPTOR_BUFFER_SIZE"
proof -
  let ?k = "min (len - i * IDMAC_DESCRIPTOR_BUFFER_SIZE) IDMAC_DESCRIPTOR_BUFFER_SIZE"
  have k: "?k \<le> 4096" by (simp add: IDMAC_DESCRIPTOR_BUFFER_SIZE_def)
  have "get_field IdmacDes1_layout ''bs1'' (des1 (chain_descriptor b p len n i))
      = take_bit 13 (ucast (of_nat ?k :: u16) :: u32)"
    by (simp only: IdmacDes1_fields chain_defs IdmacDescriptor.simps with_field_def IdmacDes1_pos
        option.case prod.case) (simp add: get_put_bits_same)
  moreover have "unat (take_bit 13 (ucast (of_nat ?k :: u16) :: u32)) = ?k"
    using k by (simp add: unsigned_take_bit_eq unat_ucast_up unat_of_nat_less take_bit_nat_eq_self)
  ultimately show ?thesis unfolding desc_bs1_def by simp
qed

lemma chain_memory_nth:
  assumes "i < length ds" "unat base + (length ds - 1) * DESCRIPTOR_SIZE < 2 ^ 32"
  shows "chain_memory base ds (base + of_nat (i * DESCRIPTOR_SIZE)) = Some (ds ! i)"
proof -
  let ?a = "\<lambda>i. base + of_nat (i * DESCRIPTOR_SIZE) :: u32"
  have inj: "inj_on ?a {0..<length ds}"
  proof (rule inj_onI)
    fix x y assume xy: "x \<in> {0..<length ds}" "y \<in> {0..<length ds}" "?a x = ?a y"
    have "unat (of_nat (z * DESCRIPTOR_SIZE) :: u32) = z * DESCRIPTOR_SIZE" if "z < length ds" for z
      using that assms(2) by (intro unat_of_nat_less) (simp add: DESCRIPTOR_SIZE_def)
    with xy show "x = y" by (metis add_left_cancel atLeastLessThan_iff DESCRIPTOR_SIZE_def mult_cancel2 zero_neq_numeral)
  qed
  have "distinct (map ?a [0..<length ds])" using inj by (simp add: distinct_map)
  then show ?thesis unfolding chain_memory_def using assms(1)
    by (intro map_of_is_SomeI) (auto simp: in_set_zip intro!: exI[of _ i])
qed

definition chain_segment where
  "chain_segment b len i = (b + of_nat (i * IDMAC_DESCRIPTOR_BUFFER_SIZE) :: u32,
      min (len - i * IDMAC_DESCRIPTOR_BUFFER_SIZE) IDMAC_DESCRIPTOR_BUFFER_SIZE)"

lemma walk_from:
  assumes "i < n" "unat p + (n - 1) * DESCRIPTOR_SIZE < 2 ^ 32" "n - i \<le> fuel"
  shows "idmac_walk (chain_memory p (build_chain b p len n)) fuel (p + of_nat (i * DESCRIPTOR_SIZE))
     = Some (map (chain_segment b len) [i..<n])"
  using assms
proof (induction fuel arbitrary: i)
  case 0
  then show ?case by simp
next
  case (Suc fuel)
  have m: "chain_memory p (build_chain b p len n) (p + of_nat (i * DESCRIPTOR_SIZE))
      = Some (chain_descriptor b p len n i)"
    using chain_memory_nth [of i "build_chain b p len n" p] Suc.prems by (simp add: build_chain_def)
  show ?case
  proof (cases "i + 1 = n")
    case True
    with m show ?thesis by (simp add: chain_flags chain_bs1 chain_segment_def upt_rec)
  next
    case False
    with Suc.prems have "i + 1 < n" by simp
    then have "idmac_walk (chain_memory p (build_chain b p len n)) fuel (p + of_nat ((i + 1) * DESCRIPTOR_SIZE))
      = Some (map (chain_segment b len) [i + 1..<n])"
      using Suc.prems by (intro Suc.IH) auto
    with m False Suc.prems(1) show ?thesis 
      by (simp add: chain_flags chain_bs1 chain_segment_def upt_conv_Cons del: of_nat_mult of_nat_add)
  qed
qed

lemma segments_cover:
  assumes "unat b + len \<le> 2 ^ 32" "(n - 1) * IDMAC_DESCRIPTOR_BUFFER_SIZE < len" "0 < n" 
  shows "concat (map (\<lambda>i. segment_bytes (chain_segment b len i)) [0..<n]) = 
     [unat b ..< unat b + min len (n * IDMAC_DESCRIPTOR_BUFFER_SIZE)]"
  using assms
proof (induction n)
  case 0 then show ?case by simp
next
  case (Suc n)
  let ?B = "IDMAC_DESCRIPTOR_BUFFER_SIZE"
  have nl: "n * ?B < len" using Suc.prems by simp
  have a: "unat (b + of_nat (n * ?B) :: u32) = unat b + n * ?B"
    using nl Suc.prems(1) by (subst unat_add_less) (simp_all add: unat_of_nat_less del: of_nat_mult)
  have seg: "segment_bytes (chain_segment b len n) 
    = [unat b + n * ?B ..< unat b + min len (Suc n * ?B)]"
  proof -
    have "map (\<lambda>i. (unat b + n * ?B) + i) [0..<min (len - n * ?B) ?B]
      = [unat b + n * ?B ..< unat b + n * ?B + min (len - n * ?B) ?B]"
      using map_add_upt [of "unat b + n * ?B" "min (len - n * ?B) ?B"] by (simp add: add.commute)
    moreover have "unat b + n * ?B + min (len - n * ?B) ?B = unat b + min len (Suc n * ?B)"
      using nl unfolding mult_Suc by linarith
    ultimately show ?thesis by (simp add: segment_bytes_def chain_segment_def a del: of_nat_mult)
  qed
  show ?case
  proof (cases "n = 0")
    case True then show ?thesis using seg by simp
  next
    case False
    then have "(n - 1) * ?B < len" using nl by (metis diff_le_self le_less_trans mult_le_mono1)
    with False Suc have "concat (map (\<lambda>i. segment_bytes (chain_segment b len i)) [0..<n]) 
      = [unat b ..< unat b + min len (n * ?B)]" by simp
    moreover have "min len (n * ?B) = n * ?B" using nl by simp
    ultimately show ?thesis using seg nl
      upt_append [of "unat b" "unat b + n * ?B" "unat b + min len (Suc n * ?B)"] by simp
  qed
qed

lemma chain_walk:
  assumes "0 < len"
    and "unat phy + (div_ceil len IDMAC_DESCRIPTOR_BUFFER_SIZE - 1) * DESCRIPTOR_SIZE < 2 ^ 32"
  shows "idmac_walk
       (chain_memory phy (build_chain bus phy len (div_ceil len IDMAC_DESCRIPTOR_BUFFER_SIZE)))
       (div_ceil len IDMAC_DESCRIPTOR_BUFFER_SIZE) phy
     = Some (map (chain_segment bus len) [0..<div_ceil len IDMAC_DESCRIPTOR_BUFFER_SIZE])"
  using walk_from [of 0 "div_ceil len IDMAC_DESCRIPTOR_BUFFER_SIZE" phy _ bus len] assms
    div_ceil_bounds [of IDMAC_DESCRIPTOR_BUFFER_SIZE len]
  by (simp add: IDMAC_DESCRIPTOR_BUFFER_SIZE_def)

lemma chain_bytes:
  assumes "0 < len" "unat bus + (len - 1) < 2 ^ 32"
  shows "concat (map segment_bytes
       (map (chain_segment bus len) [0..<div_ceil len IDMAC_DESCRIPTOR_BUFFER_SIZE]))
     = [unat bus..<unat bus + len]"
proof -
  let ?B = IDMAC_DESCRIPTOR_BUFFER_SIZE and ?n = "div_ceil len IDMAC_DESCRIPTOR_BUFFER_SIZE"
  have "(?n - 1) * ?B < len" "len \<le> ?n * ?B" "0 < ?n" "unat bus + len \<le> 2 ^ 32"
    using div_ceil_bounds [of ?B len] assms by (simp_all add: IDMAC_DESCRIPTOR_BUFFER_SIZE_def)
  with segments_cover [of bus len ?n] show ?thesis by (simp add: min_absorb1 comp_def)
qed

lemma chain_segment_size:
  assumes "0 < len" "i < div_ceil len IDMAC_DESCRIPTOR_BUFFER_SIZE"
  shows "0 < snd (chain_segment bus len i) \<and> snd (chain_segment bus len i) \<le> IDMAC_DESCRIPTOR_BUFFER_SIZE"
proof -
  let ?B = IDMAC_DESCRIPTOR_BUFFER_SIZE and ?n = "div_ceil len IDMAC_DESCRIPTOR_BUFFER_SIZE"
  have "i * ?B \<le> (?n - 1) * ?B" using assms(2) by (intro mult_le_mono1) simp
  moreover have "(?n - 1) * ?B < len"
    using div_ceil_bounds [of ?B len] assms(1) by (simp add: IDMAC_DESCRIPTOR_BUFFER_SIZE_def)
  ultimately have "i * ?B < len" by linarith
  then show ?thesis by (simp add: chain_segment_def IDMAC_DESCRIPTOR_BUFFER_SIZE_def)
qed

section \<open>Properties\<close>

text \<open>
  C22: the descriptor chain written for a transfer is a complete and exact map of the
  DMA buffer.  Starting at the base address and following the next pointers, the
  engine finds only descriptors it owns, ends at the one flagged last, and the
  segments it collects are exactly the buffer's bytes in order, each segment
  non-empty and within the 13-bit size field.  The hypotheses are the checks
  \<open>prepare_idmac_transfer\<close> makes before it writes the chain.
\<close>

theorem idmac_chain_covers_buffer:
  assumes "0 < len" "unat bus + (len - 1) < 2 ^ 32"
    and "unat phy + (div_ceil len IDMAC_DESCRIPTOR_BUFFER_SIZE - 1) * DESCRIPTOR_SIZE < 2 ^ 32"
  shows "\<exists>segs. idmac_walk
       (chain_memory phy (build_chain bus phy len (div_ceil len IDMAC_DESCRIPTOR_BUFFER_SIZE)))
       (div_ceil len IDMAC_DESCRIPTOR_BUFFER_SIZE) phy = Some segs \<and>
     concat (map segment_bytes segs) = [unat bus..<unat bus + len] \<and>
     (\<forall>s \<in> set segs. 0 < snd s \<and> snd s \<le> IDMAC_DESCRIPTOR_BUFFER_SIZE)"
proof (intro exI conjI ballI)
  fix s
  assume "s \<in> set (map (chain_segment bus len) [0..<div_ceil len IDMAC_DESCRIPTOR_BUFFER_SIZE])"
  then obtain i where "i < div_ceil len IDMAC_DESCRIPTOR_BUFFER_SIZE" "s = chain_segment bus len i"
    by auto
  with chain_segment_size [OF assms(1)] show "0 < snd s" "snd s \<le> IDMAC_DESCRIPTOR_BUFFER_SIZE"
    by blast+
qed (rule chain_walk [OF assms(1,3)] chain_bytes [OF assms(1,2)])+

theorem idmac_chain_covers_buffer_witness:
  "\<exists>segs. idmac_walk
       (chain_memory 0x1000 (build_chain 0x80000000 0x1000 16384
          (div_ceil 16384 IDMAC_DESCRIPTOR_BUFFER_SIZE)))
       (div_ceil 16384 IDMAC_DESCRIPTOR_BUFFER_SIZE) 0x1000 = Some segs \<and>
     concat (map segment_bytes segs)
       = [unat (0x80000000 :: u32)..<unat (0x80000000 :: u32) + 16384]"
proof -
  have "(0::nat) < 16384" "unat (0x80000000 :: u32) + (16384 - 1) < 2 ^ 32"
    "unat (0x1000 :: u32) + (div_ceil 16384 IDMAC_DESCRIPTOR_BUFFER_SIZE - 1) * DESCRIPTOR_SIZE
      < 2 ^ 32"
    by (simp_all add: div_ceil_def IDMAC_DESCRIPTOR_BUFFER_SIZE_def DESCRIPTOR_SIZE_def)
  from idmac_chain_covers_buffer [OF this] show ?thesis by blast
qed

end
