(* ===== verification/Sd_World.thy ===== *)
theory Sd_World
  imports Sd_Regs Sd_Card Sd_Dma_Desc
begin

text \<open>
  The state the driver runs in.  What lies outside the driver (the controller behind
  the registers, the card, the clocks, the coherent allocator, the memory the DMA
  engine shares) is a parameter, the record \<open>env\<close>: it answers every access from the
  whole history of accesses made so far, so any device behaviour is one value of
  \<open>env\<close>.  The history is kept in the \<open>world\<close>, newest event first, next to the
  fields of \<open>struct SdMmc\<close> and the driver's atomic statics
  (\<open>simple-sdmmc-extended/src/sdmmc.rs\<close>).

  The completion interrupt may run before any register access or atomic access of
  the driver: \<open>preempt\<close> runs \<open>dma_irq_handler\<close> as often as the environment asks.
  The handler itself runs to completion, as it does on the hart that takes the
  interrupt.  Register reads that only feed log messages are left out.
\<close>

section \<open>Driver data\<close>

record DMAInfo =
  cpu_addr :: u64
  bus_addr :: u64
  page_allocated :: bool

record DMABuffer =
  buf_info :: DMAInfo
  buf_size :: nat

text \<open>\<open>core::alloc::Layout\<close>: size and alignment.\<close>

type_synonym mem_layout = "nat \<times> nat"

definition is_power_of_two :: "nat \<Rightarrow> bool" where
  "is_power_of_two n \<longleftrightarrow> n \<in> set (map (\<lambda>k. 2 ^ k) [0..<64])"

definition Layout_from_size_align :: "nat \<Rightarrow> nat \<Rightarrow> mem_layout option" where
  "Layout_from_size_align sz align =
     (if is_power_of_two align \<and> sz + align \<le> 2 ^ 63 then Some (sz, align) else None)"

datatype AHBDataWidth = Bits16 | Bits32 | Bits64

fun align_value :: "AHBDataWidth \<Rightarrow> nat" where
  "align_value Bits16 = 2"
| "align_value Bits32 = 4"
| "align_value Bits64 = 8"

datatype SdMmcError =
    InitializationFailed | UnsupportedCard | CardStatus R1CardStatus
  | AppCommandRejected R1CardStatus | InvalidParameter | OutOfRange | DmaUnavailable
  | DmaAllocation | DmaAddress | DriverFaulted | CommandBusy | DataBusy
  | DescriptorPublication | CommandStartTimeout | CommandTimeout | DataTimeout | Hardware
  | TerminalValidation | RecoveryFailed | CardBusyTimeout

record SdMmc =
  num_blocks :: u64
  rca :: u16
  ocr_ccs :: bool
  ahb_data_width :: AHBDataWidth
  dma_buffer :: "DMABuffer option"
  idmac_faulted :: bool
  idmac_reset_failed :: bool

section \<open>Statics\<close>

record IdmacCompletion =
  generation :: u64
  snapshot_generation :: u64
  rintsts_bits :: u32
  idsts_bits :: u32

definition IdmacCompletion_new :: IdmacCompletion where
  "IdmacCompletion_new =
     \<lparr>generation = 0, snapshot_generation = 0, rintsts_bits = 0, idsts_bits = 0\<rparr>"

record sd_statics =
  IDMAC_DONE_FLAG :: bool
  IDMAC_ERROR_FLAG :: bool
  SDMMC_REGS_BASE :: u64
  IDMAC_COMPLETION :: IdmacCompletion
  ASYNC_WRITE_BUSY_SEQUENCE :: u64

section \<open>Events, environment, world\<close>

type_synonym response = "u32 \<times> u32 \<times> u32 \<times> u32"

datatype event =
    EvRead reg u32
  | EvWrite reg u32
  | EvResp response
  | EvFifoRead u64
  | EvFifoWrite u64
  | EvTime nat
  | EvWall nat
  | EvAtomic
  | EvFence
  | EvAlloc mem_layout "DMAInfo option"
  | EvDealloc DMAInfo mem_layout
  | EvDescWrite DMAInfo nat IdmacDescriptor
  | EvDescRead DMAInfo nat u32
  | EvBufWrite DMAInfo "u8 list"
  | EvBufRead DMAInfo "u8 list"
  | EvRegisterIrq bool
  | EvNotify
  | EvYield
  | EvDelay nat

type_synonym history = "event list"

record env =
  reg_val :: "history \<Rightarrow> reg \<Rightarrow> u32"
  resp_val :: "history \<Rightarrow> response"
  fifo_val :: "history \<Rightarrow> u64"
  time_val :: "history \<Rightarrow> nat"
  wall_val :: "history \<Rightarrow> nat"
  alloc_val :: "history \<Rightarrow> mem_layout \<Rightarrow> DMAInfo option"
  des0_val :: "history \<Rightarrow> DMAInfo \<Rightarrow> nat \<Rightarrow> u32"
  buf_val :: "history \<Rightarrow> DMAInfo \<Rightarrow> nat \<Rightarrow> u8"
  register_irq_val :: "history \<Rightarrow> bool"
  irq_count :: "history \<Rightarrow> nat"
  cancel_val :: "history \<Rightarrow> bool"

record world =
  sd :: SdMmc
  statics :: sd_statics
  hist :: history

definition log_ev :: "event \<Rightarrow> world \<Rightarrow> world" where
  "log_ev e w = w\<lparr>hist := e # hist w\<rparr>"

definition raw_read :: "env \<Rightarrow> reg \<Rightarrow> world \<Rightarrow> u32 \<times> world" where
  "raw_read E r w = (let v = reg_val E (hist w) r in (v, log_ev (EvRead r v) w))"

definition raw_write :: "reg \<Rightarrow> u32 \<Rightarrow> world \<Rightarrow> world" where
  "raw_write r v w = log_ev (EvWrite r v) w"

definition upd_completion :: "(IdmacCompletion \<Rightarrow> IdmacCompletion) \<Rightarrow> world \<Rightarrow> world" where
  "upd_completion f w =
     w\<lparr>statics := (statics w)\<lparr>IDMAC_COMPLETION := f (IDMAC_COMPLETION (statics w))\<rparr>\<rparr>"

abbreviation completion :: "world \<Rightarrow> IdmacCompletion" where
  "completion w \<equiv> IDMAC_COMPLETION (statics w)"

section \<open>The interrupt handler\<close>

definition record_irq :: "u32 \<Rightarrow> u32 \<Rightarrow> world \<Rightarrow> world" where
  "record_irq rintsts idsts w =
     (let g = generation (completion w) in
      if g = 0 then w
      else upd_completion (\<lambda>c. c\<lparr>rintsts_bits := rintsts_bits c OR rintsts,
                               idsts_bits := idsts_bits c OR idsts,
                               snapshot_generation := g\<rparr>) w)"

definition idsts_any :: "u32 \<Rightarrow> bool" where
  "idsts_any s \<longleftrightarrow>
     get_flag IdSts_layout ''ais'' s \<or> get_flag IdSts_layout ''nis'' s
     \<or> get_flag IdSts_layout ''ces'' s \<or> get_flag IdSts_layout ''du'' s
     \<or> get_flag IdSts_layout ''fbe'' s \<or> get_flag IdSts_layout ''ri'' s
     \<or> get_flag IdSts_layout ''ti'' s"

definition irq_error :: "u32 \<Rightarrow> u32 \<Rightarrow> bool" where
  "irq_error rintsts idsts \<longleftrightarrow>
     get_flag IdSts_layout ''ais'' idsts \<or> get_flag IdSts_layout ''ces'' idsts
     \<or> get_flag IdSts_layout ''du'' idsts \<or> get_flag IdSts_layout ''fbe'' idsts
     \<or> RIntSts_error rintsts"

definition irq_transfer_event :: "u32 \<Rightarrow> u32 \<Rightarrow> bool" where
  "irq_transfer_event rintsts idsts \<longleftrightarrow>
     (get_flag IdSts_layout ''ri'' idsts \<or> get_flag IdSts_layout ''ti'' idsts
      \<or> get_flag RIntSts_layout ''data_transfer_over'' rintsts)
     \<or> get_flag RIntSts_layout ''auto_command_done'' rintsts"

definition irq_clear_fields :: "string list" where
  "irq_clear_fields =
     [''end_bit_error'', ''auto_command_done'', ''start_bit_error'', ''hardware_locked_write'',
      ''fifo_under_over_run'', ''host_timeout'', ''data_read_timeout'', ''response_timeout'',
      ''data_crc_error'', ''response_crc_error'', ''response_error'', ''data_transfer_over'',
      ''receive_fifo_data_request'', ''transmit_fifo_data_request'']"

definition irq_clear_rintsts :: "u32 \<Rightarrow> u32" where
  "irq_clear_rintsts rintsts =
     foldl (\<lambda>c f. with_flag RIntSts_layout f (get_flag RIntSts_layout f rintsts) c) 0
       irq_clear_fields"

definition dma_irq_handler :: "env \<Rightarrow> world \<Rightarrow> world" where
  "dma_irq_handler E w =
     (if SDMMC_REGS_BASE (statics w) = 0 then w
      else
        let (rintsts, w) = raw_read E RINTSTS w;
            (idsts, w) = raw_read E IDSTS w;
            idmac_error = irq_error rintsts idsts;
            transfer_event = irq_transfer_event rintsts idsts;
            should_notify = (transfer_event \<or> idmac_error);
            w = (if idmac_error
                 then w\<lparr>statics := (statics w)\<lparr>IDMAC_ERROR_FLAG := True\<rparr>\<rparr> else w);
            w = (if idsts_any idsts then raw_write IDSTS idsts w else w);
            w = (if transfer_event \<or> idmac_error
                    \<or> get_flag RIntSts_layout ''receive_fifo_data_request'' rintsts
                    \<or> get_flag RIntSts_layout ''transmit_fifo_data_request'' rintsts
                 then raw_write RINTSTS (irq_clear_rintsts rintsts) w else w);
            w = log_ev EvFence w;
            w = record_irq rintsts idsts w
        in if should_notify
           then log_ev EvNotify (w\<lparr>statics := (statics w)\<lparr>IDMAC_DONE_FLAG := True\<rparr>\<rparr>)
           else w)"

definition preempt :: "env \<Rightarrow> world \<Rightarrow> world" where
  "preempt E w = (dma_irq_handler E ^^ irq_count E (hist w)) w"

section \<open>Accesses of the driver thread\<close>

definition reg_read :: "env \<Rightarrow> reg \<Rightarrow> world \<Rightarrow> u32 \<times> world" where
  "reg_read E r w = raw_read E r (preempt E w)"

definition reg_write :: "env \<Rightarrow> reg \<Rightarrow> u32 \<Rightarrow> world \<Rightarrow> world" where
  "reg_write E r v w = raw_write r v (preempt E w)"

definition reg_update :: "env \<Rightarrow> reg \<Rightarrow> (u32 \<Rightarrow> u32) \<Rightarrow> world \<Rightarrow> world" where
  "reg_update E r f w = (let (v, w) = reg_read E r w in reg_write E r (f v) w)"

definition resp_read :: "env \<Rightarrow> world \<Rightarrow> response \<times> world" where
  "resp_read E w =
     (let w = preempt E w; v = resp_val E (hist w) in (v, log_ev (EvResp v) w))"

definition fifo_read :: "env \<Rightarrow> world \<Rightarrow> u64 \<times> world" where
  "fifo_read E w =
     (let w = preempt E w; v = fifo_val E (hist w) in (v, log_ev (EvFifoRead v) w))"

definition fifo_write :: "env \<Rightarrow> u64 \<Rightarrow> world \<Rightarrow> world" where
  "fifo_write E v w = log_ev (EvFifoWrite v) (preempt E w)"

definition monotonic_time :: "env \<Rightarrow> world \<Rightarrow> nat \<times> world" where
  "monotonic_time E w =
     (let w = preempt E w; t = time_val E (hist w) in (t, log_ev (EvTime t) w))"

definition wall_time :: "env \<Rightarrow> world \<Rightarrow> nat \<times> world" where
  "wall_time E w =
     (let w = preempt E w; t = wall_val E (hist w) in (t, log_ev (EvWall t) w))"

definition atomic :: "env \<Rightarrow> world \<Rightarrow> world" where
  "atomic E w = log_ev EvAtomic (preempt E w)"

definition dma_io_fence :: "world \<Rightarrow> world" where
  "dma_io_fence w = log_ev EvFence w"

definition alloc_coherent :: "env \<Rightarrow> mem_layout \<Rightarrow> world \<Rightarrow> DMAInfo option \<times> world" where
  "alloc_coherent E l w = (let a = alloc_val E (hist w) l in (a, log_ev (EvAlloc l a) w))"

definition dealloc_coherent :: "DMAInfo \<Rightarrow> mem_layout \<Rightarrow> world \<Rightarrow> world" where
  "dealloc_coherent i l w = log_ev (EvDealloc i l) w"

section \<open>The completion snapshot\<close>

definition begin_transfer :: "env \<Rightarrow> world \<Rightarrow> u64 \<times> world" where
  "begin_transfer E w =
     (let w = upd_completion (\<lambda>c. c\<lparr>snapshot_generation := 0\<rparr>) (atomic E w);
          w = upd_completion (\<lambda>c. c\<lparr>rintsts_bits := 0\<rparr>) (atomic E w);
          w = upd_completion (\<lambda>c. c\<lparr>idsts_bits := 0\<rparr>) (atomic E w);
          w = upd_completion (\<lambda>c. c\<lparr>generation := generation c + 1\<rparr>) (atomic E w)
      in (generation (completion w), w))"

definition snapshot_bits :: "env \<Rightarrow> u64 \<Rightarrow> world \<Rightarrow> (u32 \<times> u32) option \<times> world" where
  "snapshot_bits E g w =
     (let w = atomic E w in
      if snapshot_generation (completion w) \<noteq> g then (None, w)
      else
        let w = atomic E w; r = rintsts_bits (completion w);
            w = atomic E w; i = idsts_bits (completion w);
            w = atomic E w
        in if snapshot_generation (completion w) = g then (Some (r, i), w) else (None, w))"

section \<open>Polling loops\<close>

text \<open>
  \<open>poll_deadline cond deadline\<close> is the loop
  \<open>while !cond() { if monotonic_time() >= deadline { timed out } spin_loop() }\<close>;
  \<open>True\<close> says that it timed out.  \<open>wait_until\<close> is the driver's helper of that name,
  a loop without a deadline over a closure that owns the state \<open>'s\<close>.
\<close>

partial_function (option) poll_deadline ::
  "env \<Rightarrow> (world \<Rightarrow> bool \<times> world) \<Rightarrow> nat \<Rightarrow> world \<Rightarrow> (bool \<times> world) option" where
  "poll_deadline E cond deadline w =
     (case cond w of (ok, w1) \<Rightarrow>
        if ok then Some (False, w1)
        else (case monotonic_time E w1 of (t, w2) \<Rightarrow>
          if deadline \<le> t then Some (True, w2) else poll_deadline E cond deadline w2))"

partial_function (option) wait_until ::
  "('s \<Rightarrow> world \<Rightarrow> bool \<times> 's \<times> world) \<Rightarrow> 's \<Rightarrow> world \<Rightarrow> ('s \<times> world) option" where
  "wait_until f s w =
     (case f s w of (ok, s1, w1) \<Rightarrow> if ok then Some (s1, w1) else wait_until f s1 w1)"

section \<open>Frame properties\<close>

text \<open>
  Events without an effect on the card, on memory or on the driver's configuration of
  the controller: reads, fences, acknowledgements of status bits, suspension.  The
  \<open>trace\<close> of a world is what remains of its history without them.
\<close>

definition quiet_ev :: "event \<Rightarrow> bool" where
  "quiet_ev e =
     (case e of
        EvWrite r _ \<Rightarrow> r = RINTSTS \<or> r = IDSTS
      | EvFifoRead _ \<Rightarrow> False | EvFifoWrite _ \<Rightarrow> False
      | EvAlloc _ _ \<Rightarrow> False | EvDealloc _ _ \<Rightarrow> False
      | EvDescWrite _ _ _ \<Rightarrow> False | EvBufWrite _ _ \<Rightarrow> False | EvBufRead _ _ \<Rightarrow> False
      | EvRegisterIrq _ \<Rightarrow> False
      | _ \<Rightarrow> True)"

definition trace :: "world \<Rightarrow> event list" where
  "trace w = filter (\<lambda>e. \<not> quiet_ev e) (hist w)"

definition quiet :: "world \<Rightarrow> world \<Rightarrow> bool" where
  "quiet w w' \<longleftrightarrow>
     sd w' = sd w \<and> generation (completion w') = generation (completion w)
     \<and> SDMMC_REGS_BASE (statics w') = SDMMC_REGS_BASE (statics w)
     \<and> (\<exists>es. hist w' = es @ hist w \<and> list_all quiet_ev es)"

lemma quiet_ev_simps [simp]:
  "quiet_ev (EvRead r v)" "quiet_ev (EvWrite r v) \<longleftrightarrow> r = RINTSTS \<or> r = IDSTS"
  "quiet_ev (EvResp x)" "quiet_ev (EvTime t)" "quiet_ev (EvWall t)" "quiet_ev EvAtomic"
  "quiet_ev EvFence" "quiet_ev (EvDescRead i n v)" "quiet_ev EvNotify" "quiet_ev EvYield"
  "quiet_ev (EvDelay t)" "\<not> quiet_ev (EvFifoRead d)" "\<not> quiet_ev (EvFifoWrite d)"
  "\<not> quiet_ev (EvAlloc l a)" "\<not> quiet_ev (EvDealloc i l)" "\<not> quiet_ev (EvDescWrite i n ds)"
  "\<not> quiet_ev (EvBufWrite i bs)" "\<not> quiet_ev (EvBufRead i bs)" "\<not> quiet_ev (EvRegisterIrq b)"
  by (simp_all add: quiet_ev_def)

lemma log_ev_simps [simp]:
  "sd (log_ev e w) = sd w" "statics (log_ev e w) = statics w" "hist (log_ev e w) = e # hist w"
  "trace (log_ev e w) = (if quiet_ev e then trace w else e # trace w)"
  by (simp_all add: log_ev_def trace_def)

lemma trace_upd [simp]:
  "trace (w\<lparr>sd := s\<rparr>) = trace w" "trace (w\<lparr>statics := st\<rparr>) = trace w"
  by (simp_all add: trace_def)

lemma upd_completion_simps [simp]:
  "sd (upd_completion f w) = sd w" "hist (upd_completion f w) = hist w"
  "trace (upd_completion f w) = trace w"
  "SDMMC_REGS_BASE (statics (upd_completion f w)) = SDMMC_REGS_BASE (statics w)"
  "IDMAC_ERROR_FLAG (statics (upd_completion f w)) = IDMAC_ERROR_FLAG (statics w)"
  "completion (upd_completion f w) = f (completion w)"
  by (simp_all add: upd_completion_def trace_def)

lemma quiet_refl [simp, intro]: "quiet w w"
  by (simp add: quiet_def)

lemma quiet_trans [trans]: "quiet w1 w2 \<Longrightarrow> quiet w2 w3 \<Longrightarrow> quiet w1 w3"
  by (auto simp: quiet_def)

lemma quiet_sd: "quiet w w' \<Longrightarrow> sd w' = sd w"
  by (simp add: quiet_def)

lemma quiet_trace: "quiet w w' \<Longrightarrow> trace w' = trace w"
  by (auto simp: quiet_def trace_def list_all_iff)

lemma quiet_generation: "quiet w w' \<Longrightarrow> generation (completion w') = generation (completion w)"
  by (simp add: quiet_def)

lemma quietD:
  "quiet w w' \<Longrightarrow> sd w' = sd w \<and> trace w' = trace w
     \<and> generation (completion w') = generation (completion w)"
  by (simp add: quiet_sd quiet_trace quiet_generation)

lemma quiet_length: "quiet w w' \<Longrightarrow> length (hist w) \<le> length (hist w')"
  by (auto simp: quiet_def)

lemma quiet_log_ev: "quiet_ev e \<Longrightarrow> quiet w (log_ev e w)"
  by (simp add: quiet_def)

lemma quiet_log_evI: "quiet w w' \<Longrightarrow> quiet_ev e \<Longrightarrow> quiet w (log_ev e w')"
  using quiet_trans quiet_log_ev by blast

lemma quiet_upd:
  "quiet w w' \<Longrightarrow> statics w' = st \<Longrightarrow> quiet w (w'\<lparr>statics := st\<lparr>IDMAC_ERROR_FLAG := b\<rparr>\<rparr>)"
  "quiet w w' \<Longrightarrow> statics w' = st \<Longrightarrow> quiet w (w'\<lparr>statics := st\<lparr>IDMAC_DONE_FLAG := b\<rparr>\<rparr>)"
  "quiet w w' \<Longrightarrow> statics w' = st \<Longrightarrow>
     quiet w (w'\<lparr>statics := st\<lparr>ASYNC_WRITE_BUSY_SEQUENCE := n\<rparr>\<rparr>)"
  by (auto simp: quiet_def)

lemma quiet_record_irq: "quiet w w' \<Longrightarrow> quiet w (record_irq r i w')"
  by (auto simp: record_irq_def quiet_def Let_def)

lemma quiet_irq: "quiet w (dma_irq_handler E w)"
  unfolding dma_irq_handler_def raw_read_def raw_write_def Let_def
  by (auto intro!: quiet_log_evI quiet_upd quiet_record_irq split del: if_split
      split: if_split)

lemma quiet_preempt: "quiet w (preempt E w)"
proof -
  have "quiet w ((dma_irq_handler E ^^ n) w)" for n
    by (induction n) (auto intro: quiet_trans quiet_irq)
  then show ?thesis by (simp add: preempt_def)
qed

lemma quiet_preemptI: "quiet w w' \<Longrightarrow> quiet w (preempt E w')"
  using quiet_trans quiet_preempt by blast

lemmas frame_preempt [simp] =
  quiet_sd [OF quiet_preempt] quiet_trace [OF quiet_preempt] quiet_generation [OF quiet_preempt]

text \<open>Each access as a quiet step, or with the single event it adds to the trace.\<close>

lemma reg_read_quiet: "reg_read E r w = (v, w') \<Longrightarrow> quiet w w'"
  by (auto simp: reg_read_def raw_read_def Let_def intro!: quiet_log_evI quiet_preempt)

lemma resp_read_quiet: "resp_read E w = (v, w') \<Longrightarrow> quiet w w'"
  by (auto simp: resp_read_def Let_def intro!: quiet_log_evI quiet_preempt)

lemma time_quiet: "monotonic_time E w = (t, w') \<Longrightarrow> quiet w w'"
  by (auto simp: monotonic_time_def Let_def intro!: quiet_log_evI quiet_preempt)

lemma wall_quiet: "wall_time E w = (t, w') \<Longrightarrow> quiet w w'"
  by (auto simp: wall_time_def Let_def intro!: quiet_log_evI quiet_preempt)

lemma atomic_quiet: "quiet w w' \<Longrightarrow> quiet w (atomic E w')"
  by (simp add: atomic_def quiet_log_evI quiet_preemptI)

lemma fence_quiet: "quiet w w' \<Longrightarrow> quiet w (dma_io_fence w')"
  by (simp add: dma_io_fence_def quiet_log_evI)

lemma status_write_quiet: "r = RINTSTS \<or> r = IDSTS \<Longrightarrow> quiet w w' \<Longrightarrow> quiet w (reg_write E r v w')"
  by (auto simp: reg_write_def raw_write_def intro!: quiet_log_evI quiet_preemptI)

lemma write_simps [simp]:
  "sd (reg_write E r v w) = sd w"
  "trace (reg_write E r v w) =
     (if r = RINTSTS \<or> r = IDSTS then trace w else EvWrite r v # trace w)"
  "generation (completion (reg_write E r v w)) = generation (completion w)"
  "sd (dma_io_fence w) = sd w" "trace (dma_io_fence w) = trace w"
  "completion (dma_io_fence w) = completion w"
  "sd (atomic E w) = sd w" "trace (atomic E w) = trace w"
  "generation (completion (atomic E w)) = generation (completion w)"
  "sd (dealloc_coherent i l w) = sd w" "trace (dealloc_coherent i l w) = EvDealloc i l # trace w"
  by (simp_all add: reg_write_def raw_write_def dma_io_fence_def atomic_def dealloc_coherent_def)

lemma reg_update_frame [simp]:
  "sd (reg_update E r f w) = sd w"
  "r \<noteq> RINTSTS \<Longrightarrow> r \<noteq> IDSTS \<Longrightarrow> \<exists>v. trace (reg_update E r f w) = EvWrite r v # trace w"
  by (auto simp: reg_update_def split: prod.splits
      dest!: reg_read_quiet dest: quiet_sd quiet_trace)

lemma alloc_trace:
  "alloc_coherent E l w = (a, w') \<Longrightarrow> sd w' = sd w \<and> trace w' = EvAlloc l a # trace w"
  by (auto simp: alloc_coherent_def Let_def)

lemma begin_transfer_frame:
  "begin_transfer E w = (g, w') \<Longrightarrow>
     sd w' = sd w \<and> trace w' = trace w \<and> generation (completion w') = g
     \<and> g = generation (completion w) + 1"
  by (auto simp: begin_transfer_def Let_def)

lemma snapshot_quiet: "snapshot_bits E g w = (s, w') \<Longrightarrow> quiet w w'"
  by (auto simp: snapshot_bits_def Let_def intro!: atomic_quiet split: if_splits)

text \<open>
  The contract of a polled condition: evaluating it is quiet.  A polling loop over such
  a condition is quiet itself, ends without a timeout only if the condition held, and
  ends at all once the clock reaches the deadline.
\<close>

definition clock_progress :: "env \<Rightarrow> bool" where
  "clock_progress E \<longleftrightarrow> (\<forall>d. \<exists>n. \<forall>h. n \<le> length h \<longrightarrow> d \<le> time_val E h)"

locale polled =
  fixes E :: env and cond :: "world \<Rightarrow> bool \<times> world"
  assumes cond_quiet: "cond w = (b, w') \<Longrightarrow> quiet w w'"
begin

lemma poll_result:
  assumes "poll_deadline E cond d w = Some y"
  shows "quiet w (snd y) \<and> (\<not> fst y \<longrightarrow> (\<exists>w0. quiet w w0 \<and> cond w0 = (True, snd y)))"
proof -
  have "E = E \<longrightarrow> cond = cond \<longrightarrow>
      quiet w (snd y) \<and> (\<not> fst y \<longrightarrow> (\<exists>w0. quiet w w0 \<and> cond w0 = (True, snd y)))"
  proof (rule poll_deadline.raw_induct [OF _ assms, where P = "\<lambda>E' c d w y. E' = E \<longrightarrow> c = cond \<longrightarrow>
      quiet w (snd y) \<and> (\<not> fst y \<longrightarrow> (\<exists>w0. quiet w w0 \<and> cond w0 = (True, snd y)))"],
      intro impI)
    fix f E' c d w y
    assume IH: "\<And>E' c d w y. f E' c d w = Some y \<Longrightarrow> E' = E \<longrightarrow> c = cond \<longrightarrow>
        quiet w (snd y) \<and> (\<not> fst y \<longrightarrow> (\<exists>w0. quiet w w0 \<and> cond w0 = (True, snd y)))"
      and eq: "(case c w of (ok, w1) \<Rightarrow> if ok then Some (False, w1)
                else case monotonic_time E' w1 of (t, w2) \<Rightarrow>
                  if d \<le> t then Some (True, w2) else f E' c d w2) = Some y"
      and [simp]: "E' = E" "c = cond"
    obtain b w1 where c: "cond w = (b, w1)" by fastforce
    obtain t w2 where t: "monotonic_time E w1 = (t, w2)" by fastforce
    from c t have "quiet w w1" "quiet w w2"
      using cond_quiet time_quiet quiet_trans by blast+
    with eq c t show "quiet w (snd y) \<and> (\<not> fst y \<longrightarrow> (\<exists>w0. quiet w w0 \<and> cond w0 = (True, snd y)))"
      by (auto split: if_splits intro: quiet_trans dest!: IH)
  qed
  then show ?thesis by simp
qed

lemma poll_quiet: "poll_deadline E cond d w = Some (t, w') \<Longrightarrow> quiet w w'"
  using poll_result by fastforce

lemma poll_ok:
  "poll_deadline E cond d w = Some (False, w') \<Longrightarrow> \<exists>w0. quiet w w0 \<and> cond w0 = (True, w')"
  using poll_result by fastforce

lemma poll_returns:
  assumes "clock_progress E"
  shows "poll_deadline E cond d w \<noteq> None"
proof -
  from assms obtain n where n: "n \<le> length h \<Longrightarrow> d \<le> time_val E h" for h
    unfolding clock_progress_def by blast
  show ?thesis
  proof (induction "n - length (hist w)" arbitrary: w rule: less_induct)
    case less
    obtain b w1 where c: "cond w = (b, w1)" by fastforce
    obtain t w2 where t: "monotonic_time E w1 = (t, w2)" by fastforce
    define w0 where "w0 = preempt E w1"
    have t0: "t = time_val E (hist w0)" "length (hist w2) = Suc (length (hist w0))"
      using t by (auto simp: monotonic_time_def w0_def Let_def)
    have "length (hist w) \<le> length (hist w0)"
      using cond_quiet [OF c] quiet_preemptI quiet_length w0_def by blast
    with t0 n have "d \<le> t \<or> n - length (hist w2) < n - length (hist w)"
      by (cases "n \<le> length (hist w0)") auto
    then show ?case
      by (subst poll_deadline.simps) (use c t less in auto)
  qed
qed

end

section \<open>Memory accounting\<close>

text \<open>
  The coherent allocations alive after a trace (newest event first), newest first;
  \<open>None\<close> when the trace frees something that is not alive.
\<close>

fun live :: "event list \<Rightarrow> (DMAInfo \<times> mem_layout) list option" where
  "live [] = Some []"
| "live (EvAlloc l (Some i) # t) = map_option (Cons (i, l)) (live t)"
| "live (EvDealloc i l # t) =
     (case live t of
        None \<Rightarrow> None
      | Some xs \<Rightarrow> if (i, l) \<in> set xs then Some (remove1 (i, l) xs) else None)"
| "live (_ # t) = live t"

definition mem_ev :: "event \<Rightarrow> bool" where
  "mem_ev e =
     (case e of EvAlloc _ (Some _) \<Rightarrow> True | EvDealloc _ _ \<Rightarrow> True | _ \<Rightarrow> False)"

lemma live_neutral: "\<not> mem_ev e \<Longrightarrow> live (e # t) = live t"
  by (cases e) (auto simp: mem_ev_def split: option.splits)

lemma live_append_neutral: "list_all (\<lambda>e. \<not> mem_ev e) es \<Longrightarrow> live (es @ t) = live t"
proof (induction es)
  case (Cons e es)
  then show ?case using live_neutral [of e "es @ t"] by simp
qed simp

lemma mem_ev_simps [simp]:
  "\<not> mem_ev (EvWrite r v)" "\<not> mem_ev (EvAlloc l None)" "mem_ev (EvAlloc l (Some i))"
  "mem_ev (EvDealloc i l)" "\<not> mem_ev (EvDescWrite i n ds)" "\<not> mem_ev (EvBufRead i bs)"
  "\<not> mem_ev (EvBufWrite i bs)" "\<not> mem_ev (EvRegisterIrq b)" "\<not> mem_ev (EvFifoRead d)"
  "\<not> mem_ev (EvFifoWrite d)"
  by (simp_all add: mem_ev_def)

text \<open>An allocation and its release, with no other memory event between, cancel out.\<close>

lemma live_paired:
  assumes "list_all (\<lambda>e. \<not> mem_ev e) es" "live t \<noteq> None"
  shows "live (EvDealloc i l # es @ EvAlloc l (Some i) # t) = live t"
  using assms by (auto simp: live_append_neutral)

text \<open>Steps that keep the driver's state and its allocations.\<close>

definition calm :: "world \<Rightarrow> world \<Rightarrow> bool" where
  "calm w w' \<longleftrightarrow> sd w' = sd w \<and> live (trace w') = live (trace w)"

lemma calm_refl [simp]: "calm w w"
  by (simp add: calm_def)

lemma calm_trans [trans]: "calm w1 w2 \<Longrightarrow> calm w2 w3 \<Longrightarrow> calm w1 w3"
  by (simp add: calm_def)

lemma calm_quiet: "quiet w w' \<Longrightarrow> calm w w'"
  by (simp add: calm_def quiet_sd quiet_trace)

lemma calm_log_ev: "\<not> mem_ev e \<Longrightarrow> calm w (log_ev e w)"
  by (simp add: calm_def live_neutral)

lemma calm_write: "calm w (reg_write E r v w)"
  by (simp add: calm_def)

lemma calmD: "calm w w' \<Longrightarrow> sd w' = sd w \<and> live (trace w') = live (trace w)"
  by (simp add: calm_def)

end
