(* ===== verification/Sd_Driver.thy ===== *)
theory Sd_Driver
  imports Sd_Cmd Sd_World
begin

text \<open>
  The command path of the driver (\<open>impl SdMmc\<close> in
  \<open>simple-sdmmc-extended/src/sdmmc.rs\<close>): status predicates, resets, card clock,
  polled commands with their PIO data phase, and card initialisation.  Every
  function takes the environment and the world and returns its result with the new
  world; a function that polls the hardware returns an option, \<open>None\<close> being a loop
  that never ends.  Durations are nanoseconds.
\<close>

type_synonym 'a step = "('a \<times> world) option"
type_synonym 'a sd_result = "SdMmcError + 'a"

definition millis :: "nat \<Rightarrow> nat" where "millis n = n * 1000000"
definition secs :: "nat \<Rightarrow> nat" where "secs n = n * 1000000000"

definition upd_sd :: "(SdMmc \<Rightarrow> SdMmc) \<Rightarrow> world \<Rightarrow> world" where
  "upd_sd f w = w\<lparr>sd := f (sd w)\<rparr>"

section \<open>Status predicates and register helpers\<close>

definition can_send_cmd :: "env \<Rightarrow> world \<Rightarrow> bool \<times> world" where
  "can_send_cmd E w =
     (let (c, w) = reg_read E CMD w in (\<not> get_flag Cmd_layout ''start_cmd'' c, w))"

definition can_send_data :: "env \<Rightarrow> world \<Rightarrow> bool \<times> world" where
  "can_send_data E w =
     (let (s, w) = reg_read E STATUS w in
      (\<not> get_flag Status_layout ''data_busy'' s
       \<and> \<not> get_flag Status_layout ''data_state_mc_busy'' s, w))"

definition command_finished :: "env \<Rightarrow> world \<Rightarrow> bool \<times> world" where
  "command_finished E w =
     (let (r, w) = reg_read E RINTSTS w in
      (get_flag RIntSts_layout ''command_done'' r \<or> RIntSts_error r, w))"

definition clear_idsts :: "env \<Rightarrow> world \<Rightarrow> world" where
  "clear_idsts E w =
     (let (s, w) = reg_read E IDSTS w in
      if idsts_any s then reg_write E IDSTS s w else w)"

text \<open>The idiom \<open>let r = rintsts().read(); rintsts().write(r)\<close> of a W1C register.\<close>

definition clear_rintsts :: "env \<Rightarrow> world \<Rightarrow> u32 \<times> world" where
  "clear_rintsts E w =
     (let (r, w) = reg_read E RINTSTS w in (r, reg_write E RINTSTS r w))"

definition set_flags :: "layout \<Rightarrow> string list \<Rightarrow> u32 \<Rightarrow> u32" where
  "set_flags L fs x = foldl (\<lambda>c f. with_flag L f True c) x fs"

definition idmac_controller_interrupt_mask :: u32 where
  "idmac_controller_interrupt_mask =
     set_flags IntMask_layout [''ebe'', ''acd'', ''hle'', ''frun'', ''hto'', ''drto'', ''rto'',
       ''dcrc'', ''rcrc'', ''dto'', ''re''] 0"

definition idmac_controller_interrupt_mask_matches :: "u32 \<Rightarrow> bool" where
  "idmac_controller_interrupt_mask_matches m \<longleftrightarrow>
     get_flag IntMask_layout ''ebe'' m \<and> get_flag IntMask_layout ''acd'' m
     \<and> \<not> get_flag IntMask_layout ''sbe'' m
     \<and> get_flag IntMask_layout ''hle'' m \<and> get_flag IntMask_layout ''frun'' m
     \<and> get_flag IntMask_layout ''hto'' m \<and> get_flag IntMask_layout ''drto'' m
     \<and> get_flag IntMask_layout ''rto'' m \<and> get_flag IntMask_layout ''dcrc'' m
     \<and> get_flag IntMask_layout ''rcrc'' m \<and> get_flag IntMask_layout ''dto'' m
     \<and> get_flag IntMask_layout ''re'' m \<and> \<not> get_flag IntMask_layout ''cmd'' m
     \<and> \<not> get_flag IntMask_layout ''rxdr'' m \<and> \<not> get_flag IntMask_layout ''txdr'' m"

definition fifo_cnt :: "env \<Rightarrow> world \<Rightarrow> nat \<times> world" where
  "fifo_cnt E w =
     (let (s, w) = reg_read E STATUS w in (unat (get_field Status_layout ''fifo_count'' s), w))"

definition set_transaction_size :: "env \<Rightarrow> u16 \<Rightarrow> u32 \<Rightarrow> world \<Rightarrow> world" where
  "set_transaction_size E blk_size byte_cnt w =
     reg_write E BYTCNT byte_cnt
       (reg_update E BLKSIZ (with_field BlkSiz_layout ''block_size'' (ucast blk_size)) w)"

section \<open>Stopping the DMA engine\<close>

definition idmac_reset_done :: "env \<Rightarrow> world \<Rightarrow> bool \<times> world" where
  "idmac_reset_done E w =
     (let (bmod, w) = reg_read E BMOD w; (ctrl, w) = reg_read E CTRL w in
      (\<not> get_flag BMod_layout ''swr'' bmod \<and> \<not> get_flag Ctrl_layout ''dma_reset'' ctrl, w))"

definition request_idmac_reset :: "env \<Rightarrow> world \<Rightarrow> world" where
  "request_idmac_reset E w =
     (let w = reg_update E BMOD
                (\<lambda>r. with_flag BMod_layout ''swr'' True (with_flag BMod_layout ''de'' False r)) w
      in reg_update E CTRL
           (\<lambda>r. with_flag Ctrl_layout ''use_internal_dmac'' False
                  (with_flag Ctrl_layout ''dma_reset'' True r)) w)"

definition reset_idmac :: "env \<Rightarrow> world \<Rightarrow> bool step" where
  "reset_idmac E w = do {
     let w = dma_io_fence (request_idmac_reset E w);
     let (t, w) = monotonic_time E w;
     (timed_out, w) \<leftarrow> poll_deadline E (idmac_reset_done E) (t + millis 100) w;
     Some (\<not> timed_out, w)
   }"

definition release_dma_buffer :: "world \<Rightarrow> world" where
  "release_dma_buffer w =
     (case dma_buffer (sd w) of
        None \<Rightarrow> w
      | Some b \<Rightarrow>
          (case Layout_from_size_align (buf_size b) (align_value (ahb_data_width (sd w))) of
             None \<Rightarrow> w
           | Some l \<Rightarrow> dealloc_coherent (buf_info b) l (upd_sd (\<lambda>s. s\<lparr>dma_buffer := None\<rparr>) w)))"

definition disable_idmac_after_enable_failure :: "env \<Rightarrow> world \<Rightarrow> unit step" where
  "disable_idmac_after_enable_failure E w = do {
     let w = reg_write E INTMASK 0 w;
     let w = reg_write E IDINTEN 0 w;
     let w = reg_update E CTRL
               (\<lambda>r. with_flag Ctrl_layout ''use_internal_dmac'' False
                      (with_flag Ctrl_layout ''int_enable'' False r)) w;
     let w = dma_io_fence w;
     (ok, w) \<leftarrow> reset_idmac E w;
     (if \<not> ok
      then Some ((), upd_sd (\<lambda>s. s\<lparr>idmac_faulted := True, idmac_reset_failed := True\<rparr>) w)
      else Some ((), release_dma_buffer w))
   }"

section \<open>Polled commands\<close>

definition validate_r1_response :: "u32 \<Rightarrow> bool \<Rightarrow> unit sd_result" where
  "validate_r1_response raw require_app_cmd =
     (if has_error raw then Inl (CardStatus raw)
      else if require_app_cmd \<and> \<not> r1_app_cmd raw then Inl (AppCommandRejected raw)
      else Inr ())"

definition cmd_max_wait :: nat where "cmd_max_wait = 1000000"

text \<open>The two counted loops around START_CMD; the counter stays far below \<open>2^64\<close>.\<close>

function spin_can_send_cmd :: "env \<Rightarrow> nat option \<Rightarrow> nat \<Rightarrow> world \<Rightarrow> world" where
  "spin_can_send_cmd E overall_deadline count w =
     (case can_send_cmd E w of (ok, w) \<Rightarrow>
        if ok then w
        else if cmd_max_wait < count + 1 then w
        else (case overall_deadline of
                None \<Rightarrow> spin_can_send_cmd E overall_deadline (count + 1) w
              | Some d \<Rightarrow> (case monotonic_time E w of (t, w) \<Rightarrow>
                  if d \<le> t then w else spin_can_send_cmd E overall_deadline (count + 1) w)))"
  by pat_completeness auto
termination
  by (relation "measure (\<lambda>(E, d, count, w). cmd_max_wait - count)") auto

declare spin_can_send_cmd.simps [simp del]

definition bounded_deadline :: "nat option \<Rightarrow> nat \<Rightarrow> nat" where
  "bounded_deadline overall_deadline command_deadline =
     (case overall_deadline of None \<Rightarrow> command_deadline | Some d \<Rightarrow> min d command_deadline)"

definition to_le_bytes :: "u64 \<Rightarrow> u8 list" where
  "to_le_bytes x = map (\<lambda>i. ucast (drop_bit (8 * i) x)) [0..<8]"

definition from_le_bytes :: "u8 list \<Rightarrow> u64" where
  "from_le_bytes bs = foldr (\<lambda>b acc. ucast b OR push_bit 8 acc) bs 0"

definition copy_into :: "'a list \<Rightarrow> nat \<Rightarrow> 'a list \<Rightarrow> 'a list" where
  "copy_into buf offset xs = take offset buf @ xs @ drop (offset + length xs) buf"

function drain_fifo :: "env \<Rightarrow> nat \<times> u8 list \<Rightarrow> world \<Rightarrow> (nat \<times> u8 list) \<times> world" where
  "drain_fifo E (offset, buf) w =
     (case fifo_cnt E w of (n, w) \<Rightarrow>
        if 2 \<le> n \<and> offset + 8 \<le> length buf
        then (case fifo_read E w of (data, w) \<Rightarrow>
          drain_fifo E (offset + 8, copy_into buf offset (to_le_bytes data)) w)
        else ((offset, buf), w))"
  by pat_completeness auto
termination
  by (relation "measure (\<lambda>(E, (offset, buf), w). length buf - offset)")
    (auto simp: copy_into_def to_le_bytes_def)

declare drain_fifo.simps [simp del]

function fill_fifo :: "env \<Rightarrow> u8 list \<Rightarrow> nat \<Rightarrow> world \<Rightarrow> nat \<times> world" where
  "fill_fifo E buf offset w =
     (case fifo_cnt E w of (n, w) \<Rightarrow>
        if n < 120 \<and> offset + 8 \<le> length buf
        then fill_fifo E buf (offset + 8)
               (fifo_write E (from_le_bytes (take 8 (drop offset buf))) w)
        else (offset, w))"
  by pat_completeness auto
termination
  by (relation "measure (\<lambda>(E, buf, offset, w). length buf - offset)") auto

declare fill_fifo.simps [simp del]

definition pio_read_poll ::
  "env \<Rightarrow> nat \<times> u8 list \<Rightarrow> world \<Rightarrow> bool \<times> (nat \<times> u8 list) \<times> world" where
  "pio_read_poll E s w =
     (let (r, w) = reg_read E RINTSTS w;
          (s, w) = (if get_flag RIntSts_layout ''receive_fifo_data_request'' r
                    then drain_fifo E s w else (s, w))
      in (get_flag RIntSts_layout ''data_transfer_over'' r \<or> RIntSts_error r, s, w))"

definition pio_write_poll :: "env \<Rightarrow> u8 list \<Rightarrow> nat \<Rightarrow> world \<Rightarrow> bool \<times> nat \<times> world" where
  "pio_write_poll E buf offset w =
     (let (r, w) = reg_read E RINTSTS w;
          (offset, w) = (if get_flag RIntSts_layout ''transmit_fifo_data_request'' r
                         then fill_fifo E buf offset w else (offset, w))
      in (get_flag RIntSts_layout ''data_transfer_over'' r \<or> RIntSts_error r, offset, w))"

definition pio_transfer :: "env \<Rightarrow> DataXfer option \<Rightarrow> world \<Rightarrow> u8 list step" where
  "pio_transfer E xfer w =
     (case xfer of
        None \<Rightarrow> Some ([], w)
      | Some (XferRead buf) \<Rightarrow>
          do { (s, w) \<leftarrow> wait_until (pio_read_poll E) (0, buf) w; Some (snd s, w) }
      | Some (XferWrite buf) \<Rightarrow>
          do { (_, w) \<leftarrow> wait_until (pio_write_poll E buf) 0 w; Some ([], w) })"

text \<open>
  The phases of \<open>send_cmd_with_deadline\<close>: submission, completion, busy and data
  phase, response.  \<open>Inr (resp, data)\<close> carries the buffer of a read.
\<close>

definition send_cmd_submit ::
  "env \<Rightarrow> u32 \<Rightarrow> u32 \<Rightarrow> nat option \<Rightarrow> world \<Rightarrow> unit sd_result step" where
  "send_cmd_submit E cmd arg overall_deadline w = do {
     let w = spin_can_send_cmd E overall_deadline 0 w;
     let (ready, w) = can_send_cmd E w;
     if \<not> ready then Some (Inl CommandBusy, w)
     else do {
       (_, w) \<leftarrow> (if get_flag Cmd_layout ''data_expected'' cmd
                  then wait_until (\<lambda>s w. case can_send_data E w of (b, w) \<Rightarrow> (b, s, w)) () w
                  else Some ((), w));
       let (_, w) = clear_rintsts E w;
       let w = reg_write E CMDARG arg w;
       let w = reg_write E CMD cmd w;
       let w = spin_can_send_cmd E overall_deadline 0 w;
       let (taken, w) = can_send_cmd E w;
       if \<not> taken then Some (Inl CommandStartTimeout, snd (clear_rintsts E w))
       else Some (Inr (), w)
     }
   }"

definition send_cmd_complete ::
  "env \<Rightarrow> bool \<Rightarrow> nat option \<Rightarrow> world \<Rightarrow> unit sd_result step" where
  "send_cmd_complete E is_reset_clock overall_deadline w = do {
     (timed_out, w) \<leftarrow>
       (if is_reset_clock then Some (False, w)
        else (case monotonic_time E w of (t, w) \<Rightarrow>
          poll_deadline E (command_finished E)
            (bounded_deadline overall_deadline (t + secs 1)) w));
     if timed_out then Some (Inl CommandTimeout, snd (clear_rintsts E w))
     else do {
       let (status, w) = reg_read E RINTSTS w;
       if RIntSts_error status
       then (case resp_read E w of (_, w) \<Rightarrow> Some (Inl Hardware, reg_write E RINTSTS status w))
       else Some (Inr (), w)
     }
   }"

definition send_cmd_data ::
  "env \<Rightarrow> bool \<Rightarrow> nat option \<Rightarrow> DataXfer option \<Rightarrow> world \<Rightarrow> (bool \<times> u8 list) step" where
  "send_cmd_data E expects_busy overall_deadline xfer w = do {
     (busy_timed_out, w) \<leftarrow>
       (if expects_busy
        then (case monotonic_time E w of (t, w) \<Rightarrow>
          poll_deadline E (can_send_data E) (bounded_deadline overall_deadline (t + secs 1)) w)
        else Some (False, w));
     (data, w) \<leftarrow> pio_transfer E xfer w;
     Some ((busy_timed_out, data), w)
   }"

definition send_cmd_result ::
  "env \<Rightarrow> bool \<Rightarrow> bool \<Rightarrow> bool \<Rightarrow> u8 list \<Rightarrow> world \<Rightarrow> (response \<times> u8 list) sd_result \<times> world" where
  "send_cmd_result E busy_timed_out expects_r1 requires_app_cmd data w =
     (let (resp, w) = resp_read E w;
          (rintsts, w) = clear_rintsts E w
      in if busy_timed_out then (Inl CardBusyTimeout, w)
         else if RIntSts_error rintsts
         then (if get_flag RIntSts_layout ''data_read_timeout'' rintsts
               then (Inl DataTimeout, w) else (Inl Hardware, w))
         else if expects_r1
         then (case validate_r1_response (fst resp) requires_app_cmd of
                 Inl e \<Rightarrow> (Inl e, w)
               | Inr _ \<Rightarrow> (Inr (resp, data), w))
         else (Inr (resp, data), w))"

definition send_cmd_with_deadline ::
  "env \<Rightarrow> Command \<Rightarrow> nat option \<Rightarrow> world \<Rightarrow> (response \<times> u8 list) sd_result step" where
  "send_cmd_with_deadline E command overall_deadline w =
     (case build command of (cmd, arg, xfer) \<Rightarrow> do {
       (r, w) \<leftarrow> send_cmd_submit E cmd arg overall_deadline w;
       case r of
         Inl e \<Rightarrow> Some (Inl e, w)
       | Inr _ \<Rightarrow> do {
           (r, w) \<leftarrow> send_cmd_complete E (command = ResetClock) overall_deadline w;
           case r of
             Inl e \<Rightarrow> Some (Inl e, w)
           | Inr _ \<Rightarrow> do {
               ((busy_timed_out, data), w) \<leftarrow>
                 send_cmd_data E (case command of SelectCard _ \<Rightarrow> True | _ \<Rightarrow> False)
                   overall_deadline xfer w;
               Some (send_cmd_result E busy_timed_out (has_r1_response command)
                       (requires_app_cmd_accepted command) data w)
             }
         }
     })"

definition send_cmd :: "env \<Rightarrow> Command \<Rightarrow> world \<Rightarrow> (response \<times> u8 list) sd_result step" where
  "send_cmd E command w = send_cmd_with_deadline E command None w"

section \<open>Frame properties of the command path\<close>

lemma can_send_cmd_quiet: "can_send_cmd E w = (b, w') \<Longrightarrow> quiet w w'"
  by (auto simp: can_send_cmd_def split: prod.splits dest: reg_read_quiet)

lemma can_send_data_quiet: "can_send_data E w = (b, w') \<Longrightarrow> quiet w w'"
  by (auto simp: can_send_data_def split: prod.splits dest: reg_read_quiet)

lemma command_finished_quiet: "command_finished E w = (b, w') \<Longrightarrow> quiet w w'"
  by (auto simp: command_finished_def split: prod.splits dest: reg_read_quiet)

lemma idmac_reset_done_quiet: "idmac_reset_done E w = (b, w') \<Longrightarrow> quiet w w'"
  by (auto simp: idmac_reset_done_def split: prod.splits dest!: reg_read_quiet intro: quiet_trans)

interpretation csc: polled E "can_send_cmd E" for E
  by unfold_locales (rule can_send_cmd_quiet)

interpretation csd: polled E "can_send_data E" for E
  by unfold_locales (rule can_send_data_quiet)

interpretation cfin: polled E "command_finished E" for E
  by unfold_locales (rule command_finished_quiet)

interpretation ird: polled E "idmac_reset_done E" for E
  by unfold_locales (rule idmac_reset_done_quiet)

lemma clear_idsts_quiet: "quiet w w' \<Longrightarrow> quiet w (clear_idsts E w')"
  by (auto simp: clear_idsts_def split: prod.splits
      intro!: status_write_quiet dest!: reg_read_quiet intro: quiet_trans)

lemma clear_rintsts_quiet: "clear_rintsts E w = (r, w') \<Longrightarrow> quiet w w'"
  by (auto simp: clear_rintsts_def split: prod.splits
      intro!: status_write_quiet dest!: reg_read_quiet)

lemma clear_rintsts_snd [simp]:
  "sd (snd (clear_rintsts E w)) = sd w" "trace (snd (clear_rintsts E w)) = trace w"
  using clear_rintsts_quiet [THEN quietD, OF prod.collapse [symmetric]] by blast+

lemma upd_sd_simps [simp]:
  "sd (upd_sd f w) = f (sd w)" "trace (upd_sd f w) = trace w" "hist (upd_sd f w) = hist w"
  "statics (upd_sd f w) = statics w"
  by (simp_all add: upd_sd_def)

lemma set_transaction_size_frame:
  "sd (set_transaction_size E b n w) = sd w"
  "\<exists>v. trace (set_transaction_size E b n w) = EvWrite BYTCNT n # EvWrite BLKSIZ v # trace w"
  by (auto simp: set_transaction_size_def)

lemma request_idmac_reset_frame:
  "sd (request_idmac_reset E w) = sd w"
  "\<exists>c b. trace (request_idmac_reset E w) = EvWrite CTRL c # EvWrite BMOD b # trace w"
proof -
  show "\<exists>c b. trace (request_idmac_reset E w) = EvWrite CTRL c # EvWrite BMOD b # trace w"
    unfolding request_idmac_reset_def Let_def
    by (metis reg_update_frame(2) reg.distinct)
qed (simp add: request_idmac_reset_def Let_def)

lemma reset_idmac_frame:
  assumes "reset_idmac E w = Some (ok, w')"
  shows "sd w' = sd w \<and> (\<exists>c b. trace w' = EvWrite CTRL c # EvWrite BMOD b # trace w)"
proof -
  from assms obtain t w1 where t: "monotonic_time E (dma_io_fence (request_idmac_reset E w)) = (t, w1)"
    and p: "poll_deadline E (idmac_reset_done E) (t + millis 100) w1 = Some (\<not> ok, w')"
    by (auto simp: reset_idmac_def Let_def split: prod.splits bind_splits)
  from time_quiet [OF t] ird.poll_quiet [OF p]
  have "quiet (dma_io_fence (request_idmac_reset E w)) w'" by (rule quiet_trans)
  then show ?thesis
    using quiet_sd quiet_trace request_idmac_reset_frame by fastforce
qed

lemma reset_idmac_returns: "clock_progress E \<Longrightarrow> reset_idmac E w \<noteq> None"
  unfolding reset_idmac_def Let_def
  by (intro case_prod_returns bind_returns ird.poll_returns) auto

text \<open>A reset that reports success has seen both reset bits read back as clear.\<close>

lemma reset_idmac_stopped:
  assumes "reset_idmac E w = Some (True, w')"
  shows "\<exists>w0. idmac_reset_done E w0 = (True, w')"
  using assms ird.poll_ok
  by (fastforce simp: reset_idmac_def Let_def split: prod.splits bind_splits)

section \<open>Polled commands: submission and response\<close>

lemma spin_can_send_cmd_quiet: "quiet w (spin_can_send_cmd E d count w)"
proof (induction E d count w rule: spin_can_send_cmd.induct)
  case (1 E d count w)
  obtain b w1 where c: "can_send_cmd E w = (b, w1)" by fastforce
  obtain t w2 where t: "monotonic_time E w1 = (t, w2)" by fastforce
  from c t have q: "quiet w w1" "quiet w1 w2"
    using can_send_cmd_quiet time_quiet by blast+
  from q quiet_trans have "quiet w w2" by blast
  with 1 q show ?case
    by (subst spin_can_send_cmd.simps)
      (auto simp: c t split: option.splits intro: quiet_trans)
qed

lemma submit_frame:
  assumes "send_cmd_submit E cmd arg d w = Some (r, w')"
    and "\<not> get_flag Cmd_layout ''data_expected'' cmd"
  shows "sd w' = sd w \<and>
    (r = Inl CommandBusy \<and> trace w' = trace w
     \<or> r \<noteq> Inl CommandBusy \<and> trace w' = EvWrite CMD cmd # EvWrite CMDARG arg # trace w)"
  using assms
  by (auto simp: send_cmd_submit_def Let_def split: prod.splits if_splits
      dest!: can_send_cmd_quiet clear_rintsts_quiet quietD
      simp: quiet_sd [OF spin_can_send_cmd_quiet] quiet_trace [OF spin_can_send_cmd_quiet])


lemma complete_frame:
  assumes "send_cmd_complete E rc d w = Some (r, w')"
  shows "sd w' = sd w \<and> trace w' = trace w \<and> r \<noteq> Inl CommandBusy"
  using assms
  by (auto simp: send_cmd_complete_def Let_def split: prod.splits if_splits bind_splits
      dest!: reg_read_quiet resp_read_quiet time_quiet cfin.poll_quiet quietD)

lemma busy_frame:
  assumes "send_cmd_data E busy d None w = Some (r, w')"
  shows "sd w' = sd w \<and> trace w' = trace w"
  using assms
  by (auto simp: send_cmd_data_def pio_transfer_def split: prod.splits if_splits bind_splits
      dest!: time_quiet csd.poll_quiet quietD)

lemma result_frame:
  assumes "send_cmd_result E busy r1 app data w = (r, w')"
  shows "sd w' = sd w \<and> trace w' = trace w \<and> r \<noteq> Inl CommandBusy"
  using assms
  by (auto simp: send_cmd_result_def validate_r1_response_def Let_def
      split: prod.splits if_splits
      dest!: resp_read_quiet clear_rintsts_quiet quietD)

lemma data_free_command:
  assumes "build c = (cmd, arg, None)"
    and "send_cmd_with_deadline E c d w = Some (r, w')"
  shows "sd w' = sd w \<and>
    (r = Inl CommandBusy \<and> trace w' = trace w
     \<or> r \<noteq> Inl CommandBusy \<and> trace w' = EvWrite CMD cmd # EvWrite CMDARG arg # trace w)"
proof -
  from assms(1) have nd: "\<not> get_flag Cmd_layout ''data_expected'' cmd"
    using build_data_expected by blast
  let ?sub = "send_cmd_submit E cmd arg d w"
  from assms obtain r1 w1 where sub: "?sub = Some (r1, w1)"
    by (auto simp: send_cmd_with_deadline_def split: bind_splits)
  note f1 = submit_frame [OF sub nd]
  show ?thesis
  proof (cases r1)
    case (Inl e)
    with assms sub have "r = Inl e" "w' = w1" by (auto simp: send_cmd_with_deadline_def)
    with f1 Inl show ?thesis by simp
  next
    case (Inr u)
    with assms sub have "sd w' = sd w1 \<and> trace w' = trace w1 \<and> r \<noteq> Inl CommandBusy"
      by (auto simp: send_cmd_with_deadline_def split: bind_splits sum.splits
          dest!: complete_frame busy_frame result_frame)
    with f1 Inr show ?thesis by simp
  qed
qed

lemma result_checked:
  assumes "send_cmd_result E busy r1 app data w = (Inr (resp, data'), w')"
  shows "\<not> busy \<and> data' = data \<and> EvResp resp \<in> set (hist w')
    \<and> (r1 \<longrightarrow> \<not> has_error (fst resp) \<and> (app \<longrightarrow> r1_app_cmd (fst resp)))"
proof -
  obtain x w1 where x: "resp_read E w = (x, w1)" by fastforce
  obtain y w2 where y: "clear_rintsts E w1 = (y, w2)" by fastforce
  from assms x y have res: "w' = w2" "resp = x"
    by (auto simp: send_cmd_result_def Let_def split: if_splits sum.splits)
  have "EvResp x \<in> set (hist w1)" using x by (auto simp: resp_read_def Let_def)
  with clear_rintsts_quiet [OF y] have "EvResp resp \<in> set (hist w')"
    using res by (auto simp: quiet_def)
  with assms x y show ?thesis
    by (auto simp: send_cmd_result_def validate_r1_response_def Let_def
        split: if_splits sum.splits)
qed

lemma command_checked:
  assumes "send_cmd_with_deadline E c d w = Some (Inr (resp, data), w')"
  shows "EvResp resp \<in> set (hist w') \<and> (has_r1_response c \<longrightarrow>
    \<not> has_error (fst resp) \<and> (requires_app_cmd_accepted c \<longrightarrow> r1_app_cmd (fst resp)))"
  using assms
  by (auto simp: send_cmd_with_deadline_def split: bind_splits sum.splits prod.splits
      dest!: result_checked)

lemma data_free_returns:
  assumes "build c = (cmd, arg, None)" "clock_progress E"
  shows "send_cmd_with_deadline E c d w \<noteq> None"
proof -
  from assms(1) have nd: "\<not> get_flag Cmd_layout ''data_expected'' cmd"
    using build_data_expected by blast
  then have "send_cmd_submit E cmd arg d w \<noteq> None"
    by (auto simp: send_cmd_submit_def Let_def split: prod.splits)
  moreover have "send_cmd_complete E b d w \<noteq> None" for b w
    unfolding send_cmd_complete_def Let_def
    by (intro bind_returns) (auto split: prod.splits simp: cfin.poll_returns assms simp del: not_None_eq)
  moreover have "send_cmd_data E b d None w \<noteq> None" for b w
    unfolding send_cmd_data_def pio_transfer_def
    by (intro bind_returns) (auto split: prod.splits simp: csd.poll_returns assms simp del: not_None_eq)
  ultimately show ?thesis
    unfolding send_cmd_with_deadline_def assms(1) prod.case
    by (intro bind_returns) (auto split: sum.splits prod.splits simp: bind_eq_None_conv simp del: not_None_eq)
qed

section \<open>The PIO data phase\<close>

lemma length_to_le_bytes [simp]: "length (to_le_bytes x) = 8"
  by (simp add: to_le_bytes_def)

lemma bit_from_le_bytes:
  "n < 64 \<Longrightarrow> bit (from_le_bytes bs) n = (n div 8 < length bs \<and> bit (bs ! (n div 8)) (n mod 8))"
proof (induction bs arbitrary: n)
  case (Cons b bs)
  have "from_le_bytes (b # bs) = ucast b OR push_bit 8 (from_le_bytes bs)"
    by (simp add: from_le_bytes_def)
  moreover have "bit b n \<Longrightarrow> n < 8" using bit_imp_le_length [of b n] by simp
  ultimately show ?case
  proof (cases "n < 8")
    case False
    then obtain m where "n = m + 8" using le_Suc_ex by (metis add.commute not_less)
    moreover have "(m + 8) div 8 = Suc (m div 8)" by simp
    ultimately show ?thesis
      using Cons \<open>from_le_bytes (b # bs) = _\<close> \<open>bit b n \<Longrightarrow> n < 8\<close>
      by (auto simp: bit_simps)
  qed (auto simp: bit_simps)
qed (simp add: from_le_bytes_def)

lemma to_from_le_bytes: "length bs = 8 \<Longrightarrow> to_le_bytes (from_le_bytes bs) = bs"
  by (rule nth_equalityI)
    (auto simp: to_le_bytes_def bit_simps bit_from_le_bytes intro!: bit_word_eqI)

lemma copy_into_simps:
  "offset + length xs \<le> length buf \<Longrightarrow> length (copy_into buf offset xs) = length buf"
  "offset + length xs + length ys \<le> length buf \<Longrightarrow>
     copy_into (copy_into buf offset xs) (offset + length xs) ys = copy_into buf offset (xs @ ys)"
  "offset \<le> length buf \<Longrightarrow> copy_into buf offset [] = buf"
  by (auto simp: copy_into_def algebra_simps)

lemma length_words [simp]: "length (concat (map to_le_bytes ws)) = 8 * length ws"
  by (induction ws) auto

lemma fifo_cnt_quiet: "fifo_cnt E w = (n, w') \<Longrightarrow> quiet w w'"
  by (auto simp: fifo_cnt_def split: prod.splits dest: reg_read_quiet)

lemma fifo_read_trace: "fifo_read E w = (d, w') \<Longrightarrow> trace w' = EvFifoRead d # trace w"
  by (auto simp: fifo_read_def Let_def)

lemma fifo_write_trace: "trace (fifo_write E d w) = EvFifoWrite d # trace w"
  by (simp add: fifo_write_def)

lemma drain_fifo_reads:
  assumes "drain_fifo E (offset, buf) w = ((offset', buf'), w')" "offset \<le> length buf"
  shows "\<exists>ws. trace w' = rev (map EvFifoRead ws) @ trace w
    \<and> offset' = offset + 8 * length ws \<and> offset' \<le> length buf
    \<and> buf' = copy_into buf offset (concat (map to_le_bytes ws))"
  using assms
proof (induction E "(offset, buf)" w arbitrary: offset buf rule: drain_fifo.induct)
  case (1 E offset buf w)
  obtain n w1 where n: "fifo_cnt E w = (n, w1)" by fastforce
  obtain d w2 where d: "fifo_read E w1 = (d, w2)" by fastforce
  from fifo_cnt_quiet [OF n] have t1: "trace w1 = trace w" by (rule quiet_trace)
  show ?case
  proof (cases "2 \<le> n \<and> offset + 8 \<le> length buf")
    case True
    let ?buf = "copy_into buf offset (to_le_bytes d)"
    from True 1(2) n d have "drain_fifo E (offset + 8, ?buf) w2 = ((offset', buf'), w')"
      by (simp add: drain_fifo.simps [of E offset])
    from 1(1) [OF n [symmetric] True d [symmetric] this] True
    obtain ws where ws: "trace w' = rev (map EvFifoRead ws) @ trace w2"
      "offset' = offset + 8 + 8 * length ws" "offset' \<le> length buf"
      "buf' = copy_into ?buf (offset + 8) (concat (map to_le_bytes ws))"
      by (auto simp: copy_into_simps)
    then show ?thesis
      using fifo_read_trace [OF d] t1 copy_into_simps(2) [of offset "to_le_bytes d"]
      by (intro exI [of _ "d # ws"]) auto
  next
    case False
    with 1(2,3) n t1 show ?thesis
      by (intro exI [of _ "[]"]) (auto simp: drain_fifo.simps [of E offset] copy_into_simps)
  qed
qed

lemma fill_fifo_writes:
  assumes "fill_fifo E buf offset w = (offset', w')" "offset \<le> length buf"
  shows "\<exists>ws. trace w' = rev (map EvFifoWrite ws) @ trace w
    \<and> offset' = offset + 8 * length ws \<and> offset' \<le> length buf
    \<and> concat (map to_le_bytes ws) = take (8 * length ws) (drop offset buf)"
  using assms
proof (induction E buf offset w rule: fill_fifo.induct)
  case (1 E buf offset w)
  obtain n w1 where n: "fifo_cnt E w = (n, w1)" by fastforce
  from fifo_cnt_quiet [OF n] have t1: "trace w1 = trace w" by (rule quiet_trace)
  let ?d = "from_le_bytes (take 8 (drop offset buf))"
  show ?case
  proof (cases "n < 120 \<and> offset + 8 \<le> length buf")
    case True
    with 1(2) n have "fill_fifo E buf (offset + 8) (fifo_write E ?d w1) = (offset', w')"
      by (simp add: fill_fifo.simps [of E buf offset])
    from 1(1) [OF n [symmetric] True this] True
    obtain ws where ws: "trace w' = rev (map EvFifoWrite ws) @ trace (fifo_write E ?d w1)"
      "offset' = offset + 8 + 8 * length ws" "offset' \<le> length buf"
      "concat (map to_le_bytes ws) = take (8 * length ws) (drop (offset + 8) buf)"
      by auto
    have "take (8 + 8 * length ws) (drop offset buf)
        = take 8 (drop offset buf) @ take (8 * length ws) (drop (offset + 8) buf)"
      by (simp add: take_add add.commute)
    with ws True show ?thesis
      using t1 fifo_write_trace to_from_le_bytes [of "take 8 (drop offset buf)"]
      by (intro exI [of _ "?d # ws"]) auto
  next
    case False
    with 1(2,3) n t1 show ?thesis
      by (intro exI [of _ "[]"]) (auto simp: fill_fifo.simps [of E buf offset])
  qed
qed

lemma wait_until_inv:
  assumes "wait_until f s w = Some (s', w')" "I s w"
    and step: "\<And>s w b s1 w1. I s w \<Longrightarrow> f s w = (b, s1, w1) \<Longrightarrow> I s1 w1"
  shows "I s' w'"
proof -
  have "f = f \<longrightarrow> I s w \<longrightarrow> I (fst (s', w')) (snd (s', w'))"
  proof (rule wait_until.raw_induct [OF _ assms(1), where P =
      "\<lambda>g s w y. g = f \<longrightarrow> I s w \<longrightarrow> I (fst y) (snd y)"], intro impI)
    fix h g s w y
    assume IH: "\<And>g s w y. h g s w = Some y \<Longrightarrow> g = f \<longrightarrow> I s w \<longrightarrow> I (fst y) (snd y)"
      and eq: "(case g s w of (ok, s1, w1) \<Rightarrow> if ok then Some (s1, w1) else h g s1 w1) = Some y"
      and gf: "g = f" and I: "I s w"
    obtain b s1 w1 where "f s w = (b, s1, w1)" using prod_cases3 by blast
    with eq gf IH step [OF I this] show "I (fst y) (snd y)" by (auto split: if_splits)
  qed
  with assms(2) show ?thesis by simp
qed

definition pio_read_inv :: "u8 list \<Rightarrow> event list \<Rightarrow> nat \<times> u8 list \<Rightarrow> world \<Rightarrow> bool" where
  "pio_read_inv buf t s w \<longleftrightarrow>
     (\<exists>ws. trace w = rev (map EvFifoRead ws) @ t \<and> fst s = 8 * length ws
       \<and> fst s \<le> length buf \<and> snd s = copy_into buf 0 (concat (map to_le_bytes ws)))"

lemma pio_read_step:
  assumes "pio_read_inv buf t s w" "pio_read_poll E s w = (b, s', w')"
  shows "pio_read_inv buf t s' w'"
proof -
  obtain r w1 where r: "reg_read E RINTSTS w = (r, w1)" by fastforce
  from assms(1) obtain ws where ws: "trace w = rev (map EvFifoRead ws) @ t"
    "fst s = 8 * length ws" "fst s \<le> length buf"
    "snd s = copy_into buf 0 (concat (map to_le_bytes ws))"
    unfolding pio_read_inv_def by blast
  have t1: "trace w1 = trace w" using reg_read_quiet [OF r] by (rule quiet_trace)
  show ?thesis
  proof (cases "get_flag RIntSts_layout ''receive_fifo_data_request'' r")
    case True
    obtain o1 b1 where s': "s' = (o1, b1)" by fastforce
    with True assms(2) r have "drain_fifo E (fst s, snd s) w1 = ((o1, b1), w')"
      by (auto simp: pio_read_poll_def split: prod.splits)
    moreover have len: "length (snd s) = length buf" using ws by (simp add: copy_into_simps)
    ultimately obtain vs where vs: "trace w' = rev (map EvFifoRead vs) @ trace w1"
      "o1 = fst s + 8 * length vs" "o1 \<le> length buf"
      "b1 = copy_into (snd s) (fst s) (concat (map to_le_bytes vs))"
      using drain_fifo_reads ws(3) by metis
    from vs ws have "b1 = copy_into buf 0 (concat (map to_le_bytes (ws @ vs)))"
      using copy_into_simps(2) [of 0 "concat (map to_le_bytes ws)" "concat (map to_le_bytes vs)" buf]
      by simp
    with vs ws t1 s' show ?thesis
      unfolding pio_read_inv_def by (intro exI [of _ "ws @ vs"]) auto
  next
    case False
    with assms r t1 show ?thesis
      by (auto simp: pio_read_poll_def pio_read_inv_def split: prod.splits)
  qed
qed

definition pio_write_inv :: "u8 list \<Rightarrow> event list \<Rightarrow> nat \<Rightarrow> world \<Rightarrow> bool" where
  "pio_write_inv buf t offset w \<longleftrightarrow>
     (\<exists>ws. trace w = rev (map EvFifoWrite ws) @ t \<and> offset = 8 * length ws
       \<and> offset \<le> length buf \<and> concat (map to_le_bytes ws) = take offset buf)"

lemma pio_write_step:
  assumes "pio_write_inv buf t offset w" "pio_write_poll E buf offset w = (b, offset', w')"
  shows "pio_write_inv buf t offset' w'"
proof -
  obtain r w1 where r: "reg_read E RINTSTS w = (r, w1)" by fastforce
  from assms(1) obtain ws where ws: "trace w = rev (map EvFifoWrite ws) @ t"
    "offset = 8 * length ws" "offset \<le> length buf" "concat (map to_le_bytes ws) = take offset buf"
    unfolding pio_write_inv_def by blast
  have t1: "trace w1 = trace w" using reg_read_quiet [OF r] by (rule quiet_trace)
  show ?thesis
  proof (cases "get_flag RIntSts_layout ''transmit_fifo_data_request'' r")
    case True
    with assms(2) r have "fill_fifo E buf offset w1 = (offset', w')"
      by (auto simp: pio_write_poll_def split: prod.splits)
    from fill_fifo_writes [OF this ws(3)] obtain vs where vs:
      "trace w' = rev (map EvFifoWrite vs) @ trace w1"
      "offset' = offset + 8 * length vs" "offset' \<le> length buf"
      "concat (map to_le_bytes vs) = take (8 * length vs) (drop offset buf)" by blast
    with ws t1 show ?thesis
      unfolding pio_write_inv_def by (intro exI [of _ "ws @ vs"]) (auto simp: take_add)
  next
    case False
    with assms r t1 show ?thesis
      by (auto simp: pio_write_poll_def pio_write_inv_def split: prod.splits)
  qed
qed

section \<open>Commands leave the driver's state alone\<close>

lemma drain_fifo_calm: "drain_fifo E s w = (s', w') \<Longrightarrow> calm w w'"
proof (induction E s w arbitrary: s' rule: drain_fifo.induct)
  case (1 E offset buf w)
  obtain n w1 where n: "fifo_cnt E w = (n, w1)" by fastforce
  obtain d w2 where d: "fifo_read E w1 = (d, w2)" by fastforce
  have "calm w w1" using fifo_cnt_quiet [OF n] by (rule calm_quiet)
  moreover have "calm w1 w2" using d by (auto simp: calm_def fifo_read_def Let_def)
  ultimately show ?case using 1 n d
    by (cases s') (auto simp: drain_fifo.simps [of E offset buf w] calm_def split: if_splits)
qed

lemma fill_fifo_calm: "fill_fifo E buf offset w = (n', w') \<Longrightarrow> calm w w'"
proof (induction E buf offset w rule: fill_fifo.induct)
  case (1 E buf offset w)
  obtain n w1 where n: "fifo_cnt E w = (n, w1)" by fastforce
  have "calm w w1" using fifo_cnt_quiet [OF n] by (rule calm_quiet)
  moreover have "calm w1 (fifo_write E v w1)" for v by (simp add: calm_def fifo_write_def)
  ultimately show ?case using 1 n
    by (auto simp: fill_fifo.simps [of E buf offset w] calm_def split: if_splits)
qed

lemma wait_until_calm:
  assumes "\<And>s w b s1 w1. f s w = (b, s1, w1) \<Longrightarrow> calm w w1"
    and "wait_until f s w = Some (s', w')"
  shows "calm w w'"
  by (rule wait_until_inv [OF assms(2), where I = "\<lambda>_. calm w"])
    (auto dest: assms(1) intro: calm_trans)

lemma pio_poll_calm:
  "pio_read_poll E s w = (b, s', w') \<Longrightarrow> calm w w'"
  "pio_write_poll E buf n w = (b, n', w') \<Longrightarrow> calm w w'"
  by (auto simp: pio_read_poll_def pio_write_poll_def split: if_splits prod.splits
      dest!: reg_read_quiet calm_quiet drain_fifo_calm fill_fifo_calm intro: calm_trans)

lemma pio_transfer_calm: "pio_transfer E x w = Some (data, w') \<Longrightarrow> calm w w'"
  by (auto simp: pio_transfer_def split: option.splits DataXfer.splits bind_splits
      elim!: wait_until_calm [rotated] dest: pio_poll_calm)

lemma submit_calm: "send_cmd_submit E cmd arg d w = Some (r, w') \<Longrightarrow> calm w w'"
  by (auto simp: send_cmd_submit_def Let_def split: prod.splits if_splits bind_splits
      dest!: can_send_cmd_quiet clear_rintsts_quiet quietD
      dest!: wait_until_calm [rotated] calmD
      simp: quiet_sd [OF spin_can_send_cmd_quiet] quiet_trace [OF spin_can_send_cmd_quiet]
        calm_def
      dest: can_send_data_quiet [THEN calm_quiet])

lemma send_cmd_data_calm: "send_cmd_data E busy d x w = Some (r, w') \<Longrightarrow> calm w w'"
  by (auto simp: send_cmd_data_def calm_def split: prod.splits if_splits bind_splits
      dest!: time_quiet csd.poll_quiet quietD pio_transfer_calm calmD)

lemma send_cmd_calm: "send_cmd_with_deadline E c d w = Some (r, w') \<Longrightarrow> calm w w'"
  by (auto simp: send_cmd_with_deadline_def calm_def
      split: prod.splits if_splits bind_splits sum.splits
      dest!: submit_calm complete_frame send_cmd_data_calm result_frame calmD)

section \<open>Properties\<close>

text \<open>A controller at rest: every register reads 0 and time advances with every event.\<close>

definition idle_env :: env where
  "idle_env =
     \<lparr>reg_val = \<lambda>h r. 0, resp_val = \<lambda>h. (0x900, 0, 0, 0), fifo_val = \<lambda>h. 0,
      time_val = length, wall_val = length, alloc_val = \<lambda>h l. None,
      des0_val = \<lambda>h i n. 0, buf_val = \<lambda>h i n. 0, register_irq_val = \<lambda>h. True,
      irq_count = \<lambda>h. 0, cancel_val = \<lambda>h. False\<rparr>"

definition idle_world :: world where
  "idle_world =
     \<lparr>sd = \<lparr>num_blocks = 0, rca = 0, ocr_ccs = False, ahb_data_width = Bits32, dma_buffer = None,
            idmac_faulted = False, idmac_reset_failed = False\<rparr>,
      statics = \<lparr>IDMAC_DONE_FLAG = False, IDMAC_ERROR_FLAG = False, SDMMC_REGS_BASE = 0,
                 IDMAC_COMPLETION = IdmacCompletion_new, ASYNC_WRITE_BUSY_SEQUENCE = 0\<rparr>,
      hist = []\<rparr>"

lemma idle_trace [simp]: "trace idle_world = []"
  by (simp add: idle_world_def trace_def)

lemma idle_clock_progress: "clock_progress idle_env"
  by (auto simp: clock_progress_def idle_env_def)

text \<open>
  C26: a polled command without a data phase always returns once the clock advances,
  whatever the controller and the card do and however interrupts interleave.  It
  leaves the driver's state alone and submits the command at most once: either the
  controller never became free and nothing was written, or exactly the argument and
  then the command were written.  A success carries the response last read from the
  card, and for an R1 command that response has no error bit and, after CMD55, has
  the application-command bit.
\<close>

theorem polled_command_contract:
  assumes "build c = (cmd, arg, None)" "clock_progress E"
  shows "\<exists>r w'. send_cmd_with_deadline E c d w = Some (r, w') \<and> sd w' = sd w
    \<and> trace w' = (if r = Inl CommandBusy then [] else [EvWrite CMD cmd, EvWrite CMDARG arg]) @ trace w
    \<and> (\<forall>resp data. r = Inr (resp, data) \<longrightarrow> EvResp resp \<in> set (hist w')
        \<and> (has_r1_response c \<longrightarrow> \<not> has_error (fst resp)
             \<and> (requires_app_cmd_accepted c \<longrightarrow> r1_app_cmd (fst resp))))"
proof -
  from data_free_returns [OF assms] obtain r w' where
    s: "send_cmd_with_deadline E c d w = Some (r, w')" by fastforce
  with data_free_command [OF assms(1) s] command_checked show ?thesis
    by (intro exI [of _ r] exI [of _ w']) auto
qed

theorem polled_command_contract_witness:
  "\<exists>r w'. send_cmd_with_deadline idle_env (SendStatus 0x10000) None idle_world = Some (r, w')
    \<and> trace w' = (if r = Inl CommandBusy then []
        else [EvWrite CMD (fst (build (SendStatus 0x10000))), EvWrite CMDARG 0x10000])"
proof -
  have "build (SendStatus 0x10000) = (fst (build (SendStatus 0x10000)), 0x10000, None)"
    by (simp add: build_def Let_def)
  from polled_command_contract [OF this idle_clock_progress, of None idle_world] show ?thesis
    by auto
qed

text \<open>
  C28: the PIO data phase moves whole 64-bit words between the FIFO and the buffer, in
  order and without loss.  After a read the buffer holds the bytes of the words taken
  from the FIFO, least significant byte first, followed by its old contents; the words
  given to the FIFO in a write are the buffer's bytes from its start.  No access goes
  past the end of the buffer.
\<close>

theorem pio_transfer_in_order:
  assumes "pio_transfer E (Some x) w = Some (data, w')"
  shows "case x of
      XferRead buf \<Rightarrow> \<exists>ws. trace w' = rev (map EvFifoRead ws) @ trace w
        \<and> 8 * length ws \<le> length buf
        \<and> data = concat (map to_le_bytes ws) @ drop (8 * length ws) buf
    | XferWrite buf \<Rightarrow> \<exists>ws. trace w' = rev (map EvFifoWrite ws) @ trace w
        \<and> 8 * length ws \<le> length buf
        \<and> concat (map to_le_bytes ws) = take (8 * length ws) buf"
proof (cases x)
  case (XferRead buf)
  with assms obtain s where s: "wait_until (pio_read_poll E) (0, buf) w = Some (s, w')" "data = snd s"
    by (auto simp: pio_transfer_def split: bind_splits)
  have "pio_read_inv buf (trace w) (0, buf) w"
    by (auto simp: pio_read_inv_def copy_into_def intro: exI [of _ "[]"])
  then have "pio_read_inv buf (trace w) s w'"
    by (rule wait_until_inv [OF s(1)]) (rule pio_read_step)
  then show ?thesis using XferRead s(2) by (auto simp: pio_read_inv_def copy_into_def)
next
  case (XferWrite buf)
  with assms obtain s where s: "wait_until (pio_write_poll E buf) 0 w = Some (s, w')"
    by (auto simp: pio_transfer_def split: bind_splits)
  have "pio_write_inv buf (trace w) 0 w"
    by (auto simp: pio_write_inv_def intro: exI [of _ "[]"])
  then have "pio_write_inv buf (trace w) s w'"
    by (rule wait_until_inv [OF s]) (rule pio_write_step)
  then show ?thesis using XferWrite by (auto simp: pio_write_inv_def)
qed

text \<open>RINTSTS with data request and transfer over, two words in the FIFO.\<close>

definition fifo_env :: env where
  "fifo_env = idle_env\<lparr>reg_val := \<lambda>h r. if r = RINTSTS then 0x28 else if r = STATUS then 0x40000
     else 0, fifo_val := \<lambda>h. 0x0807060504030201\<rparr>"

lemma fifo_env_reads:
  "reg_read fifo_env STATUS w = (0x40000, log_ev (EvRead STATUS 0x40000) w)"
  "reg_read fifo_env RINTSTS w = (0x28, log_ev (EvRead RINTSTS 0x28) w)"
  "fifo_read fifo_env w = (0x0807060504030201, log_ev (EvFifoRead 0x0807060504030201) w)"
  by (simp_all add: fifo_env_def idle_env_def reg_read_def raw_read_def fifo_read_def preempt_def)

lemma fifo_word_bytes: "to_le_bytes 0x0807060504030201 = [1, 2, 3, 4, 5, 6, 7, 8]"
  by code_simp

lemma fifo_env_run:
  "pio_transfer fifo_env (Some (XferRead (replicate 8 0))) idle_world =
     Some ([1, 2, 3, 4, 5, 6, 7, 8], log_ev (EvRead STATUS 0x40000)
       (log_ev (EvFifoRead 0x0807060504030201) (log_ev (EvRead STATUS 0x40000)
         (log_ev (EvRead RINTSTS 0x28) idle_world))))"
proof -
  have "drain_fifo fifo_env (8, bs) w = ((8, bs), log_ev (EvRead STATUS 0x40000) w)"
    if "length bs = 8" for bs w
    using that by (subst drain_fifo.simps)
      (simp add: fifo_cnt_def fifo_env_reads)
  then have "drain_fifo fifo_env (0, replicate 8 0) w =
     ((8, to_le_bytes 0x0807060504030201), log_ev (EvRead STATUS 0x40000)
       (log_ev (EvFifoRead 0x0807060504030201) (log_ev (EvRead STATUS 0x40000) w)))" for w
    by (subst drain_fifo.simps)
      (simp add: fifo_cnt_def fifo_env_reads copy_into_def
        Status_fields get_bits_def)
  then show ?thesis
    by (subst pio_transfer_def)
      (simp add: wait_until.simps pio_read_poll_def fifo_env_reads RIntSts_flags
        fifo_word_bytes)
qed

theorem pio_transfer_in_order_witness:
  "\<exists>w'. pio_transfer fifo_env (Some (XferRead (replicate 8 0))) idle_world =
          Some ([1, 2, 3, 4, 5, 6, 7, 8], w')
    \<and> (\<exists>ws. trace w' = rev (map EvFifoRead ws) \<and> length ws \<le> 1
        \<and> [1, 2, 3, 4, 5, 6, 7, 8] = concat (map to_le_bytes ws) @ drop (8 * length ws) (replicate 8 0))"
  using pio_transfer_in_order [OF fifo_env_run] fifo_env_run
  by auto

end
