(* ===== verification/Sd_Store.thy ===== *)
theory Sd_Store
  imports Sd_World
begin

text \<open>
  What the accesses in a history do to the card and to DMA memory: the controller's
  engine and the card as their documents describe them, replayed over the events.
  Block reads and writes are specified against this replay: after a write the card
  holds the caller's bytes, and a read returns the card's.
\<close>

unbundle bit_operations_syntax

section \<open>Definitions\<close>

fun last_write :: "reg \<Rightarrow> history \<Rightarrow> u32" where
  "last_write r [] = 0"
| "last_write r (EvWrite q v # h) = (if q = r then v else last_write r h)"
| "last_write r (_ # h) = last_write r h"

text \<open>The descriptors in memory, by bus address, and how many were written.\<close>

definition desc_addr :: "DMAInfo \<Rightarrow> nat \<Rightarrow> u32" where
  "desc_addr info i = ucast (bus_addr info) + of_nat (i * DESCRIPTOR_SIZE)"

fun desc_memory :: "history \<Rightarrow> u32 \<Rightarrow> IdmacDescriptor option" where
  "desc_memory [] = Map.empty"
| "desc_memory (EvDescWrite info i d # h) = (desc_memory h)(desc_addr info i \<mapsto> d)"
| "desc_memory (_ # h) = desc_memory h"

fun desc_writes :: "history \<Rightarrow> nat" where
  "desc_writes [] = 0"
| "desc_writes (EvDescWrite info i d # h) = Suc (desc_writes h)"
| "desc_writes (_ # h) = desc_writes h"

text \<open>
  The segments the engine collects from the programmed table.  A chain is no longer
  than the number of descriptors ever written, which bounds the walk.
\<close>

definition engine_segments :: "history \<Rightarrow> (u32 \<times> nat) list option" where
  "engine_segments h = idmac_walk (desc_memory h) (desc_writes h) (last_write DBADDR h)"

definition engine_bytes :: "history \<Rightarrow> nat list" where
  "engine_bytes h =
     (case engine_segments h of
        None \<Rightarrow> []
      | Some segs \<Rightarrow> take (unat (last_write BYTCNT h)) (concat (map segment_bytes segs)))"

type_synonym bytes = "nat \<Rightarrow> u8"

definition put :: "nat \<Rightarrow> u8 list \<Rightarrow> bytes \<Rightarrow> bytes" where
  "put p xs f = (\<lambda>i. if p \<le> i \<and> i < p + length xs then xs ! (i - p) else f i)"

definition get :: "nat \<Rightarrow> nat \<Rightarrow> bytes \<Rightarrow> u8 list" where
  "get p n f = map f [p..<p + n]"

definition scatter :: "nat list \<Rightarrow> u8 list \<Rightarrow> bytes \<Rightarrow> bytes" where
  "scatter as xs f = (\<lambda>i. case map_of (zip as xs) i of None \<Rightarrow> f i | Some x \<Rightarrow> x)"

text \<open>
  A command takes effect on the card's bytes and on memory: CMD24 and CMD25 store what
  the engine fetches, CMD17 and CMD18 deliver the card's bytes.  High-capacity cards are
  addressed in blocks of 512 bytes.
\<close>

definition run_command :: "u32 \<Rightarrow> u32 \<Rightarrow> nat list \<Rightarrow> bytes \<times> bytes \<Rightarrow> bytes \<times> bytes" where
  "run_command cmd arg as s =
     (case s of (disk, mem) \<Rightarrow>
        let idx = get_field Cmd_layout ''cmd_index'' cmd; p = 512 * unat arg in
        if idx = 24 \<or> idx = 25 then (put p (map mem as) disk, mem)
        else if idx = 17 \<or> idx = 18 then (disk, scatter as (get p (length as) disk) mem)
        else (disk, mem))"

fun device :: "bytes \<Rightarrow> history \<Rightarrow> bytes \<times> bytes" where
  "device d [] = (d, \<lambda>_. 0)"
| "device d (EvBufWrite info bs # h) = apsnd (put (unat (bus_addr info)) bs) (device d h)"
| "device d (EvWrite q v # h) =
     (if q = CMD then run_command v (last_write CMDARG h) (engine_bytes h) (device d h)
      else device d h)"
| "device d (_ # h) = device d h"

abbreviation disk :: "bytes \<Rightarrow> world \<Rightarrow> bytes" where
  "disk d w \<equiv> fst (device d (trace w))"

text \<open>
  Coherence: once every descriptor of the last command has been seen released by the
  engine, the processor reads the memory the replay gives.
\<close>

definition coherent :: "env \<Rightarrow> bytes \<Rightarrow> bool" where
  "coherent E d \<longleftrightarrow>
     (\<forall>es cmd h info segs b i.
        (\<forall>v. EvWrite CMD v \<notin> set es) \<and> engine_segments h = Some segs
        \<and> ucast (bus_addr info) = last_write DBADDR h
        \<and> (\<forall>j<length segs. \<exists>v. EvDescRead info j v \<in> set es \<and> \<not> get_flag IdmacDes0_layout ''own'' v)
        \<longrightarrow> buf_val E (es @ EvWrite CMD cmd # h) b i
              = snd (device d (es @ EvWrite CMD cmd # h)) (unat (bus_addr b) + i))"

section \<open>Stores\<close>

lemma put_Nil [simp]: "put p [] f = f"
  by (rule ext) (auto simp: put_def)

lemma put_append: "put p (xs @ ys) f = put (p + length xs) ys (put p xs f)"
  by (rule ext) (auto simp: put_def nth_append)

lemma get_put [simp]: "get p (length xs) (put p xs f) = xs"
  by (rule nth_equalityI) (simp_all add: get_def put_def)

lemma get_put_other: "p + n \<le> q \<or> q + length xs \<le> p \<Longrightarrow> get p n (put q xs f) = get p n f"
  by (auto simp: get_def put_def)

lemma get_append: "get p (m + n) f = get p m f @ get (p + m) n f"
  unfolding get_def add.assoc [symmetric] by (subst upt_add_eq_append) simp_all

lemma length_get [simp]: "length (get p n f) = n"
  by (simp add: get_def)

lemma map_upt_get: "map (\<lambda>i. f (p + i)) [0..<n] = get p n f"
  unfolding get_def by (induction n) simp_all

lemma scatter_upt: "scatter [p..<p + length xs] xs f = put p xs f"
proof
  fix i
  show "scatter [p..<p + length xs] xs f i = put p xs f i"
  proof (cases "p \<le> i \<and> i < p + length xs")
    case True
    then have "(i, xs ! (i - p)) \<in> set (zip [p..<p + length xs] xs)"
      by (auto simp: set_zip intro!: exI [of _ "i - p"])
    with True show ?thesis by (simp add: scatter_def put_def map_of_is_SomeI)
  next
    case False
    then have "map_of (zip [p..<p + length xs] xs) i = None"
      by (auto simp: map_of_eq_None_iff set_zip)
    then have "scatter [p..<p + length xs] xs f i = f i" by (simp only: scatter_def option.case)
    with False show ?thesis by (simp only: put_def if_False)
  qed
qed

section \<open>Quiet events\<close>

lemma last_write_filter:
  "r \<noteq> RINTSTS \<Longrightarrow> r \<noteq> IDSTS \<Longrightarrow> last_write r (filter (\<lambda>e. \<not> quiet_ev e) h) = last_write r h"
  by (induction r h rule: last_write.induct) auto

lemma desc_memory_filter: "desc_memory (filter (\<lambda>e. \<not> quiet_ev e) h) = desc_memory h"
  by (induction h rule: desc_memory.induct) (simp_all add: quiet_ev_def)

lemma desc_writes_filter: "desc_writes (filter (\<lambda>e. \<not> quiet_ev e) h) = desc_writes h"
  by (induction h rule: desc_writes.induct) (simp_all add: quiet_ev_def)

lemma engine_filter:
  "engine_segments (filter (\<lambda>e. \<not> quiet_ev e) h) = engine_segments h"
  "engine_bytes (filter (\<lambda>e. \<not> quiet_ev e) h) = engine_bytes h"
  by (simp_all add: engine_segments_def engine_bytes_def desc_memory_filter desc_writes_filter
      last_write_filter cong: option.case_cong)

lemma device_filter: "device d (filter (\<lambda>e. \<not> quiet_ev e) h) = device d h"
  by (induction d h rule: device.induct)
    (auto simp: engine_filter last_write_filter)

lemma device_trace: "device d (trace w) = device d (hist w)"
  by (simp add: trace_def device_filter)

text \<open>Events without effect on the card or on memory.\<close>

definition inert :: "event \<Rightarrow> bool" where
  "inert e = (case e of EvWrite q v \<Rightarrow> q \<noteq> CMD | EvBufWrite _ _ \<Rightarrow> False | _ \<Rightarrow> True)"

lemma inert_simps [simp]:
  "inert (EvWrite q v) \<longleftrightarrow> q \<noteq> CMD" "\<not> inert (EvBufWrite i bs)" "inert (EvBufRead i bs)"
  "inert (EvAlloc l a)" "inert (EvDealloc i l)" "inert (EvDescWrite i n ds)"
  by (simp_all add: inert_def)

lemma device_inert: "list_all inert es \<Longrightarrow> device d (es @ h) = device d h"
proof (induction es)
  case (Cons e es)
  then show ?case by (cases e) (auto simp: inert_def)
qed simp

section \<open>Published chains\<close>

lemma idmac_walk_mono:
  "idmac_walk m n a = Some segs \<Longrightarrow> m \<subseteq>\<^sub>m m' \<Longrightarrow> n \<le> n' \<Longrightarrow> idmac_walk m' n' a = Some segs"
proof (induction m n a arbitrary: n' segs rule: idmac_walk.induct)
  case (2 m n a)
  from "2.prems"(1) obtain x where x: "m a = Some x" by (auto split: option.splits)
  with "2.prems"(2) have "m' a = Some x" by (metis domI map_le_def)
  moreover obtain k where "n' = Suc k" "n \<le> k" using "2.prems"(3) by (cases n') auto
  ultimately show ?case using 2 x by (auto split: if_splits)
qed simp

end
