(* ===== verification/Sd_Sim.thy ===== *)
theory Sd_Sim
  imports Sd_Store
begin

text \<open>
  A concrete environment: a controller and a card that behave as their documents say.
  Registers read back what was last written, self-clearing bits read as 0, status bits
  report completion, every command gets its proper response, and the DMA engine fills
  the buffer from a card with the given contents.  It shows that the hypotheses of the
  properties can hold together; no property is about it.
\<close>

text \<open>Descriptors are owned by the engine from their publication to the next command.\<close>

fun desc_pending :: "history \<Rightarrow> bool" where
  "desc_pending [] = False"
| "desc_pending (EvDescWrite _ _ _ # h) = True"
| "desc_pending (EvWrite q v # h) = (q \<noteq> CMD \<and> desc_pending h)"
| "desc_pending (_ # h) = desc_pending h"

definition sim_resp :: "u32 \<Rightarrow> response" where
  "sim_resp cmd =
     (let idx = get_field Cmd_layout ''cmd_index'' cmd in
      if idx = 8 then (0x1AA, 0, 0, 0)
      else if idx = 41 then (0xC0FF8000, 0, 0, 0)
      else if idx = 3 then (0x00010500, 0, 0, 0)
      else if idx = 9 then (0, 0x00FF0000, 0, 0x40000000)
      else (0x920, 0, 0, 0))"

definition sim_reg :: "history \<Rightarrow> reg \<Rightarrow> u32" where
  "sim_reg h r =
     (case r of
        CMD \<Rightarrow> 0
      | STATUS \<Rightarrow> 0
      | HCON \<Rightarrow> 0x80
      | RINTSTS \<Rightarrow> 0x400C
      | IDSTS \<Rightarrow> 0x103
      | BMOD \<Rightarrow> last_write BMOD h AND 0xFFFFFFFE
      | CTRL \<Rightarrow> last_write CTRL h AND 0xFFFFFFFB
      | _ \<Rightarrow> last_write r h)"

definition sim_info :: DMAInfo where
  "sim_info = \<lparr>cpu_addr = 0x80100000, bus_addr = 0x40100000, page_allocated = False\<rparr>"

definition sim_env :: "(nat \<Rightarrow> u8) \<Rightarrow> env" where
  "sim_env m =
     \<lparr>reg_val = sim_reg, resp_val = \<lambda>h. sim_resp (last_write CMD h), fifo_val = \<lambda>h. 0,
      time_val = length, wall_val = length,
      alloc_val = \<lambda>h l. Some sim_info,
      des0_val = \<lambda>h i n. if desc_pending h then 0x80000000 else 0,
      buf_val = \<lambda>h i n. snd (device m h) (unat (bus_addr i) + n),
      register_irq_val = \<lambda>h. True, irq_count = \<lambda>h. 0, cancel_val = \<lambda>h. False\<rparr>"

lemma sim_env_sel [simp]:
  "irq_count (sim_env m) h = 0" "cancel_val (sim_env m) h = False"
  "register_irq_val (sim_env m) h = True" "time_val (sim_env m) h = length h"
  "wall_val (sim_env m) h = length h"
  "des0_val (sim_env m) h i n = (if desc_pending h then 0x80000000 else 0)"
  "buf_val (sim_env m) h i n = snd (device m h) (unat (bus_addr i) + n)"
  "alloc_val (sim_env m) h l = Some sim_info"
  "reg_val (sim_env m) h r = sim_reg h r"
  "resp_val (sim_env m) h = sim_resp (last_write CMD h)"
  by (simp_all add: sim_env_def)

lemma sim_clock_progress: "clock_progress (sim_env m)"
  by (auto simp: clock_progress_def)

lemma sim_coherent: "coherent (sim_env m) m"
  by (simp add: coherent_def)

lemma sim_preempt [simp]: "preempt (sim_env m) w = w"
  by (simp add: preempt_def)

text \<open>How one access evaluates in this environment.\<close>

lemma sim_access:
  "reg_read (sim_env m) r w = (sim_reg (hist w) r, log_ev (EvRead r (sim_reg (hist w) r)) w)"
  "reg_write (sim_env m) r v w = log_ev (EvWrite r v) w"
  "resp_read (sim_env m) w =
     (sim_resp (last_write CMD (hist w)), log_ev (EvResp (sim_resp (last_write CMD (hist w)))) w)"
  "monotonic_time (sim_env m) w = (length (hist w), log_ev (EvTime (length (hist w))) w)"
  "wall_time (sim_env m) w = (length (hist w), log_ev (EvWall (length (hist w))) w)"
  "atomic (sim_env m) w = log_ev EvAtomic w"
  by (simp_all add: reg_read_def raw_read_def reg_write_def raw_write_def resp_read_def
      monotonic_time_def wall_time_def atomic_def Let_def)

lemma sim_reg_simps [simp]:
  "sim_reg h CMD = 0" "sim_reg h STATUS = 0" "sim_reg h HCON = 0x80" "sim_reg h RINTSTS = 0x400C"
  "sim_reg h IDSTS = 0x103" "sim_reg h BMOD = last_write BMOD h AND 0xFFFFFFFE"
  "sim_reg h CTRL = last_write CTRL h AND 0xFFFFFFFB" "sim_reg h CLKDIV = last_write CLKDIV h"
  "sim_reg h CLKENA = last_write CLKENA h" "sim_reg h BLKSIZ = last_write BLKSIZ h"
  "sim_reg h DBADDR = last_write DBADDR h" "sim_reg h BYTCNT = last_write BYTCNT h"
  "sim_reg h IDINTEN = last_write IDINTEN h" "sim_reg h INTMASK = last_write INTMASK h"
  by (simp_all add: sim_reg_def)

lemma sim_flags:
  "\<not> RIntSts_error 0x400C" "get_flag RIntSts_layout ''command_done'' (0x400C :: u32)"
  "get_flag RIntSts_layout ''data_transfer_over'' (0x400C :: u32)"
  "get_flag RIntSts_layout ''auto_command_done'' (0x400C :: u32)"
  "\<not> get_flag RIntSts_layout ''receive_fifo_data_request'' (0x400C :: u32)"
  "\<not> get_flag RIntSts_layout ''transmit_fifo_data_request'' (0x400C :: u32)"
  "\<not> get_flag IdSts_layout ''ais'' (0x103 :: u32)" "\<not> get_flag IdSts_layout ''ces'' (0x103 :: u32)"
  "\<not> get_flag IdSts_layout ''du'' (0x103 :: u32)" "\<not> get_flag IdSts_layout ''fbe'' (0x103 :: u32)"
  "get_flag IdSts_layout ''ri'' (0x103 :: u32)" "get_flag IdSts_layout ''ti'' (0x103 :: u32)"
  "idsts_any 0x103" "\<not> get_flag Cmd_layout ''start_cmd'' (0 :: u32)"
  "\<not> get_flag Status_layout ''data_busy'' (0 :: u32)"
  "\<not> get_flag Status_layout ''data_state_mc_busy'' (0 :: u32)"
  by (simp_all add: RIntSts_error_def idsts_any_def RIntSts_flags IdSts_flags Cmd_flags Status_flags)

end
