(* ===== verification/Sd_Init.thy ===== *)
theory Sd_Init
  imports Sd_Driver Sd_Sim "HOL-Library.Sublist"
begin

text \<open>
  Card clock, card identification and enabling of the DMA engine
  (\<open>SdMmc::init\<close>, \<open>SdMmc::new\<close>, \<open>SdMmc::try_enable_idmac\<close> and the clock functions in
  \<open>simple-sdmmc-extended/src/sdmmc.rs\<close>).  Delay loops without an effect
  (\<open>for _ in 0..n { spin_loop() }\<close>) and log output are left out.
\<close>

section \<open>Card clock\<close>

definition IDENTIFICATION_CLOCK_DIVIDER :: u8 where "IDENTIFICATION_CLOCK_DIVIDER = 100"
definition DEFAULT_SPEED_CLOCK_DIVIDER :: u8 where "DEFAULT_SPEED_CLOCK_DIVIDER = 1"
definition VISIONFIVE2_SDIO_CIU_CLOCK_HZ :: nat where
  "VISIONFIVE2_SDIO_CIU_CLOCK_HZ = 49500000"

definition clkdiv_value :: "u8 \<Rightarrow> u32" where
  "clkdiv_value divider = with_field ClkDiv_layout ''clk_divider0'' (ucast divider) 0"

definition clkena_on :: u32 where
  "clkena_on = with_field ClkEna_layout ''cclk_enable'' 1 0"

definition read_clk_divider0 :: "env \<Rightarrow> world \<Rightarrow> u8 \<times> world" where
  "read_clk_divider0 E w =
     (let (c, w) = reg_read E CLKDIV w in (ucast (get_field ClkDiv_layout ''clk_divider0'' c), w))"

definition latch_clock :: "env \<Rightarrow> world \<Rightarrow> bool step" where
  "latch_clock E w = do {
     (r, w) \<leftarrow> send_cmd E ResetClock w;
     Some (case r of Inl _ \<Rightarrow> False | Inr _ \<Rightarrow> True, w)
   }"

definition program_card_clock_divider :: "env \<Rightarrow> u8 \<Rightarrow> world \<Rightarrow> bool step" where
  "program_card_clock_divider E divider w = do {
     (ok, w) \<leftarrow> latch_clock E (reg_write E CLKENA 0 w);
     if \<not> ok then Some (False, w)
     else do {
       (ok, w) \<leftarrow> latch_clock E (reg_write E CLKDIV (clkdiv_value divider) w);
       if \<not> ok then Some (False, w)
       else do {
         (ok, w) \<leftarrow> latch_clock E (reg_write E CLKENA clkena_on w);
         if \<not> ok then Some (False, w)
         else do {
           let (actual_divider, w) = read_clk_divider0 E w;
           let (e, w) = reg_read E CLKENA w;
           let clock_enabled = (get_field ClkEna_layout ''cclk_enable'' e AND 1 \<noteq> 0);
           Some (\<not> (actual_divider \<noteq> divider \<or> \<not> clock_enabled), w)
         }
       }
     }
   }"

definition controller_idle :: "env \<Rightarrow> world \<Rightarrow> bool \<times> world" where
  "controller_idle E w =
     (let (c, w) = can_send_cmd E w in
      if \<not> c then (False, w) else can_send_data E w)"

definition switch_card_clock_divider :: "env \<Rightarrow> u8 \<Rightarrow> world \<Rightarrow> bool step" where
  "switch_card_clock_divider E divider w = do {
     let (t, w) = monotonic_time E w;
     (timed_out, w) \<leftarrow> poll_deadline E (controller_idle E) (t + secs 1) w;
     if timed_out then Some (False, w)
     else do {
       let (previous_divider, w) = read_clk_divider0 E w;
       (ok, w) \<leftarrow> program_card_clock_divider E divider w;
       if ok then Some (True, w)
       else do {
         (_, w) \<leftarrow> program_card_clock_divider E previous_divider w;
         Some (False, w)
       }
     }
   }"

section \<open>Card identification\<close>

text \<open>One round of the ACMD41 loop; \<open>Some ocr\<close> ends it.\<close>

definition acmd41_attempt :: "env \<Rightarrow> world \<Rightarrow> u32 option step" where
  "acmd41_attempt E w = do {
     (r, w) \<leftarrow> send_cmd E (AppCmd 0) w;
     case r of
       Inl _ \<Rightarrow> Some (None, w)
     | Inr _ \<Rightarrow> do {
         (r, w) \<leftarrow> send_cmd E (SdSendOpCond 0x40FF8000) w;
         case r of
           Inl _ \<Rightarrow> Some (None, w)
         | Inr (resp, _) \<Rightarrow>
             Some (if fst resp AND 0x80000000 \<noteq> 0 then Some (fst resp) else None, w)
       }
   }"

partial_function (option) acmd41_loop :: "env \<Rightarrow> nat \<Rightarrow> world \<Rightarrow> (u32 option \<times> world) option" where
  "acmd41_loop E deadline w =
     (case monotonic_time E w of (t, w) \<Rightarrow>
        if t < deadline
        then Option.bind (acmd41_attempt E w) (\<lambda>(ready, w).
          case ready of
            Some ocr \<Rightarrow> Some (Some ocr, w)
          | None \<Rightarrow> acmd41_loop E deadline (log_ev (EvDelay (millis 10)) w))
        else Some (None, w))"

definition init_clock :: "env \<Rightarrow> world \<Rightarrow> unit sd_result step" where
  "init_clock E w = do {
     let (_, w) = clear_rintsts E w;
     (r, w) \<leftarrow> send_cmd E ResetClock (reg_write E CLKENA 0 w);
     case r of
       Inl e \<Rightarrow> Some (Inl e, w)
     | Inr _ \<Rightarrow> do {
         let w = reg_write E CLKDIV (clkdiv_value IDENTIFICATION_CLOCK_DIVIDER) w;
         (r, w) \<leftarrow> send_cmd E ResetClock (reg_write E CLKENA clkena_on w);
         case r of
           Inl e \<Rightarrow> Some (Inl e, w)
         | Inr _ \<Rightarrow> do {
             let w = reg_write E PWREN 1 w;
             let w = reg_write E CTYPE 0 w;
             let w = request_idmac_reset E w;
             (r, w) \<leftarrow> send_cmd E GoIdleState w;
             Some (map_sum id (\<lambda>_. ()) r, w)
           }
       }
   }"

definition init_voltage :: "env \<Rightarrow> world \<Rightarrow> unit sd_result step" where
  "init_voltage E w = do {
     (r, w) \<leftarrow> send_cmd E (SendIfCond 0x1aa) w;
     case r of
       Inl _ \<Rightarrow> Some (Inl UnsupportedCard, w)
     | Inr (if_cond, _) \<Rightarrow>
         if fst if_cond AND 0xfff \<noteq> 0x1aa then Some (Inl UnsupportedCard, w)
         else do {
           let (t, w) = monotonic_time E w;
           (ready_ocr, w) \<leftarrow> acmd41_loop E (t + secs 2) w;
           case ready_ocr of
             None \<Rightarrow> Some (Inl InitializationFailed, w)
           | Some ocr \<Rightarrow> do {
               let w = upd_sd (\<lambda>s. s\<lparr>ocr_ccs := (ocr AND 0x40000000 \<noteq> 0)\<rparr>) w;
               if \<not> ocr_ccs (sd w) then Some (Inl UnsupportedCard, w) else Some (Inr (), w)
             }
         }
   }"

definition rca_arg :: "world \<Rightarrow> u32" where
  "rca_arg w = push_bit 16 (ucast (rca (sd w)))"

definition init_address :: "env \<Rightarrow> world \<Rightarrow> unit sd_result step" where
  "init_address E w = do {
     (r, w) \<leftarrow> send_cmd E AllSendCid w;
     case r of
       Inl e \<Rightarrow> Some (Inl e, w)
     | Inr _ \<Rightarrow> do {
         (r, w) \<leftarrow> send_cmd E SendRelativeAddr w;
         case r of
           Inl e \<Rightarrow> Some (Inl e, w)
         | Inr (rca_response, _) \<Rightarrow> do {
             let r6_status = fst rca_response AND 0xffff;
             if r6_status AND 0xe000 \<noteq> 0 then Some (Inl InitializationFailed, w)
             else do {
               let w = upd_sd (\<lambda>s. s\<lparr>rca := ucast (drop_bit 16 (fst rca_response))\<rparr>) w;
               if rca (sd w) = 0 then Some (Inl InitializationFailed, w) else Some (Inr (), w)
             }
           }
       }
   }"

definition init_capacity :: "env \<Rightarrow> world \<Rightarrow> unit sd_result step" where
  "init_capacity E w = do {
     (r, w) \<leftarrow> send_cmd E (SendCsd (rca_arg w)) w;
     case r of
       Inl e \<Rightarrow> Some (Inl e, w)
     | Inr (csd_response, _) \<Rightarrow> do {
         let csd = resp_u128 csd_response;
         if csd_structure csd \<noteq> 1 then Some (Inl UnsupportedCard, w)
         else Some (Inr (), upd_sd (\<lambda>s. s\<lparr>num_blocks := csd_num_blocks csd\<rparr>) w)
       }
   }"

definition init_select :: "env \<Rightarrow> world \<Rightarrow> unit sd_result step" where
  "init_select E w = do {
     (r, w) \<leftarrow> send_cmd E (SelectCard (rca_arg w)) w;
     case r of
       Inl e \<Rightarrow> Some (Inl e, w)
     | Inr _ \<Rightarrow> do {
         (r, w) \<leftarrow> send_cmd E (AppCmd (rca_arg w)) w;
         case r of
           Inl e \<Rightarrow> Some (Inl e, w)
         | Inr _ \<Rightarrow> do {
             let w = set_transaction_size E 8 8 w;
             (_, w) \<leftarrow> send_cmd E (SendScr (replicate 512 0)) w;
             let (_, w) = clear_rintsts E w;
             (ok, w) \<leftarrow> switch_card_clock_divider E DEFAULT_SPEED_CLOCK_DIVIDER w;
             Some (if \<not> ok then Inl InitializationFailed else Inr (), w)
           }
       }
   }"

text \<open>Sequencing with \<open>?\<close>: an error ends the sequence.\<close>

definition and_then ::
  "'a sd_result step \<Rightarrow> (world \<Rightarrow> 'b sd_result step) \<Rightarrow> 'b sd_result step" where
  "and_then m f = do {
     (r, w) \<leftarrow> m;
     case r of Inl e \<Rightarrow> Some (Inl e, w) | Inr _ \<Rightarrow> f w
   }"

definition init :: "env \<Rightarrow> world \<Rightarrow> unit sd_result step" where
  "init E w =
     and_then (init_clock E w) (\<lambda>w.
     and_then (init_voltage E w) (\<lambda>w.
     and_then (init_address E w) (\<lambda>w.
     and_then (init_capacity E w) (\<lambda>w. init_select E w))))"

section \<open>Enabling the DMA engine\<close>

definition hcon_data_width :: "u32 \<Rightarrow> AHBDataWidth option" where
  "hcon_data_width hcon =
     (let v = get_field HCon_layout ''h_data_width'' hcon in
      if v = 0 then Some Bits16
      else if v = 1 then Some Bits32
      else if v = 2 then Some Bits64
      else None)"

definition clear_pending_before_enable :: "env \<Rightarrow> world \<Rightarrow> world" where
  "clear_pending_before_enable E w =
     (let (rintsts, w) = reg_read E RINTSTS w;
          (idsts, w) = reg_read E IDSTS w;
          w = (if RIntSts_error rintsts
                  \<or> get_flag RIntSts_layout ''auto_command_done'' rintsts
                  \<or> get_flag RIntSts_layout ''data_transfer_over'' rintsts
                  \<or> get_flag RIntSts_layout ''receive_fifo_data_request'' rintsts
                  \<or> get_flag RIntSts_layout ''transmit_fifo_data_request'' rintsts
               then reg_write E RINTSTS rintsts w else w)
      in if idsts_any idsts then clear_idsts E w else w)"

definition enable_bmod :: "env \<Rightarrow> world \<Rightarrow> bool \<times> world" where
  "enable_bmod E w =
     (let w = reg_update E BMOD
                (\<lambda>r. with_flag BMod_layout ''fb'' True
                       (with_field BMod_layout ''dsl'' 0 (with_flag BMod_layout ''de'' True r))) w;
          w = dma_io_fence w;
          (bmod, w) = reg_read E BMOD w;
          (_, w) = reg_read E IDSTS w
      in (\<not> (\<not> get_flag BMod_layout ''de'' bmod
             \<or> get_field BMod_layout ''dsl'' bmod \<noteq> 0
             \<or> \<not> get_flag BMod_layout ''fb'' bmod), w))"

definition enable_ctrl :: "env \<Rightarrow> world \<Rightarrow> bool \<times> world" where
  "enable_ctrl E w =
     (let w = reg_update E CTRL
                (\<lambda>r. with_flag Ctrl_layout ''int_enable'' True
                       (with_flag Ctrl_layout ''use_internal_dmac'' True r)) w;
          w = dma_io_fence w;
          (ctrl, w) = reg_read E CTRL w;
          (idsts, w) = reg_read E IDSTS w
      in (\<not> (\<not> get_flag Ctrl_layout ''use_internal_dmac'' ctrl
             \<or> \<not> get_flag Ctrl_layout ''int_enable'' ctrl)
          \<and> \<not> (get_flag IdSts_layout ''du'' idsts \<or> get_flag IdSts_layout ''fbe'' idsts
               \<or> get_flag IdSts_layout ''ais'' idsts), w))"

definition idinten_value :: u32 where
  "idinten_value =
     set_flags IdIntEn_layout [''ai'', ''ni'', ''ces'', ''du'', ''fbe'', ''ri'', ''ti''] 0"

definition enable_interrupts :: "env \<Rightarrow> world \<Rightarrow> world" where
  "enable_interrupts E w =
     (let w = reg_write E IDINTEN idinten_value w;
          w = reg_write E INTMASK idmac_controller_interrupt_mask w;
          (_, w) = reg_read E IDINTEN w;
          (_, w) = reg_read E INTMASK w;
          (_, w) = reg_read E IDSTS w
      in w)"

definition call_register_irq :: "env \<Rightarrow> world \<Rightarrow> bool \<times> world" where
  "call_register_irq E w =
     (let b = register_irq_val E (hist w) in (b, log_ev (EvRegisterIrq b) w))"

definition enable_after_alloc :: "env \<Rightarrow> world \<Rightarrow> unit step" where
  "enable_after_alloc E w =
     (let (registered, w) = call_register_irq E w in
      if \<not> registered then disable_idmac_after_enable_failure E w
      else
        let w = clear_pending_before_enable E w;
            (bmod_ok, w) = enable_bmod E w
        in if \<not> bmod_ok then disable_idmac_after_enable_failure E w
           else
             let (ctrl_ok, w) = enable_ctrl E w in
             if \<not> ctrl_ok then disable_idmac_after_enable_failure E w
             else Some ((), enable_interrupts E w))"

definition allocate_dma_buffer :: "env \<Rightarrow> nat \<Rightarrow> AHBDataWidth \<Rightarrow> world \<Rightarrow> unit step" where
  "allocate_dma_buffer E size_req hardware_data_width w =
     (case Layout_from_size_align size_req (align_value hardware_data_width) of
        None \<Rightarrow> Some ((), w)
      | Some l \<Rightarrow>
          (case alloc_coherent E l w of
             (None, w) \<Rightarrow> Some ((), w)
           | (Some info, w) \<Rightarrow>
               enable_after_alloc E
                 (upd_sd (\<lambda>s. s\<lparr>dma_buffer :=
                    Some \<lparr>buf_info = info, buf_size = size_req\<rparr>\<rparr>) w)))"

definition mask_interrupts :: "env \<Rightarrow> world \<Rightarrow> world" where
  "mask_interrupts E w =
     (let w = reg_write E INTMASK 0 w;
          w = reg_write E IDINTEN 0 w;
          w = reg_update E CTRL (with_flag Ctrl_layout ''int_enable'' False) w
      in dma_io_fence w)"

definition try_enable_idmac :: "env \<Rightarrow> nat \<Rightarrow> world \<Rightarrow> unit step" where
  "try_enable_idmac E size_req w = do {
     let w = mask_interrupts E w;
     let (hcon, w) = reg_read E HCON w;
     case hcon_data_width hcon of
       None \<Rightarrow> Some ((), w)
     | Some hardware_data_width \<Rightarrow> do {
         let w = upd_sd (\<lambda>s. s\<lparr>ahb_data_width := hardware_data_width\<rparr>) w;
         (ok, w) \<leftarrow> reset_idmac E w;
         if \<not> ok then Some ((), upd_sd (\<lambda>s. s\<lparr>idmac_faulted := True\<rparr>) w)
         else allocate_dma_buffer E size_req hardware_data_width w
       }
   }"

section \<open>Construction and destruction\<close>

definition SdMmc_empty :: SdMmc where
  "SdMmc_empty =
     \<lparr>num_blocks = 0, rca = 0, ocr_ccs = False, ahb_data_width = Bits32, dma_buffer = None,
      idmac_faulted = False, idmac_reset_failed = False\<rparr>"

definition SdMmc_drop :: "world \<Rightarrow> world" where
  "SdMmc_drop w = (if idmac_reset_failed (sd w) then w else release_dma_buffer w)"

definition SdMmc_new :: "env \<Rightarrow> u64 \<Rightarrow> world \<Rightarrow> unit sd_result step" where
  "SdMmc_new E base w = do {
     let w = w\<lparr>sd := SdMmc_empty\<rparr>;
     (r, w) \<leftarrow> init E w;
     case r of
       Inl e \<Rightarrow> Some (Inl e, SdMmc_drop w)
     | Inr _ \<Rightarrow> do {
         let w = (let w = atomic E w
                  in w\<lparr>statics := (statics w)\<lparr>SDMMC_REGS_BASE := base\<rparr>\<rparr>);
         (_, w) \<leftarrow> try_enable_idmac E DMA_BUFFER_SIZE w;
         Some (Inr (), w)
       }
   }"

definition relative_card_address :: "SdMmc \<Rightarrow> u16" where
  "relative_card_address s = rca s"

definition is_high_capacity :: "SdMmc \<Rightarrow> bool" where
  "is_high_capacity s = ocr_ccs s"

section \<open>Frame properties\<close>

lemma send_cmd_frame: "send_cmd E c w = Some (r, w') \<Longrightarrow> calm w w'"
  by (simp add: send_cmd_def send_cmd_calm)

lemma acmd41_attempt_frame: "acmd41_attempt E w = Some (r, w') \<Longrightarrow> calm w w'"
  by (auto simp: acmd41_attempt_def split: bind_splits sum.splits prod.splits
      dest!: send_cmd_frame intro: calm_trans)

lemma acmd41_loop_frame:
  assumes "acmd41_loop E d w = Some (r, w')"
  shows "calm w w'"
proof -
  have "calm w (snd (r, w'))"
  proof (rule acmd41_loop.raw_induct [OF _ assms, where P = "\<lambda>E d w y. calm w (snd y)"])
    fix f E d w y
    assume IH: "\<And>E d w y. f E d w = Some y \<Longrightarrow> calm w (snd y)"
      and eq: "(case monotonic_time E w of (t, w) \<Rightarrow>
        if t < d then acmd41_attempt E w \<bind> (\<lambda>(ready, w). case ready of
            None \<Rightarrow> f E d (log_ev (EvDelay (millis 10)) w) | Some ocr \<Rightarrow> Some (Some ocr, w))
        else Some (None, w)) = Some y"
    then show "calm w (snd y)"
      by (auto simp: calm_def split: prod.splits if_splits bind_splits option.splits
          dest!: time_quiet quietD acmd41_attempt_frame IH [THEN calmD] calmD)
  qed
  then show ?thesis by simp
qed

lemma controller_idle_quiet: "controller_idle E w = (b, w') \<Longrightarrow> quiet w w'"
  by (auto simp: controller_idle_def split: prod.splits if_splits
      dest!: can_send_cmd_quiet can_send_data_quiet intro: quiet_trans)

interpretation cidle: polled E "controller_idle E" for E
  by unfold_locales (rule controller_idle_quiet)

lemma read_clk_divider0_quiet: "read_clk_divider0 E w = (d, w') \<Longrightarrow> quiet w w'"
  by (auto simp: read_clk_divider0_def split: prod.splits dest: reg_read_quiet)

section \<open>Clock programming\<close>

text \<open>The CMD value that latches the clock registers, and the protocol around it.\<close>

definition latch_events :: "event list" where
  "latch_events = [EvWrite CMD (fst (build ResetClock)), EvWrite CMDARG 0]"

definition clock_protocol :: "u8 \<Rightarrow> event list" where
  "clock_protocol divider =
     latch_events @ EvWrite CLKENA clkena_on #
     latch_events @ EvWrite CLKDIV (clkdiv_value divider) #
     latch_events @ [EvWrite CLKENA 0]"

lemma latch_clock_frame:
  assumes "latch_clock E w = Some (ok, w')"
  shows "sd w' = sd w \<and> (trace w' = latch_events @ trace w \<or> \<not> ok \<and> trace w' = trace w)"
proof -
  have b: "build ResetClock = (fst (build ResetClock), 0, None)"
    by (simp add: build_def Let_def)
  show ?thesis
    using assms
    by (auto simp: latch_clock_def send_cmd_def latch_events_def split: bind_splits sum.splits
        dest!: data_free_command [OF b])
qed

lemma program_clock_frame:
  assumes "program_card_clock_divider E divider w = Some (ok, w')"
  shows "sd w' = sd w \<and> (\<exists>es. trace w' = es @ trace w \<and> suffix es (clock_protocol divider)
    \<and> (ok \<longrightarrow> es = clock_protocol divider))"
  using assms
  by (auto simp: program_card_clock_divider_def Let_def clock_protocol_def latch_events_def
      split: bind_splits prod.splits if_splits
      dest!: latch_clock_frame read_clk_divider0_quiet reg_read_quiet quietD
      intro!: suffix_ConsI)

lemma switch_clock_frame:
  assumes "switch_card_clock_divider E divider w = Some (ok, w')"
  shows "calm w w'"
proof -
  have p: "program_card_clock_divider E v x = Some (b, x') \<Longrightarrow> calm x x'" for v x b x'
  proof -
    assume "program_card_clock_divider E v x = Some (b, x')"
    then obtain es where es: "sd x' = sd x" "trace x' = es @ trace x" "suffix es (clock_protocol v)"
      using program_clock_frame by blast
    have "\<forall>e\<in>set (clock_protocol v). \<not> mem_ev e"
      by (simp add: clock_protocol_def latch_events_def)
    with set_mono_suffix [OF es(3)] have "list_all (\<lambda>e. \<not> mem_ev e) es"
      by (auto simp: list_all_iff)
    with es show "calm x x'" by (simp add: calm_def live_append_neutral)
  qed
  show ?thesis
    using assms
    by (auto simp: switch_card_clock_divider_def Let_def calm_def
        split: prod.splits if_splits bind_splits
        dest!: time_quiet cidle.poll_quiet read_clk_divider0_quiet quietD p calmD)
qed

section \<open>Initialisation\<close>

text \<open>What initialisation may change: the card's identity and size.\<close>

definition same_dma :: "world \<Rightarrow> world \<Rightarrow> bool" where
  "same_dma w w' \<longleftrightarrow>
     dma_buffer (sd w') = dma_buffer (sd w) \<and> ahb_data_width (sd w') = ahb_data_width (sd w)
     \<and> idmac_faulted (sd w') = idmac_faulted (sd w)
     \<and> idmac_reset_failed (sd w') = idmac_reset_failed (sd w)
     \<and> live (trace w') = live (trace w)"

lemma reg_update_calm: "calm w (reg_update E r f w)"
  by (auto simp: reg_update_def calm_def split: prod.splits dest!: reg_read_quiet quietD)

lemma request_idmac_reset_calm: "calm w (request_idmac_reset E w)"
  by (simp add: request_idmac_reset_def Let_def calm_def calmD [OF reg_update_calm])

lemma set_transaction_size_calm: "calm w (set_transaction_size E b n w)"
  by (simp add: set_transaction_size_def calm_def calmD [OF reg_update_calm])

lemmas calm_ops [simp] =
  calmD [OF reg_update_calm] calmD [OF request_idmac_reset_calm]
  calmD [OF set_transaction_size_calm]

lemma init_clock_frame: "init_clock E w = Some (r, w') \<Longrightarrow> calm w w'"
  by (auto simp: init_clock_def Let_def calm_def split: prod.splits bind_splits sum.splits
      dest!: clear_rintsts_quiet quietD send_cmd_frame calmD)

lemma init_voltage_ok:
  "init_voltage E w = Some (r, w') \<Longrightarrow>
     same_dma w w' \<and> rca (sd w') = rca (sd w) \<and> num_blocks (sd w') = num_blocks (sd w)
     \<and> (r = Inr () \<longrightarrow> ocr_ccs (sd w'))"
  by (auto simp: init_voltage_def Let_def same_dma_def
      split: prod.splits bind_splits sum.splits if_splits option.splits
      dest!: time_quiet quietD send_cmd_frame acmd41_loop_frame calmD)

lemma init_address_ok:
  "init_address E w = Some (r, w') \<Longrightarrow>
     same_dma w w' \<and> ocr_ccs (sd w') = ocr_ccs (sd w) \<and> num_blocks (sd w') = num_blocks (sd w)
     \<and> (r = Inr () \<longrightarrow> rca (sd w') \<noteq> 0)"
  by (auto simp: init_address_def Let_def same_dma_def
      split: prod.splits bind_splits sum.splits if_splits option.splits
      dest!: send_cmd_frame calmD)

lemma init_capacity_ok:
  "init_capacity E w = Some (r, w') \<Longrightarrow>
     same_dma w w' \<and> ocr_ccs (sd w') = ocr_ccs (sd w) \<and> rca (sd w') = rca (sd w)
     \<and> (r = Inr () \<longrightarrow> (\<exists>csd. csd_structure csd = 1 \<and> num_blocks (sd w') = csd_num_blocks csd))"
  by (auto simp: init_capacity_def Let_def same_dma_def
      split: prod.splits bind_splits sum.splits if_splits option.splits
      dest!: send_cmd_frame calmD)

lemma init_select_frame: "init_select E w = Some (r, w') \<Longrightarrow> calm w w'"
  by (auto simp: init_select_def Let_def calm_def
      split: prod.splits bind_splits sum.splits if_splits
      dest!: send_cmd_frame clear_rintsts_quiet quietD switch_clock_frame calmD)

lemma and_thenE:
  assumes "and_then m f = Some (r, w')"
  obtains e where "m = Some (Inl e, w')" "r = Inl e"
  | a w1 where "m = Some (Inr a, w1)" "f w1 = Some (r, w')"
  using assms by (auto simp: and_then_def split: bind_splits sum.splits)

lemma same_dma_trans: "same_dma w1 w2 \<Longrightarrow> same_dma w2 w3 \<Longrightarrow> same_dma w1 w3"
  by (simp add: same_dma_def)

lemma same_dma_calm: "calm w w' \<Longrightarrow> same_dma w w'"
  by (simp add: same_dma_def calm_def)

lemma init_frame:
  assumes "init E w = Some (r, w')"
  shows "same_dma w w' \<and> (r = Inr () \<longrightarrow> ocr_ccs (sd w') \<and> rca (sd w') \<noteq> 0
    \<and> (\<exists>csd. csd_structure csd = 1 \<and> num_blocks (sd w') = csd_num_blocks csd))"
proof -
  note d = init_clock_frame [THEN same_dma_calm] init_voltage_ok init_address_ok init_capacity_ok
  show ?thesis
    using assms unfolding init_def
    by (elim and_thenE)
      (auto dest!: d init_select_frame simp: same_dma_def calm_def)
qed

section \<open>The bounce buffer\<close>

text \<open>
  Memory safety of the driver: what is alive is the bounce buffer, with the layout it
  will be released with, below descriptor tables kept back after a failed reset.
\<close>

definition buffer_live :: "SdMmc \<Rightarrow> (DMAInfo \<times> mem_layout) list" where
  "buffer_live s =
     (case dma_buffer s of
        None \<Rightarrow> []
      | Some b \<Rightarrow> [(buf_info b, (buf_size b, align_value (ahb_data_width s)))])"

definition mem_inv :: "world \<Rightarrow> bool" where
  "mem_inv w \<longleftrightarrow>
     (\<exists>kept. live (trace w) = Some (kept @ buffer_live (sd w))
        \<and> (kept \<noteq> [] \<longrightarrow> idmac_reset_failed (sd w)))
     \<and> (\<forall>b. dma_buffer (sd w) = Some b \<longrightarrow>
          Layout_from_size_align (buf_size b) (align_value (ahb_data_width (sd w)))
            = Some (buf_size b, align_value (ahb_data_width (sd w))))"

lemma mem_inv_calm: "calm w w' \<Longrightarrow> mem_inv w \<Longrightarrow> mem_inv w'"
  by (simp add: mem_inv_def calm_def)

lemma buffer_live_fault [simp]:
  "buffer_live (s\<lparr>idmac_faulted := a\<rparr>) = buffer_live s"
  "buffer_live (s\<lparr>idmac_faulted := a, idmac_reset_failed := b\<rparr>) = buffer_live s"
  by (simp_all add: buffer_live_def split: option.split)

lemma mem_inv_fault:
  "mem_inv w \<Longrightarrow> mem_inv (upd_sd (\<lambda>s. s\<lparr>idmac_faulted := True, idmac_reset_failed := True\<rparr>) w)"
  by (auto simp: mem_inv_def)

lemma Layout_Some: "Layout_from_size_align sz a = Some l \<Longrightarrow> l = (sz, a)"
  by (simp add: Layout_from_size_align_def split: if_splits)

lemma release_dma_buffer_inv:
  assumes "mem_inv w" "\<not> idmac_reset_failed (sd w)"
  shows "live (trace (release_dma_buffer w)) = Some []"
    and "sd (release_dma_buffer w) = (sd w)\<lparr>dma_buffer := None\<rparr>"
    and "mem_inv (release_dma_buffer w)"
  using assms
  by (auto simp: release_dma_buffer_def mem_inv_def buffer_live_def
      split: option.splits)

lemma reset_idmac_calm: "reset_idmac E w = Some (ok, w') \<Longrightarrow> calm w w'"
  by (auto simp: calm_def dest!: reset_idmac_frame)

lemma disable_after_failure:
  assumes "disable_idmac_after_enable_failure E w = Some (u, w')"
    and "mem_inv w" "\<not> idmac_reset_failed (sd w)"
  shows "mem_inv w' \<and> (idmac_reset_failed (sd w') \<longrightarrow> idmac_faulted (sd w'))"
proof -
  let ?x = "dma_io_fence (reg_update E CTRL
               (\<lambda>r. with_flag Ctrl_layout ''use_internal_dmac'' False
                      (with_flag Ctrl_layout ''int_enable'' False r))
               (reg_write E IDINTEN 0 (reg_write E INTMASK 0 w)))"
  from assms(1) obtain ok w1 where x: "reset_idmac E ?x = Some (ok, w1)" and
    w': "w' = (if \<not> ok then upd_sd (\<lambda>s. s\<lparr>idmac_faulted := True, idmac_reset_failed := True\<rparr>) w1
               else release_dma_buffer w1)"
    by (auto simp: disable_idmac_after_enable_failure_def Let_def split: bind_splits if_splits)
  from reset_idmac_calm [OF x] have r: "calm w w1" by (simp add: calm_def)
  from r assms have "mem_inv w1" "\<not> idmac_reset_failed (sd w1)"
    using mem_inv_calm by (blast, simp add: calm_def)
  with w' show ?thesis
    by (cases ok) (simp_all add: release_dma_buffer_inv mem_inv_fault)
qed

lemma enable_steps_calm:
  "calm w (clear_pending_before_enable E w)"
  "enable_bmod E w = (b, w') \<Longrightarrow> calm w w'"
  "enable_ctrl E w = (b, w') \<Longrightarrow> calm w w'"
  "calm w (enable_interrupts E w)"
  "call_register_irq E w = (b, w') \<Longrightarrow> calm w w'"
proof -
  show "calm w (clear_pending_before_enable E w)"
    by (auto simp: clear_pending_before_enable_def Let_def calm_def split: prod.splits
        dest!: reg_read_quiet quietD
        simp: quiet_sd [OF clear_idsts_quiet [OF quiet_refl]]
          quiet_trace [OF clear_idsts_quiet [OF quiet_refl]])
  show "calm w (enable_interrupts E w)"
    by (auto simp: enable_interrupts_def Let_def calm_def split: prod.splits
        dest!: reg_read_quiet quietD)
qed (auto simp: enable_bmod_def enable_ctrl_def call_register_irq_def Let_def calm_def
      split: prod.splits dest!: reg_read_quiet quietD)

lemma enable_after_alloc_inv:
  assumes "enable_after_alloc E w = Some (u, w')"
    and "mem_inv w" "\<not> idmac_reset_failed (sd w)"
  shows "mem_inv w' \<and> (idmac_reset_failed (sd w') \<longrightarrow> idmac_faulted (sd w'))"
proof -
  obtain b1 w1 where 1: "call_register_irq E w = (b1, w1)" by fastforce
  define w2 where "w2 = clear_pending_before_enable E w1"
  obtain b3 w3 where 3: "enable_bmod E w2 = (b3, w3)" by fastforce
  obtain b4 w4 where 4: "enable_ctrl E w3 = (b4, w4)" by fastforce
  have c: "calm w w1" "calm w w3" "calm w w4" "calm w (enable_interrupts E w4)"
    using enable_steps_calm(5) [OF 1] enable_steps_calm(1) [of w1 E] enable_steps_calm(2) [OF 3]
      enable_steps_calm(3) [OF 4] enable_steps_calm(4) [of w4 E] w2_def
    by (simp_all add: calm_def)
  have fail: "mem_inv w' \<and> (idmac_reset_failed (sd w') \<longrightarrow> idmac_faulted (sd w'))"
    if "disable_idmac_after_enable_failure E x = Some (u, w')" "calm w x" for x
    using disable_after_failure [OF that(1) mem_inv_calm [OF that(2) assms(2)]] that(2) assms(3)
    by (simp add: calm_def)
  show ?thesis
    using assms(1,3) c 1 3 4 mem_inv_calm [OF c(4) assms(2)] fail calmD [OF c(4)]
    by (simp add: enable_after_alloc_def Let_def w2_def [symmetric] split: if_splits)
qed

lemma allocate_inv:
  assumes "allocate_dma_buffer E n hw w = Some (u, w')" "ahb_data_width (sd w) = hw"
    and "dma_buffer (sd w) = None" "live (trace w) = Some []" "\<not> idmac_reset_failed (sd w)"
  shows "mem_inv w' \<and> (idmac_reset_failed (sd w') \<longrightarrow> idmac_faulted (sd w'))"
proof -
  consider "w' = w" | l where "alloc_coherent E l w = (None, w')"
    | l info w1 where "Layout_from_size_align n (align_value hw) = Some l"
        "alloc_coherent E l w = (Some info, w1)"
        "enable_after_alloc E (upd_sd (\<lambda>s. s\<lparr>dma_buffer :=
           Some \<lparr>buf_info = info, buf_size = n\<rparr>\<rparr>) w1) = Some (u, w')"
    using assms(1) by (auto simp: allocate_dma_buffer_def split: option.splits prod.splits)
  then show ?thesis
  proof cases
    case (3 l info w1)
    let ?w = "upd_sd (\<lambda>s. s\<lparr>dma_buffer := Some \<lparr>buf_info = info, buf_size = n\<rparr>\<rparr>) w1"
    from alloc_trace [OF 3(2)] assms Layout_Some [OF 3(1)] 3(1)
    have "mem_inv ?w" "\<not> idmac_reset_failed (sd ?w)"
      by (auto simp: mem_inv_def buffer_live_def)
    from enable_after_alloc_inv [OF 3(3) this] show ?thesis .
  qed (use assms in \<open>auto simp: mem_inv_def buffer_live_def dest!: alloc_trace\<close>)
qed

lemma mask_interrupts_calm: "calm w (mask_interrupts E w)"
  by (simp add: mask_interrupts_def Let_def calm_def)

lemma try_enable_inv:
  assumes "try_enable_idmac E n w = Some (u, w')"
    and "dma_buffer (sd w) = None" "live (trace w) = Some []" "\<not> idmac_reset_failed (sd w)"
  shows "mem_inv w' \<and> (idmac_reset_failed (sd w') \<longrightarrow> idmac_faulted (sd w'))"
proof -
  obtain hcon w2 where h: "reg_read E HCON (mask_interrupts E w) = (hcon, w2)" by fastforce
  have "calm w w2"
    using mask_interrupts_calm calm_quiet [OF reg_read_quiet [OF h]] by (rule calm_trans)
  then have s2: "dma_buffer (sd w2) = None" "live (trace w2) = Some []"
    "\<not> idmac_reset_failed (sd w2)" using assms(2-4) by (simp_all add: calm_def)
  show ?thesis
  proof (cases "hcon_data_width hcon")
    case None
    with assms(1) h s2 show ?thesis
      by (auto simp: try_enable_idmac_def mem_inv_def buffer_live_def)
  next
    case (Some hw)
    let ?w3 = "upd_sd (\<lambda>s. s\<lparr>ahb_data_width := hw\<rparr>) w2"
    from Some assms(1) h obtain ok w4 where r: "reset_idmac E ?w3 = Some (ok, w4)"
      and w': "if ok then allocate_dma_buffer E n hw w4 = Some (u, w')
               else w' = upd_sd (\<lambda>s. s\<lparr>idmac_faulted := True\<rparr>) w4"
      by (auto simp: try_enable_idmac_def Let_def split: bind_splits if_splits)
    from calmD [OF reset_idmac_calm [OF r]] s2
    have "dma_buffer (sd w4) = None" "live (trace w4) = Some []"
      "\<not> idmac_reset_failed (sd w4)" "ahb_data_width (sd w4) = hw" by simp_all
    then show ?thesis
      using w' allocate_inv by (cases ok) (auto simp: mem_inv_def buffer_live_def)
  qed
qed

lemma SdMmc_new_inv:
  assumes "SdMmc_new E base w = Some (r, w')" "live (trace w) = Some []"
  shows "mem_inv w' \<and> (idmac_reset_failed (sd w') \<longrightarrow> idmac_faulted (sd w'))
    \<and> (case r of Inl _ \<Rightarrow> live (trace w') = Some []
       | Inr _ \<Rightarrow> True)"
proof -
  let ?w = "w\<lparr>sd := SdMmc_empty\<rparr>"
  from assms(1) obtain r1 w1 where i: "init E ?w = Some (r1, w1)"
    by (auto simp: SdMmc_new_def split: bind_splits)
  have s: "dma_buffer (sd w1) = None" "\<not> idmac_reset_failed (sd w1)" "live (trace w1) = Some []"
    using init_frame [OF i] assms(2) by (auto simp: same_dma_def SdMmc_empty_def)
  show ?thesis
  proof (cases r1)
    case (Inl e)
    with assms(1) i s show ?thesis
      by (auto simp: SdMmc_new_def SdMmc_drop_def release_dma_buffer_def mem_inv_def
          buffer_live_def)
  next
    case (Inr u)
    let ?x = "(atomic E w1)\<lparr>statics := (statics (atomic E w1))\<lparr>SDMMC_REGS_BASE := base\<rparr>\<rparr>"
    from Inr assms(1) i obtain v where e: "try_enable_idmac E DMA_BUFFER_SIZE ?x = Some (v, w')"
      and r: "r = Inr ()"
      by (auto simp: SdMmc_new_def Let_def split: bind_splits)
    from try_enable_inv [OF e] s r show ?thesis by simp
  qed
qed

section \<open>A run in the simulated environment\<close>

lemma sim_cond:
  "can_send_cmd (sim_env m) w = (True, log_ev (EvRead CMD 0) w)"
  "can_send_data (sim_env m) w = (True, log_ev (EvRead STATUS 0) w)"
  "command_finished (sim_env m) w = (True, log_ev (EvRead RINTSTS 0x400C) w)"
  "clear_rintsts (sim_env m) w = (0x400C, log_ev (EvWrite RINTSTS 0x400C) (log_ev (EvRead RINTSTS 0x400C) w))"
  by (simp_all add: can_send_cmd_def can_send_data_def command_finished_def clear_rintsts_def
      sim_access sim_flags)

lemma sim_poll: "cond w = (True, w1) \<Longrightarrow> poll_deadline E cond d w = Some (False, w1)"
  by (simp add: poll_deadline.simps)

lemma sim_spin: "spin_can_send_cmd (sim_env m) d c w = log_ev (EvRead CMD 0) w"
  by (subst spin_can_send_cmd.simps) (simp add: sim_cond)

definition same_clock :: "world \<Rightarrow> world \<Rightarrow> bool" where
  "same_clock w w' \<longleftrightarrow> last_write CLKDIV (hist w') = last_write CLKDIV (hist w)
     \<and> last_write CLKENA (hist w') = last_write CLKENA (hist w)"

lemma sim_submit:
  "\<exists>w'. send_cmd_submit (sim_env m) cmd arg d w = Some (Inr (), w')
     \<and> last_write CMD (hist w') = cmd \<and> same_clock w w'"
  by (simp add: send_cmd_submit_def sim_spin sim_cond sim_access wait_until.simps same_clock_def
      Let_def)

lemma sim_complete:
  "\<exists>w'. send_cmd_complete (sim_env m) b d w = Some (Inr (), w')
     \<and> last_write CMD (hist w') = last_write CMD (hist w) \<and> same_clock w w'"
  by (simp add: send_cmd_complete_def sim_cond sim_access sim_poll sim_flags same_clock_def)

lemma sim_data:
  "\<exists>w' data. send_cmd_data (sim_env m) b d x w = Some ((False, data), w')
     \<and> last_write CMD (hist w') = last_write CMD (hist w) \<and> same_clock w w'"
  by (cases x)
    (auto simp add: send_cmd_data_def sim_cond sim_access sim_poll sim_flags same_clock_def
      pio_transfer_def wait_until.simps pio_read_poll_def pio_write_poll_def
      split: DataXfer.splits)

lemma r1_920: "\<not> has_error 0x920" "r1_app_cmd 0x920"
  by (simp_all add: has_error_def error_bits_def ERROR_MASK_def r1_app_cmd_def r1_bit_def)

lemma sim_resp_r1: "has_r1_response c \<Longrightarrow> fst (sim_resp (fst (build c))) = 0x920"
  by (cases c) (simp_all add: sim_resp_def build_index)

lemma sim_send:
  "\<exists>w' data. send_cmd (sim_env m) c w = Some (Inr (sim_resp (fst (build c)), data), w')
     \<and> same_clock w w' \<and> sd w' = sd w"
proof -
  obtain cmd arg x where b: "build c = (cmd, arg, x)" using prod_cases3 by blast
  obtain w1 where 1: "send_cmd_submit (sim_env m) cmd arg None w = Some (Inr (), w1)"
    "last_write CMD (hist w1) = cmd" "same_clock w w1" using sim_submit by blast
  obtain w2 where 2: "send_cmd_complete (sim_env m) (c = ResetClock) None w1 = Some (Inr (), w2)"
    "last_write CMD (hist w2) = cmd" "same_clock w1 w2" using sim_complete 1(2) by metis
  obtain w3 data where 3: "send_cmd_data (sim_env m)
      (case c of SelectCard _ \<Rightarrow> True | _ \<Rightarrow> False) None x w2 = Some ((False, data), w3)"
    "last_write CMD (hist w3) = cmd" "same_clock w2 w3" using sim_data 2(2) by metis
  let ?w4 = "snd (send_cmd_result (sim_env m) False (has_r1_response c)
    (requires_app_cmd_accepted c) data w3)"
  from sim_resp_r1 [of c] b 3(2) have
    4: "send_cmd_result (sim_env m) False (has_r1_response c) (requires_app_cmd_accepted c) data w3
      = (Inr (sim_resp cmd, data), ?w4)" "same_clock w3 ?w4"
    by (auto simp: send_cmd_result_def sim_access sim_cond sim_flags validate_r1_response_def
        r1_920 same_clock_def)
  from b 1 2 3 4 have "send_cmd (sim_env m) c w = Some (Inr (sim_resp cmd, data), ?w4)"
    by (simp add: send_cmd_def send_cmd_with_deadline_def)
  moreover from this have "sd ?w4 = sd w" using send_cmd_frame calmD by blast
  moreover have "same_clock w ?w4" using 1 2 3 4 by (simp add: same_clock_def)
  ultimately show ?thesis using b by auto
qed

lemma sim_init_clock: "\<exists>w'. init_clock (sim_env m) w = Some (Inr (), w')"
proof -
  let ?E = "sim_env m"
  obtain w1 d1 where 1: "send_cmd ?E ResetClock (reg_write ?E CLKENA 0 (snd (clear_rintsts ?E w)))
      = Some (Inr (sim_resp (fst (build ResetClock)), d1), w1)" using sim_send by blast
  obtain w2 d2 where 2: "send_cmd ?E ResetClock (reg_write ?E CLKENA clkena_on
      (reg_write ?E CLKDIV (clkdiv_value IDENTIFICATION_CLOCK_DIVIDER) w1))
      = Some (Inr (sim_resp (fst (build ResetClock)), d2), w2)" using sim_send by blast
  obtain w3 d3 where 3: "send_cmd ?E GoIdleState (request_idmac_reset ?E (reg_write ?E CTYPE 0
      (reg_write ?E PWREN 1 w2))) = Some (Inr (sim_resp (fst (build GoIdleState)), d3), w3)"
    using sim_send by blast
  from 1 2 3 show ?thesis by (simp add: init_clock_def split_beta)
qed

lemma sim_resp_values:
  "sim_resp (fst (build (SendIfCond a))) = (0x1AA, 0, 0, 0)"
  "sim_resp (fst (build (SdSendOpCond a))) = (0xC0FF8000, 0, 0, 0)"
  "sim_resp (fst (build SendRelativeAddr)) = (0x00010500, 0, 0, 0)"
  "sim_resp (fst (build (SendCsd a))) = (0, 0x00FF0000, 0, 0x40000000)"
  by (simp_all add: sim_resp_def build_index)

lemma sim_init_voltage: "\<exists>w'. init_voltage (sim_env m) w = Some (Inr (), w')"
proof -
  let ?E = "sim_env m"
  obtain w1 d1 where 1: "send_cmd ?E (SendIfCond 0x1aa) w = Some (Inr ((0x1AA, 0, 0, 0), d1), w1)"
    using sim_send [of m "SendIfCond 0x1aa"] sim_resp_values by metis
  define w2 where "w2 = log_ev (EvTime (length (hist w1))) w1"
  define w3 where "w3 = log_ev (EvTime (length (hist w2))) w2"
  obtain w4 r4 d4 where 4: "send_cmd ?E (AppCmd 0) w3 = Some (Inr (r4, d4), w4)"
    using sim_send by blast
  obtain w5 d5 where 5: "send_cmd ?E (SdSendOpCond 0x40FF8000) w4
      = Some (Inr ((0xC0FF8000, 0, 0, 0), d5), w5)"
    using sim_send [of m "SdSendOpCond 0x40FF8000"] sim_resp_values by metis
  have "acmd41_loop ?E (length (hist w1) + secs 2) w2 = Some (Some 0xC0FF8000, w5)"
    using 4 5 by (subst acmd41_loop.simps)
      (simp add: sim_access acmd41_attempt_def w3_def w2_def secs_def)
  with 1 show ?thesis by (simp add: init_voltage_def sim_access w2_def)
qed

lemma sim_init_address: "\<exists>w'. init_address (sim_env m) w = Some (Inr (), w') \<and> sd w' = (sd w)\<lparr>rca := 1\<rparr>"
proof -
  obtain w1 r1 d1 where 1: "send_cmd (sim_env m) AllSendCid w = Some (Inr (r1, d1), w1)" "sd w1 = sd w"
    using sim_send by metis
  obtain w2 d2 where 2: "send_cmd (sim_env m) SendRelativeAddr w1
      = Some (Inr ((0x00010500, 0, 0, 0), d2), w2)" "sd w2 = sd w1"
    using sim_send [of m SendRelativeAddr] sim_resp_values by metis
  from 1 2 show ?thesis by (simp add: init_address_def)
qed

lemma sim_csd:
  "csd_structure (resp_u128 (0, 0x00FF0000, 0, 0x40000000)) = 1"
  by (simp add: csd_structure_def resp_u128.simps CsdV2_fields get_bits_def)

lemma sim_init_capacity: "\<exists>w'. init_capacity (sim_env m) w = Some (Inr (), w')"
proof -
  obtain w1 d1 where "send_cmd (sim_env m) (SendCsd (rca_arg w)) w
      = Some (Inr ((0, 0x00FF0000, 0, 0x40000000), d1), w1)"
    using sim_send [of m "SendCsd (rca_arg w)"] sim_resp_values by metis
  with sim_csd show ?thesis by (simp add: init_capacity_def)
qed

lemma sim_latch:
  "\<exists>w'. latch_clock (sim_env m) w = Some (True, w') \<and> same_clock w w'"
  using sim_send [of m ResetClock w] by (auto simp: latch_clock_def)

lemma sim_clock_readback:
  "ucast (get_field ClkDiv_layout ''clk_divider0'' (clkdiv_value 1)) = (1 :: u8)"
  "get_field ClkEna_layout ''cclk_enable'' clkena_on AND 1 \<noteq> 0"
  by (simp_all add: clkdiv_value_def clkena_on_def with_field_def put_bits_def get_bits_def
      ClkDiv_fields ClkEna_fields ClkDiv_pos ClkEna_pos)

lemma sim_program_clock:
  "\<exists>w'. program_card_clock_divider (sim_env m) 1 w = Some (True, w')"
proof -
  let ?E = "sim_env m"
  obtain w1 where 1: "latch_clock ?E (reg_write ?E CLKENA 0 w) = Some (True, w1)"
    using sim_latch by blast
  obtain w2 where 2: "latch_clock ?E (reg_write ?E CLKDIV (clkdiv_value 1) w1) = Some (True, w2)"
    "last_write CLKDIV (hist w2) = clkdiv_value 1"
    using sim_latch [of m "reg_write ?E CLKDIV (clkdiv_value 1) w1"]
    by (auto simp: same_clock_def sim_access)
  obtain w3 where 3: "latch_clock ?E (reg_write ?E CLKENA clkena_on w2) = Some (True, w3)"
    "last_write CLKDIV (hist w3) = clkdiv_value 1" "last_write CLKENA (hist w3) = clkena_on"
    using sim_latch [of m "reg_write ?E CLKENA clkena_on w2"] 2
    by (auto simp: same_clock_def sim_access)
  from 1 2 3 sim_clock_readback show ?thesis
    by (simp add: program_card_clock_divider_def read_clk_divider0_def sim_access)
qed

lemma sim_init_select: "\<exists>w'. init_select (sim_env m) w = Some (Inr (), w')"
proof -
  let ?E = "sim_env m"
  obtain w1 r1 where 1: "send_cmd ?E (SelectCard (rca_arg w)) w = Some (Inr r1, w1)"
    using sim_send by blast
  obtain w2 r2 where 2: "send_cmd ?E (AppCmd (rca_arg w1)) w1 = Some (Inr r2, w2)"
    using sim_send by blast
  obtain w3 r3 where 3: "send_cmd ?E (SendScr (replicate 512 0)) (set_transaction_size ?E 8 8 w2)
      = Some (Inr r3, w3)" using sim_send by blast
  have "\<exists>w'. switch_card_clock_divider ?E DEFAULT_SPEED_CLOCK_DIVIDER w = Some (True, w')" for w
  proof -
    let ?w = "log_ev (EvRead STATUS 0) (log_ev (EvRead CMD 0) (log_ev (EvTime (length (hist w))) w))"
    have "poll_deadline ?E (controller_idle ?E) d (log_ev (EvTime (length (hist w))) w) = Some (False, ?w)" for d
      by (simp add: sim_poll controller_idle_def sim_cond)
    moreover obtain v where "program_card_clock_divider ?E 1
      (snd (read_clk_divider0 ?E ?w)) = Some (True, v)" using sim_program_clock by blast
    ultimately show ?thesis
      by (simp add: switch_card_clock_divider_def sim_access DEFAULT_SPEED_CLOCK_DIVIDER_def
          split_beta)
  qed
  then obtain w4 where "switch_card_clock_divider ?E DEFAULT_SPEED_CLOCK_DIVIDER
    (snd (clear_rintsts ?E w3)) = Some (True, w4)" by blast
  with 1 2 3 show ?thesis by (simp add: init_select_def split_beta)
qed

lemma sim_init: "\<exists>w'. init (sim_env m) w = Some (Inr (), w')"
proof -
  obtain w1 where 1: "init_clock (sim_env m) w = Some (Inr (), w1)" using sim_init_clock by blast
  obtain w2 where 2: "init_voltage (sim_env m) w1 = Some (Inr (), w2)" using sim_init_voltage by blast
  obtain w3 where 3: "init_address (sim_env m) w2 = Some (Inr (), w3)" using sim_init_address by blast
  obtain w4 where 4: "init_capacity (sim_env m) w3 = Some (Inr (), w4)" using sim_init_capacity by blast
  obtain w5 where 5: "init_select (sim_env m) w4 = Some (Inr (), w5)" using sim_init_select by blast
  from 1 2 3 4 5 show ?thesis by (simp add: init_def and_then_def)
qed

section \<open>Properties\<close>

text \<open>
  C27: when initialisation succeeds the card is a high-capacity card with a non-zero
  relative address, and the block count is the one of a version-2 CSD: a positive
  multiple of 1024, at most \<open>2^32\<close>, so that every block number fits the 32-bit
  command argument.  Whatever the outcome, initialisation allocates and frees no DMA
  memory and leaves the DMA fields of the driver alone.
\<close>

theorem init_establishes_card:
  assumes "init E w = Some (r, w')"
  shows "same_dma w w' \<and> (r = Inr () \<longrightarrow>
     is_high_capacity (sd w') \<and> relative_card_address (sd w') \<noteq> 0
     \<and> 1024 \<le> unat (num_blocks (sd w')) \<and> unat (num_blocks (sd w')) \<le> 2 ^ 32
     \<and> 1024 dvd unat (num_blocks (sd w')))"
proof -
  have "1024 \<le> unat (csd_num_blocks csd) \<and> unat (csd_num_blocks csd) \<le> 2 ^ 32
      \<and> 1024 dvd unat (csd_num_blocks csd)" for csd
    using c_size_bound [of csd] by (simp add: unat_csd_num_blocks)
  with init_frame [OF assms] show ?thesis
    by (auto simp: is_high_capacity_def relative_card_address_def)
qed

theorem init_establishes_card_witness:
  "\<exists>w'. init (sim_env (\<lambda>_. 0)) idle_world = Some (Inr (), w') \<and> is_high_capacity (sd w')
     \<and> 1024 \<le> unat (num_blocks (sd w')) \<and> unat (num_blocks (sd w')) \<le> 2 ^ 32"
  using sim_init [of "\<lambda>_. 0" idle_world] init_establishes_card by blast



end
