(* ===== verification/Sd_Transfer.thy ===== *)
theory Sd_Transfer
  imports Sd_Init
begin

text \<open>
  One DMA transfer from preparation to completion (\<open>prepare_idmac_transfer\<close>,
  \<open>start_idmac_transfer\<close>, the synchronous and asynchronous waits, terminal
  validation, \<open>finish_idmac_transfer\<close> and the \<open>ActiveIdmacTransfer\<close> guard in
  \<open>simple-sdmmc-extended/src/sdmmc.rs\<close>).  Asynchronous functions may be dropped by
  their caller at a suspension point; \<open>Dropped\<close> is that outcome, after the drop
  handlers have run.
\<close>

record IdmacTransferContext =
  ctx_cmd :: u32
  ctx_arg :: u32
  ctx_expects_r1 :: bool
  ctx_generation :: u64
  ctx_desc :: DMAInfo
  ctx_layout :: mem_layout
  ctx_count :: nat

datatype 'a fut = Done 'a | Dropped

definition PRE_SUBMIT_IDLE_SPIN_TIMEOUT :: nat where "PRE_SUBMIT_IDLE_SPIN_TIMEOUT = 100000"
definition START_CMD_SPIN_TIMEOUT :: nat where "START_CMD_SPIN_TIMEOUT = millis 1"
definition IDMAC_COMMAND_TIMEOUT :: nat where "IDMAC_COMMAND_TIMEOUT = secs 2"
definition IDMAC_DATA_WATCHDOG_TIMEOUT :: nat where "IDMAC_DATA_WATCHDOG_TIMEOUT = secs 5"

section \<open>Ending a transfer\<close>

definition clear_both_status :: "env \<Rightarrow> world \<Rightarrow> world" where
  "clear_both_status E w =
     (let (rintsts, w) = reg_read E RINTSTS w;
          (idsts, w) = reg_read E IDSTS w;
          w = reg_write E RINTSTS rintsts w
      in reg_write E IDSTS idsts w)"

definition finish_idmac_transfer ::
  "env \<Rightarrow> IdmacTransferContext \<Rightarrow> bool \<Rightarrow> world \<Rightarrow> unit sd_result step" where
  "finish_idmac_transfer E ctx abort w = do {
     let w = (if abort then dma_io_fence (reg_write E IDINTEN 0 (reg_write E INTMASK 0 w)) else w);
     (stopped, w) \<leftarrow> (if abort then reset_idmac E w else Some (True, w));
     if \<not> stopped
     then Some (Inl RecoveryFailed,
            clear_both_status E
              (upd_sd (\<lambda>s. s\<lparr>idmac_faulted := True, idmac_reset_failed := True\<rparr>) w))
     else do {
       let w = dma_io_fence (clear_both_status E w);
       let w = dealloc_coherent (ctx_desc ctx) (ctx_layout ctx) w;
       let w = (if abort
                then dma_io_fence (reg_update E CTRL
                       (\<lambda>r. with_flag Ctrl_layout ''int_enable'' False
                              (with_flag Ctrl_layout ''use_internal_dmac'' False r)) w)
                else w);
       Some (Inr (), w)
     }
   }"

definition fault :: "world \<Rightarrow> world" where
  "fault w = upd_sd (\<lambda>s. s\<lparr>idmac_faulted := True\<rparr>) w"

definition abort_idmac_transfer ::
  "env \<Rightarrow> IdmacTransferContext \<Rightarrow> SdMmcError \<Rightarrow> world \<Rightarrow> SdMmcError step" where
  "abort_idmac_transfer E ctx error w = do {
     (r, w) \<leftarrow> finish_idmac_transfer E ctx True (fault w);
     Some (case r of Inr _ \<Rightarrow> error | Inl recovery_error \<Rightarrow> recovery_error, w)
   }"

definition abort_with ::
  "env \<Rightarrow> IdmacTransferContext \<Rightarrow> SdMmcError \<Rightarrow> world \<Rightarrow> 'a sd_result step" where
  "abort_with E ctx error w = do {
     (e, w) \<leftarrow> abort_idmac_transfer E ctx error w;
     Some (Inl e, w)
   }"

text \<open>\<open>ActiveIdmacTransfer::drop\<close> with the context still in place.\<close>

definition active_transfer_drop :: "env \<Rightarrow> IdmacTransferContext \<Rightarrow> world \<Rightarrow> unit step" where
  "active_transfer_drop E ctx w = do {
     (_, w) \<leftarrow> finish_idmac_transfer E ctx True (fault w);
     Some ((), w)
   }"

section \<open>Preparation\<close>

partial_function (option) idle_short_loop :: "env \<Rightarrow> nat \<Rightarrow> world \<Rightarrow> (unit sd_result \<times> world) option" where
  "idle_short_loop E deadline w =
     (case can_send_cmd E w of (command_idle, w) \<Rightarrow>
      case can_send_data E w of (data_idle, w) \<Rightarrow>
        if command_idle \<and> data_idle then Some (Inr (), w)
        else (case monotonic_time E w of (t, w) \<Rightarrow>
          if deadline \<le> t
          then Some (Inl (if \<not> command_idle then CommandBusy else DataBusy), w)
          else idle_short_loop E deadline w))"

definition wait_for_transfer_idle_short :: "env \<Rightarrow> world \<Rightarrow> unit sd_result step" where
  "wait_for_transfer_idle_short E w =
     (case monotonic_time E w of (t, w) \<Rightarrow>
        idle_short_loop E (t + PRE_SUBMIT_IDLE_SPIN_TIMEOUT) w)"

fun count_owned :: "env \<Rightarrow> DMAInfo \<Rightarrow> nat list \<Rightarrow> world \<Rightarrow> nat \<times> world" where
  "count_owned E info [] w = (0, w)"
| "count_owned E info (i # is) w =
     (let v = des0_val E (hist w) info i;
          (n, w) = count_owned E info is (log_ev (EvDescRead info i v) w)
      in ((if get_flag IdmacDes0_layout ''own'' v then n + 1 else n), w))"

definition descriptor_owned_count :: "env \<Rightarrow> IdmacTransferContext \<Rightarrow> world \<Rightarrow> nat \<times> world" where
  "descriptor_owned_count E ctx w = count_owned E (ctx_desc ctx) [0..<ctx_count ctx] w"

definition descriptor_owned :: "env \<Rightarrow> IdmacTransferContext \<Rightarrow> world \<Rightarrow> bool \<times> world" where
  "descriptor_owned E ctx w = (let (n, w) = descriptor_owned_count E ctx w in (n \<noteq> 0, w))"

fun any_ces :: "env \<Rightarrow> DMAInfo \<Rightarrow> nat list \<Rightarrow> world \<Rightarrow> bool \<times> world" where
  "any_ces E info [] w = (False, w)"
| "any_ces E info (i # is) w =
     (let v = des0_val E (hist w) info i; w = log_ev (EvDescRead info i v) w
      in if get_flag IdmacDes0_layout ''ces'' v then (True, w) else any_ces E info is w)"

definition descriptor_card_error :: "env \<Rightarrow> IdmacTransferContext \<Rightarrow> world \<Rightarrow> bool \<times> world" where
  "descriptor_card_error E ctx w = any_ces E (ctx_desc ctx) [0..<ctx_count ctx] w"

fun write_descriptors :: "DMAInfo \<Rightarrow> nat \<Rightarrow> IdmacDescriptor list \<Rightarrow> world \<Rightarrow> world" where
  "write_descriptors info i [] w = w"
| "write_descriptors info i (d # ds) w =
     write_descriptors info (i + 1) ds (log_ev (EvDescWrite info i d) w)"

definition try_u32 :: "u64 \<Rightarrow> u32 option" where
  "try_u32 a = (if unat a < 2 ^ 32 then Some (ucast a) else None)"

definition Layout_array_descriptor :: "nat \<Rightarrow> mem_layout option" where
  "Layout_array_descriptor n =
     (if DESCRIPTOR_SIZE * n + 4 \<le> 2 ^ 63 then Some (DESCRIPTOR_SIZE * n, 4) else None)"

definition xfer_len :: "DataXfer \<Rightarrow> nat" where
  "xfer_len x = (case x of XferRead buf \<Rightarrow> length buf | XferWrite buf \<Rightarrow> length buf)"

definition clean_status_baseline :: "env \<Rightarrow> world \<Rightarrow> world" where
  "clean_status_baseline E w =
     (let (_, w) = clear_rintsts E w;
          (stale_idsts, w) = reg_read E IDSTS w;
          w = (if idsts_any stale_idsts then clear_idsts E w else w);
          w = atomic E w;
          w = w\<lparr>statics := (statics w)\<lparr>IDMAC_DONE_FLAG := False\<rparr>\<rparr>;
          w = atomic E w
      in w\<lparr>statics := (statics w)\<lparr>IDMAC_ERROR_FLAG := False\<rparr>\<rparr>)"

text \<open>From the allocated descriptor table to the published chain.\<close>

definition publish_chain ::
  "env \<Rightarrow> IdmacTransferContext \<Rightarrow> u32 \<Rightarrow> u32 \<Rightarrow> nat \<Rightarrow> world \<Rightarrow> IdmacTransferContext sd_result step" where
  "publish_chain E ctx dma_bus_addr desc_phy_addr buf_len w = do {
     let w = write_descriptors (ctx_desc ctx) 0
               (build_chain dma_bus_addr desc_phy_addr buf_len (ctx_count ctx)) w;
     let w = dma_io_fence w;
     let w = reg_write E BYTCNT (of_nat buf_len) w;
     let w = reg_write E DBADDR desc_phy_addr w;
     let w = dma_io_fence w;
     let (programmed_dbaddr, w) = reg_read E DBADDR w;
     let (programmed_byte_count, w) = reg_read E BYTCNT w;
     let (owned_descriptors, w) = descriptor_owned_count E ctx w;
     if programmed_dbaddr \<noteq> desc_phy_addr \<or> programmed_byte_count \<noteq> of_nat buf_len
        \<or> owned_descriptors \<noteq> ctx_count ctx
     then abort_with E ctx DescriptorPublication w
     else Some (Inr ctx, w)
   }"

definition alloc_chain ::
  "env \<Rightarrow> u32 \<Rightarrow> u32 \<Rightarrow> bool \<Rightarrow> u32 \<Rightarrow> nat \<Rightarrow> world \<Rightarrow> IdmacTransferContext sd_result step" where
  "alloc_chain E cmd arg expects_r1 dma_bus_addr buf_len w =
     (let descriptor_count = div_ceil buf_len IDMAC_DESCRIPTOR_BUFFER_SIZE in
      case Layout_array_descriptor descriptor_count of
        None \<Rightarrow> Some (Inl DmaAllocation, w)
      | Some l \<Rightarrow>
          (case alloc_coherent E l w of
             (None, w) \<Rightarrow> Some (Inl DmaAllocation, w)
           | (Some info, w) \<Rightarrow>
               (case try_u32 (bus_addr info) of
                  None \<Rightarrow> Some (Inl DmaAddress, dealloc_coherent info l w)
                | Some desc_phy_addr \<Rightarrow>
                    if checked_add desc_phy_addr
                         (of_nat ((descriptor_count - 1) * DESCRIPTOR_SIZE)) = None
                    then Some (Inl DmaAddress, dealloc_coherent info l w)
                    else publish_chain E
                      \<lparr>ctx_cmd = cmd, ctx_arg = arg, ctx_expects_r1 = expects_r1,
                       ctx_generation = 0, ctx_desc = info, ctx_layout = l,
                       ctx_count = descriptor_count\<rparr>
                      dma_bus_addr desc_phy_addr buf_len w)))"

definition prepare_idmac_transfer ::
  "env \<Rightarrow> Command \<Rightarrow> u32 \<Rightarrow> world \<Rightarrow> IdmacTransferContext sd_result step" where
  "prepare_idmac_transfer E command dma_bus_addr w =
     (if idmac_faulted (sd w) then Some (Inl DriverFaulted, w)
      else
        (case build command of (cmd, arg, xfer) \<Rightarrow>
           if \<not> get_flag Cmd_layout ''data_expected'' cmd then Some (Inl InvalidParameter, w)
           else
             (case xfer of
                None \<Rightarrow> Some (Inl InvalidParameter, w)
              | Some x \<Rightarrow> do {
                  (r, w) \<leftarrow> wait_for_transfer_idle_short E w;
                  case r of
                    Inl e \<Rightarrow> Some (Inl e, w)
                  | Inr _ \<Rightarrow> do {
                      let w = clean_status_baseline E w;
                      let buf_len = xfer_len x;
                      if buf_len = 0 \<or> DMA_BUFFER_SIZE < buf_len
                      then Some (Inl InvalidParameter, w)
                      else if checked_add dma_bus_addr (of_nat (buf_len - 1)) = None
                      then Some (Inl DmaAddress, w)
                      else alloc_chain E cmd arg (has_r1_response command) dma_bus_addr buf_len w
                    }
                })))"

section \<open>Submission\<close>

definition start_idmac_transfer ::
  "env \<Rightarrow> IdmacTransferContext \<Rightarrow> world \<Rightarrow> IdmacTransferContext sd_result step" where
  "start_idmac_transfer E ctx w = do {
     let (g, w) = begin_transfer E w;
     let ctx = ctx\<lparr>ctx_generation := g\<rparr>;
     let w = dma_io_fence (reg_write E CMDARG (ctx_arg ctx) w);
     let w = dma_io_fence (reg_write E CMD (ctx_cmd ctx) w);
     let (t, w) = monotonic_time E w;
     (timed_out, w) \<leftarrow> poll_deadline E (can_send_cmd E) (t + START_CMD_SPIN_TIMEOUT) w;
     if timed_out then abort_with E ctx CommandStartTimeout w
     else do {
       let (idsts_before_pldmnd, w) = reg_read E IDSTS w;
       let w = (if get_flag IdSts_layout ''du'' idsts_before_pldmnd
                then dma_io_fence (reg_write E PLDMND 1 (clear_idsts E w)) else w);
       let (idsts_after_pldmnd, w) = reg_read E IDSTS w;
       if get_flag IdSts_layout ''du'' idsts_after_pldmnd then abort_with E ctx Hardware w
       else if get_flag IdSts_layout ''ais'' idsts_after_pldmnd
               \<or> get_flag IdSts_layout ''fbe'' idsts_after_pldmnd
       then abort_with E ctx Hardware w
       else Some (Inr ctx, w)
     }
   }"

section \<open>Completion\<close>

definition idmac_completion_status :: "env \<Rightarrow> u64 \<Rightarrow> world \<Rightarrow> (u32 \<times> u32) \<times> world" where
  "idmac_completion_status E g w =
     (let (current_rintsts, w) = reg_read E RINTSTS w;
          (current_idsts, w) = reg_read E IDSTS w;
          (snap, w) = snapshot_bits E g w;
          (irq_rintsts, irq_idsts) = (case snap of None \<Rightarrow> (0, 0) | Some p \<Rightarrow> p)
      in ((current_rintsts OR irq_rintsts, current_idsts OR irq_idsts), w))"

definition idmac_status_has_error :: "env \<Rightarrow> u32 \<Rightarrow> u32 \<Rightarrow> world \<Rightarrow> bool \<times> world" where
  "idmac_status_has_error E rintsts idsts w =
     (let w = atomic E w in
      (IDMAC_ERROR_FLAG (statics w)
       \<or> RIntSts_error rintsts
       \<or> get_flag IdSts_layout ''ais'' idsts \<or> get_flag IdSts_layout ''ces'' idsts
       \<or> get_flag IdSts_layout ''du'' idsts \<or> get_flag IdSts_layout ''fbe'' idsts, w))"

definition idmac_command_done_or_error ::
  "env \<Rightarrow> IdmacTransferContext \<Rightarrow> world \<Rightarrow> bool \<times> world" where
  "idmac_command_done_or_error E ctx w =
     (let ((rintsts, idsts), w) = idmac_completion_status E (ctx_generation ctx) w in
      if get_flag RIntSts_layout ''command_done'' rintsts then (True, w)
      else idmac_status_has_error E rintsts idsts w)"

text \<open>The four terminal events of a transfer, shared by the wait and the validation.\<close>

definition terminal_events :: "IdmacTransferContext \<Rightarrow> u32 \<Rightarrow> u32 \<Rightarrow> bool" where
  "terminal_events ctx rintsts idsts \<longleftrightarrow>
     (\<not> get_flag Cmd_layout ''response_expect'' (ctx_cmd ctx)
        \<or> get_flag RIntSts_layout ''command_done'' rintsts)
     \<and> (\<not> get_flag Cmd_layout ''send_auto_stop'' (ctx_cmd ctx)
        \<or> get_flag RIntSts_layout ''auto_command_done'' rintsts)
     \<and> (if get_flag Cmd_layout ''read_write'' (ctx_cmd ctx)
        then get_flag IdSts_layout ''ti'' idsts else get_flag IdSts_layout ''ri'' idsts)
     \<and> get_flag RIntSts_layout ''data_transfer_over'' rintsts"

definition idmac_terminal_events_or_error ::
  "env \<Rightarrow> IdmacTransferContext \<Rightarrow> world \<Rightarrow> bool \<times> world" where
  "idmac_terminal_events_or_error E ctx w =
     (let ((rintsts, idsts), w) = idmac_completion_status E (ctx_generation ctx) w;
          (err, w) = idmac_status_has_error E rintsts idsts w
      in if err then (True, w) else (terminal_events ctx rintsts idsts, w))"

definition validate_idmac_terminal :: "env \<Rightarrow> IdmacTransferContext \<Rightarrow> world \<Rightarrow> bool \<times> world" where
  "validate_idmac_terminal E ctx w =
     (let ((rintsts, idsts), w) = idmac_completion_status E (ctx_generation ctx) w;
          (has_error, w) = idmac_status_has_error E rintsts idsts w;
          w = dma_io_fence w;
          (owned, w) = descriptor_owned E ctx w;
          (card_error, w) = descriptor_card_error E ctx w
      in (\<not> has_error \<and> terminal_events ctx rintsts idsts \<and> \<not> owned \<and> \<not> card_error, w))"

definition completion_has_error :: "env \<Rightarrow> IdmacTransferContext \<Rightarrow> world \<Rightarrow> bool \<times> world" where
  "completion_has_error E ctx w =
     (let ((rintsts, idsts), w) = idmac_completion_status E (ctx_generation ctx) w
      in idmac_status_has_error E rintsts idsts w)"

definition wait_transfer_sync ::
  "env \<Rightarrow> IdmacTransferContext \<Rightarrow> world \<Rightarrow> unit sd_result step" where
  "wait_transfer_sync E ctx w = do {
     (command_timed_out, w) \<leftarrow>
       (if get_flag Cmd_layout ''response_expect'' (ctx_cmd ctx)
        then (case monotonic_time E w of (t, w) \<Rightarrow>
          poll_deadline E (idmac_command_done_or_error E ctx) (t + IDMAC_COMMAND_TIMEOUT) w)
        else Some (False, w));
     if command_timed_out then Some (Inl CommandTimeout, w)
     else do {
       let (err, w) = completion_has_error E ctx w;
       if err then Some (Inl Hardware, w)
       else do {
         let (t, w) = monotonic_time E w;
         (data_timed_out, w) \<leftarrow>
           poll_deadline E (idmac_terminal_events_or_error E ctx)
             (t + IDMAC_DATA_WATCHDOG_TIMEOUT) w;
         if data_timed_out then Some (Inl DataTimeout, w)
         else do {
           let (err, w) = completion_has_error E ctx w;
           Some (if err then Inl Hardware else Inr (), w)
         }
       }
     }
   }"

section \<open>Asynchronous completion\<close>

text \<open>
  \<open>WaitQueue::wait_timeout_until_async\<close> (\<open>axtask/src/wait_queue.rs\<close>): the condition is
  checked before and after the listener is registered, then the task suspends.
\<close>

partial_function (option) wait_queue_loop ::
  "env \<Rightarrow> (world \<Rightarrow> bool \<times> world) \<Rightarrow> nat \<Rightarrow> world \<Rightarrow> (bool fut \<times> world) option" where
  "wait_queue_loop E cond deadline w =
     (case cond w of (ok, w) \<Rightarrow>
        if ok then Some (Done False, w)
        else (case wall_time E w of (t, w) \<Rightarrow>
          if deadline \<le> t then Some (Done True, w)
          else (case cond w of (ok, w) \<Rightarrow>
            if ok then Some (Done False, w)
            else if cancel_val E (hist w) then Some (Dropped, log_ev EvYield w)
            else wait_queue_loop E cond deadline (log_ev EvYield w))))"

definition wait_timeout_until_async ::
  "env \<Rightarrow> nat \<Rightarrow> (world \<Rightarrow> bool \<times> world) \<Rightarrow> world \<Rightarrow> bool fut step" where
  "wait_timeout_until_async E dur cond w =
     (case wall_time E w of (t, w) \<Rightarrow> wait_queue_loop E cond (t + dur) w)"

definition wait_transfer_async ::
  "env \<Rightarrow> IdmacTransferContext \<Rightarrow> world \<Rightarrow> unit sd_result fut step" where
  "wait_transfer_async E ctx w = do {
     (r, w) \<leftarrow>
       (if get_flag Cmd_layout ''response_expect'' (ctx_cmd ctx)
        then wait_timeout_until_async E IDMAC_COMMAND_TIMEOUT
               (idmac_command_done_or_error E ctx) w
        else Some (Done False, w));
     case r of
       Dropped \<Rightarrow> Some (Dropped, w)
     | Done command_timed_out \<Rightarrow>
         if command_timed_out then Some (Done (Inl CommandTimeout), w)
         else do {
           let (err, w) = completion_has_error E ctx w;
           if err then Some (Done (Inl Hardware), w)
           else do {
             (r, w) \<leftarrow> wait_timeout_until_async E IDMAC_DATA_WATCHDOG_TIMEOUT
                         (idmac_terminal_events_or_error E ctx) w;
             case r of
               Dropped \<Rightarrow> Some (Dropped, w)
             | Done data_timed_out \<Rightarrow> do {
                 let ((rintsts, idsts), w) = idmac_completion_status E (ctx_generation ctx) w;
                 if data_timed_out then Some (Done (Inl DataTimeout), w)
                 else do {
                   let (err, w) = idmac_status_has_error E rintsts idsts w;
                   Some (Done (if err then Inl Hardware else Inr ()), w)
                 }
               }
           }
         }
   }"

section \<open>A whole transfer\<close>

definition validated_response ::
  "env \<Rightarrow> IdmacTransferContext \<Rightarrow> world \<Rightarrow> response sd_result \<times> world" where
  "validated_response E ctx w =
     (let (resp, w) = resp_read E w in
      if ctx_expects_r1 ctx
      then (case validate_r1_response (fst resp) False of
              Inl e \<Rightarrow> (Inl e, w) | Inr _ \<Rightarrow> (Inr resp, w))
      else (Inr resp, w))"

text \<open>\<open>transfer.fault(); transfer.finish(true)?; return Err(error)\<close>\<close>

definition fault_and_finish ::
  "env \<Rightarrow> IdmacTransferContext \<Rightarrow> SdMmcError \<Rightarrow> world \<Rightarrow> response sd_result step" where
  "fault_and_finish E ctx error w = do {
     (r, w) \<leftarrow> finish_idmac_transfer E ctx True (fault w);
     Some (case r of Inl e \<Rightarrow> Inl e | Inr _ \<Rightarrow> Inl error, w)
   }"

text \<open>What follows a successful wait, in both variants.\<close>

definition complete_transfer ::
  "env \<Rightarrow> IdmacTransferContext \<Rightarrow> world \<Rightarrow> response sd_result step" where
  "complete_transfer E ctx w = do {
     let (valid, w) = validate_idmac_terminal E ctx w;
     if \<not> valid then fault_and_finish E ctx TerminalValidation w
     else (case validated_response E ctx w of
       (Inl error, w) \<Rightarrow> fault_and_finish E ctx error w
     | (Inr resp, w) \<Rightarrow> do {
         (r, w) \<leftarrow> finish_idmac_transfer E ctx False w;
         Some (case r of Inl e \<Rightarrow> Inl e | Inr _ \<Rightarrow> Inr resp, w)
       })
   }"

definition send_cmd_idmac :: "env \<Rightarrow> Command \<Rightarrow> u32 \<Rightarrow> world \<Rightarrow> response sd_result step" where
  "send_cmd_idmac E command dma_bus_addr w = do {
     (r, w) \<leftarrow> prepare_idmac_transfer E command dma_bus_addr w;
     case r of
       Inl e \<Rightarrow> Some (Inl e, w)
     | Inr ctx \<Rightarrow> do {
         (r, w) \<leftarrow> start_idmac_transfer E ctx w;
         case r of
           Inl e \<Rightarrow> Some (Inl e, w)
         | Inr ctx \<Rightarrow> do {
             (r, w) \<leftarrow> wait_transfer_sync E ctx w;
             case r of
               Inl error \<Rightarrow> fault_and_finish E ctx error w
             | Inr _ \<Rightarrow> complete_transfer E ctx w
           }
       }
   }"

definition send_cmd_idmac_async ::
  "env \<Rightarrow> Command \<Rightarrow> u32 \<Rightarrow> world \<Rightarrow> response sd_result fut step" where
  "send_cmd_idmac_async E command dma_bus_addr w = do {
     (r, w) \<leftarrow> prepare_idmac_transfer E command dma_bus_addr w;
     case r of
       Inl e \<Rightarrow> Some (Done (Inl e), w)
     | Inr ctx \<Rightarrow> do {
         (r, w) \<leftarrow> start_idmac_transfer E ctx w;
         case r of
           Inl e \<Rightarrow> Some (Done (Inl e), w)
         | Inr ctx \<Rightarrow> do {
             (r, w) \<leftarrow> wait_transfer_async E ctx w;
             case r of
               Dropped \<Rightarrow> do { (_, w) \<leftarrow> active_transfer_drop E ctx w; Some (Dropped, w) }
             | Done (Inl error) \<Rightarrow>
                 do { (r, w) \<leftarrow> fault_and_finish E ctx error w; Some (Done r, w) }
             | Done (Inr _) \<Rightarrow>
                 do { (r, w) \<leftarrow> complete_transfer E ctx w; Some (Done r, w) }
           }
       }
   }"

section \<open>Frame properties\<close>

lemma idle_short_quiet:
  assumes "idle_short_loop E d w = Some (r, w')"
  shows "quiet w w'"
proof -
  have "quiet w (snd (r, w'))"
  proof (rule idle_short_loop.raw_induct [OF _ assms, where P = "\<lambda>E d w y. quiet w (snd y)"])
    fix f E d w y
    assume IH: "\<And>E d w y. f E d w = Some y \<Longrightarrow> quiet w (snd y)"
      and eq: "(case can_send_cmd E w of (command_idle, w) \<Rightarrow>
        case can_send_data E w of (data_idle, w) \<Rightarrow>
        if command_idle \<and> data_idle then Some (Inr (), w)
        else (case monotonic_time E w of (t, w) \<Rightarrow>
          if d \<le> t then Some (Inl (if \<not> command_idle then CommandBusy else DataBusy), w)
          else f E d w)) = Some y"
    obtain c w1 where c: "can_send_cmd E w = (c, w1)" by fastforce
    obtain b w2 where b: "can_send_data E w1 = (b, w2)" by fastforce
    obtain t w3 where t: "monotonic_time E w2 = (t, w3)" by fastforce
    have "quiet w w2" "quiet w w3"
      using can_send_cmd_quiet [OF c] can_send_data_quiet [OF b] time_quiet [OF t] quiet_trans
      by blast+
    with eq c b t show "quiet w (snd y)"
      by (auto split: if_splits dest!: IH intro: quiet_trans)
  qed
  then show ?thesis by simp
qed

lemma wait_idle_quiet: "wait_for_transfer_idle_short E w = Some (r, w') \<Longrightarrow> quiet w w'"
  by (auto simp: wait_for_transfer_idle_short_def split: prod.splits
      dest!: time_quiet idle_short_quiet intro: quiet_trans)

lemma idle_short_returns:
  assumes "clock_progress E"
  shows "idle_short_loop E d w \<noteq> None"
proof -
  from assms obtain n where n: "n \<le> length h \<Longrightarrow> d \<le> time_val E h" for h
    unfolding clock_progress_def by blast
  show ?thesis
  proof (induction "n - length (hist w)" arbitrary: w rule: less_induct)
    case less
    obtain c w1 where c: "can_send_cmd E w = (c, w1)" by fastforce
    obtain b w2 where b: "can_send_data E w1 = (b, w2)" by fastforce
    obtain t w3 where t: "monotonic_time E w2 = (t, w3)" by fastforce
    have t3: "t = time_val E (hist (preempt E w2))" "length (hist w3) = Suc (length (hist (preempt E w2)))"
      using t by (auto simp: monotonic_time_def Let_def)
    have "length (hist w) \<le> length (hist (preempt E w2))"
      using can_send_cmd_quiet [OF c] can_send_data_quiet [OF b] quiet_preemptI quiet_trans
        quiet_length by metis
    with t3 n have "d \<le> t \<or> n - length (hist w3) < n - length (hist w)"
      by (cases "n \<le> length (hist (preempt E w2))") auto
    then show ?case
      by (subst idle_short_loop.simps) (use c b t less in auto)
  qed
qed

text \<open>Descriptor scans read every word they base their answer on.\<close>

definition reads_since :: "world \<Rightarrow> world \<Rightarrow> DMAInfo \<Rightarrow> nat list \<Rightarrow> (u32 \<Rightarrow> bool) \<Rightarrow> bool" where
  "reads_since w w' info is P \<longleftrightarrow>
     (\<exists>es. hist w' = es @ hist w \<and> (\<forall>i\<in>set is. \<exists>v. EvDescRead info i v \<in> set es \<and> P v))"

lemma reads_since_Cons:
  assumes "reads_since (log_ev (EvDescRead info i v) w) w' info is P" "P v"
  shows "reads_since w w' info (i # is) P"
proof -
  from assms(1) obtain es where "hist w' = es @ EvDescRead info i v # hist w"
    "\<forall>i\<in>set is. \<exists>v. EvDescRead info i v \<in> set es \<and> P v"
    unfolding reads_since_def by auto
  with assms(2) show ?thesis
    unfolding reads_since_def by (intro exI [of _ "es @ [EvDescRead info i v]"]) auto
qed

lemma count_owned_spec:
  "count_owned E info is w = (n, w') \<Longrightarrow> quiet w w'
     \<and> (n = 0 \<longrightarrow> reads_since w w' info is (\<lambda>v. \<not> get_flag IdmacDes0_layout ''own'' v))"
proof (induction "is" arbitrary: w n)
  case (Cons i "is")
  let ?v = "des0_val E (hist w) info i"
  let ?w = "log_ev (EvDescRead info i ?v) w"
  obtain n1 where 1: "count_owned E info is ?w = (n1, w')"
    "n = (if get_flag IdmacDes0_layout ''own'' ?v then n1 + 1 else n1)"
    using Cons.prems by (auto simp: Let_def split: prod.splits)
  have "quiet w ?w" by (simp add: quiet_log_ev)
  with Cons.IH [OF 1(1)] 1(2) show ?case
    by (auto intro: quiet_trans reads_since_Cons split: if_splits)
qed (auto simp: reads_since_def)

lemma any_ces_spec:
  "any_ces E info is w = (b, w') \<Longrightarrow> quiet w w'
     \<and> (\<not> b \<longrightarrow> reads_since w w' info is (\<lambda>v. \<not> get_flag IdmacDes0_layout ''ces'' v))"
proof (induction "is" arbitrary: w)
  case (Cons i "is")
  let ?v = "des0_val E (hist w) info i"
  let ?w = "log_ev (EvDescRead info i ?v) w"
  have q: "quiet w ?w" by (simp add: quiet_log_ev)
  show ?case
  proof (cases "get_flag IdmacDes0_layout ''ces'' ?v")
    case True
    with Cons.prems q show ?thesis by (auto simp: Let_def)
  next
    case False
    with Cons.prems have "any_ces E info is ?w = (b, w')" by (simp add: Let_def)
    from Cons.IH [OF this] False q show ?thesis
      by (auto intro: quiet_trans reads_since_Cons)
  qed
qed (auto simp: reads_since_def)

fun desc_events :: "DMAInfo \<Rightarrow> nat \<Rightarrow> IdmacDescriptor list \<Rightarrow> event list" where
  "desc_events info i [] = []"
| "desc_events info i (d # ds) = desc_events info (i + 1) ds @ [EvDescWrite info i d]"

lemma write_descriptors_frame:
  "sd (write_descriptors info i ds w) = sd w"
  "trace (write_descriptors info i ds w) = desc_events info i ds @ trace w"
  by (induction ds arbitrary: i w) simp_all

lemma desc_events_calm: "list_all (\<lambda>e. \<not> mem_ev e) (desc_events info i ds)"
  by (induction ds arbitrary: i) simp_all

section \<open>Completion conditions\<close>

lemma completion_status_quiet: "idmac_completion_status E g w = (x, w') \<Longrightarrow> quiet w w'"
  by (auto simp: idmac_completion_status_def split: prod.splits option.splits
      dest!: reg_read_quiet snapshot_quiet intro: quiet_trans)

lemma status_has_error_quiet: "idmac_status_has_error E r i w = (b, w') \<Longrightarrow> quiet w w'"
  by (auto simp: idmac_status_has_error_def Let_def intro: atomic_quiet)

lemma command_done_quiet: "idmac_command_done_or_error E ctx w = (b, w') \<Longrightarrow> quiet w w'"
  by (auto simp: idmac_command_done_or_error_def split: prod.splits if_splits
      dest!: completion_status_quiet status_has_error_quiet intro: quiet_trans)

lemma terminal_quiet: "idmac_terminal_events_or_error E ctx w = (b, w') \<Longrightarrow> quiet w w'"
  by (auto simp: idmac_terminal_events_or_error_def split: prod.splits if_splits
      dest!: completion_status_quiet status_has_error_quiet intro: quiet_trans)

interpretation cdone: polled E "idmac_command_done_or_error E ctx" for E ctx
  by unfold_locales (rule command_done_quiet)

interpretation tev: polled E "idmac_terminal_events_or_error E ctx" for E ctx
  by unfold_locales (rule terminal_quiet)

lemma completion_has_error_quiet: "completion_has_error E ctx w = (b, w') \<Longrightarrow> quiet w w'"
  by (auto simp: completion_has_error_def split: prod.splits
      dest!: completion_status_quiet status_has_error_quiet intro: quiet_trans)

lemma wait_sync_quiet: "wait_transfer_sync E ctx w = Some (r, w') \<Longrightarrow> quiet w w'"
  apply (auto simp: wait_transfer_sync_def split: prod.splits if_splits bind_splits
      dest!: time_quiet cdone.poll_quiet tev.poll_quiet completion_has_error_quiet)
  by (meson quiet_trans)+

lemma wait_sync_returns: "clock_progress E \<Longrightarrow> wait_transfer_sync E ctx w \<noteq> None"
  unfolding wait_transfer_sync_def
  by (intro bind_returns)
    (auto split: prod.splits simp: cdone.poll_returns tev.poll_returns bind_eq_None_conv
      simp del: not_None_eq)

section \<open>How a transfer ends\<close>

text \<open>Writes that stop the engine and mask its interrupts.\<close>

definition stop_ev :: "event \<Rightarrow> bool" where
  "stop_ev e = (case e of EvWrite r _ \<Rightarrow> r \<in> {CTRL, BMOD, INTMASK, IDINTEN} | _ \<Rightarrow> False)"

text \<open>
  An aborted transfer faults the driver.  Either the engine was stopped and the
  descriptor table freed, or the reset failed and the table is kept.
\<close>

definition aborted :: "IdmacTransferContext \<Rightarrow> world \<Rightarrow> bool \<Rightarrow> world \<Rightarrow> bool" where
  "aborted ctx w recovered w' \<longleftrightarrow>
     (if recovered
      then sd w' = (sd w)\<lparr>idmac_faulted := True\<rparr>
        \<and> (\<exists>c es. trace w' = EvWrite CTRL c # EvDealloc (ctx_desc ctx) (ctx_layout ctx) # es @ trace w
             \<and> list_all stop_ev es)
      else sd w' = (sd w)\<lparr>idmac_faulted := True, idmac_reset_failed := True\<rparr>
        \<and> (\<exists>es. trace w' = es @ trace w \<and> list_all stop_ev es))"

lemma aborted_generation [simp]: "aborted (ctx\<lparr>ctx_generation := g\<rparr>) w b w' = aborted ctx w b w'"
  by (simp add: aborted_def)

lemma stop_ev_calm: "stop_ev e \<Longrightarrow> \<not> mem_ev e"
  by (auto simp: stop_ev_def split: event.splits)

lemma stop_evs_calm: "list_all stop_ev es \<Longrightarrow> list_all (\<lambda>e. \<not> mem_ev e) es"
  by (auto simp: list_all_iff stop_ev_calm)

lemma clear_both_quiet: "quiet w (clear_both_status E w)"
  by (auto simp: clear_both_status_def split: prod.splits
      intro!: status_write_quiet dest!: reg_read_quiet intro: quiet_trans)

lemmas clear_both_frame [simp] = quietD [OF clear_both_quiet]

lemma fault_simps [simp]:
  "sd (fault w) = (sd w)\<lparr>idmac_faulted := True\<rparr>" "trace (fault w) = trace w"
  "hist (fault w) = hist w" "statics (fault w) = statics w"
  by (simp_all add: fault_def)

lemma quiet_no_cmd: "list_all quiet_ev es \<Longrightarrow> EvWrite CMD v \<notin> set es"
  by (auto simp: list_all_iff)

lemma finish_ok:
  "\<exists>w'. finish_idmac_transfer E ctx False w = Some (Inr (), w') \<and> sd w' = sd w
     \<and> trace w' = EvDealloc (ctx_desc ctx) (ctx_layout ctx) # trace w
     \<and> (\<exists>es. hist w' = es @ hist w \<and> (\<forall>v. EvWrite CMD v \<notin> set es))"
proof -
  from clear_both_quiet [of w E] obtain es where
    "hist (clear_both_status E w) = es @ hist w" "list_all quiet_ev es"
    by (auto simp: quiet_def)
  then show ?thesis
    by (auto simp: finish_idmac_transfer_def dealloc_coherent_def dma_io_fence_def dest: quiet_no_cmd)
qed

lemma finish_abort:
  assumes "finish_idmac_transfer E ctx True (fault w) = Some (r, w')"
  shows "\<exists>recovered. r = (if recovered then Inr () else Inl RecoveryFailed) \<and> aborted ctx w recovered w'"
proof -
  define w1 where "w1 = dma_io_fence (reg_write E IDINTEN 0 (reg_write E INTMASK 0 (fault w)))"
  from assms obtain ok w2 where r: "reset_idmac E w1 = Some (ok, w2)"
    by (auto simp: finish_idmac_transfer_def w1_def Let_def split: bind_splits)
  from reset_idmac_frame [OF r] obtain c b where
    f: "sd w2 = sd w1" "trace w2 = EvWrite CTRL c # EvWrite BMOD b # trace w1" by blast
  let ?es = "[EvWrite CTRL c, EvWrite BMOD b, EvWrite IDINTEN 0, EvWrite INTMASK 0]"
  have t2: "trace w2 = ?es @ trace w" "list_all stop_ev ?es" "sd w2 = (sd w)\<lparr>idmac_faulted := True\<rparr>"
    using f by (simp_all add: w1_def stop_ev_def)
  show ?thesis
  proof (cases ok)
    case True
    let ?w3 = "dealloc_coherent (ctx_desc ctx) (ctx_layout ctx) (dma_io_fence (clear_both_status E w2))"
    obtain v where v: "trace (reg_update E CTRL
        (\<lambda>r. with_flag Ctrl_layout ''int_enable'' False
           (with_flag Ctrl_layout ''use_internal_dmac'' False r)) ?w3) = EvWrite CTRL v # trace ?w3"
      using reg_update_frame(2) by blast
    from True assms r v t2 show ?thesis
      by (intro exI [of _ True])
        (auto simp: finish_idmac_transfer_def w1_def [symmetric] Let_def aborted_def)
  next
    case False
    with assms r t2 show ?thesis
      by (intro exI [of _ False])
        (auto simp: finish_idmac_transfer_def w1_def [symmetric] Let_def aborted_def)
  qed
qed

lemma finish_returns: "clock_progress E \<Longrightarrow> finish_idmac_transfer E ctx abort w \<noteq> None"
  unfolding finish_idmac_transfer_def Let_def
  by (intro bind_returns) (auto simp: reset_idmac_returns simp del: not_None_eq)

lemma abort_with_spec:
  assumes "abort_with E ctx error w = Some (r, w')"
  shows "\<exists>recovered. r = Inl (if recovered then error else RecoveryFailed) \<and> aborted ctx w recovered w'"
proof -
  from assms obtain r1 where f: "finish_idmac_transfer E ctx True (fault w) = Some (r1, w')"
    and r: "r = Inl (case r1 of Inr _ \<Rightarrow> error | Inl e \<Rightarrow> e)"
    by (auto simp: abort_with_def abort_idmac_transfer_def split: bind_splits)
  from finish_abort [OF f] obtain recovered where
    "r1 = (if recovered then Inr () else Inl RecoveryFailed)" "aborted ctx w recovered w'" by blast
  with r show ?thesis by (intro exI [of _ recovered]) simp
qed

lemma fault_and_finish_spec:
  assumes "fault_and_finish E ctx error w = Some (r, w')"
  shows "\<exists>recovered. r = Inl (if recovered then error else RecoveryFailed) \<and> aborted ctx w recovered w'"
proof -
  from assms obtain r1 where f: "finish_idmac_transfer E ctx True (fault w) = Some (r1, w')"
    and r: "r = (case r1 of Inl e \<Rightarrow> Inl e | Inr _ \<Rightarrow> Inl error)"
    by (auto simp: fault_and_finish_def split: bind_splits)
  from finish_abort [OF f] obtain recovered where
    "r1 = (if recovered then Inr () else Inl RecoveryFailed)" "aborted ctx w recovered w'" by blast
  with r show ?thesis by (intro exI [of _ recovered]) simp
qed

lemma active_drop_spec:
  assumes "active_transfer_drop E ctx w = Some (u, w')"
  shows "\<exists>recovered. aborted ctx w recovered w'"
  using assms by (auto simp: active_transfer_drop_def split: bind_splits dest!: finish_abort)

lemma abort_returns:
  assumes "clock_progress E"
  shows "abort_with E ctx error w \<noteq> None" "fault_and_finish E ctx error w \<noteq> None"
    "active_transfer_drop E ctx w \<noteq> None"
  unfolding abort_with_def abort_idmac_transfer_def fault_and_finish_def active_transfer_drop_def
  by (intro bind_returns finish_returns assms; simp)+

section \<open>Preparation\<close>

text \<open>The chain is in memory, and its address and length are in the registers.\<close>

definition prepared :: "Command \<Rightarrow> u32 \<Rightarrow> world \<Rightarrow> IdmacTransferContext \<Rightarrow> world \<Rightarrow> bool" where
  "prepared c a w ctx w' \<longleftrightarrow>
     (\<exists>x. build c = (ctx_cmd ctx, ctx_arg ctx, Some x)
       \<and> ctx_expects_r1 ctx = has_r1_response c
       \<and> 0 < xfer_len x \<and> xfer_len x \<le> DMA_BUFFER_SIZE
       \<and> unat a + xfer_len x \<le> 2 ^ 32
       \<and> ctx_count ctx = div_ceil (xfer_len x) IDMAC_DESCRIPTOR_BUFFER_SIZE
       \<and> ctx_layout ctx = (DESCRIPTOR_SIZE * ctx_count ctx, 4)
       \<and> unat (bus_addr (ctx_desc ctx)) + (ctx_count ctx - 1) * DESCRIPTOR_SIZE < 2 ^ 32
       \<and> sd w' = sd w
       \<and> trace w' =
           EvWrite DBADDR (ucast (bus_addr (ctx_desc ctx))) # EvWrite BYTCNT (of_nat (xfer_len x)) #
           desc_events (ctx_desc ctx) 0
             (build_chain a (ucast (bus_addr (ctx_desc ctx))) (xfer_len x) (ctx_count ctx)) @
           EvAlloc (ctx_layout ctx) (Some (ctx_desc ctx)) # trace w)"

lemma clean_baseline_quiet: "quiet w (clean_status_baseline E w)"
proof -
  obtain r w1 where 1: "clear_rintsts E w = (r, w1)" by fastforce
  obtain i w2 where 2: "reg_read E IDSTS w1 = (i, w2)" by fastforce
  have "quiet w w2" using clear_rintsts_quiet [OF 1] reg_read_quiet [OF 2] by (rule quiet_trans)
  then show ?thesis
    by (auto simp: clean_status_baseline_def 1 2 Let_def
        intro!: quiet_upd atomic_quiet clear_idsts_quiet)
qed

lemma publish_chain_spec:
  assumes "publish_chain E ctx a d n w = Some (r, w')"
  obtains
    (published) "r = Inr ctx" "sd w' = sd w"
      "trace w' = EvWrite DBADDR d # EvWrite BYTCNT (of_nat n) #
         desc_events (ctx_desc ctx) 0 (build_chain a d n (ctx_count ctx)) @ trace w"
  | (aborted) w1 recovered where "r = Inl (if recovered then DescriptorPublication else RecoveryFailed)"
      "aborted ctx w1 recovered w'" "sd w1 = sd w"
      "trace w1 = EvWrite DBADDR d # EvWrite BYTCNT (of_nat n) #
         desc_events (ctx_desc ctx) 0 (build_chain a d n (ctx_count ctx)) @ trace w"
proof -
  define w1 where "w1 = dma_io_fence (reg_write E DBADDR d (reg_write E BYTCNT (of_nat n)
    (dma_io_fence (write_descriptors (ctx_desc ctx) 0 (build_chain a d n (ctx_count ctx)) w))))"
  obtain p w2 where 2: "reg_read E DBADDR w1 = (p, w2)" by fastforce
  obtain q w3 where 3: "reg_read E BYTCNT w2 = (q, w3)" by fastforce
  obtain k w4 where 4: "descriptor_owned_count E ctx w3 = (k, w4)" by fastforce
  have "quiet w1 w4"
    using reg_read_quiet [OF 2] reg_read_quiet [OF 3]
      count_owned_spec [OF 4 [unfolded descriptor_owned_count_def]] quiet_trans by blast
  then have f: "sd w4 = sd w" "trace w4 = EvWrite DBADDR d # EvWrite BYTCNT (of_nat n) #
         desc_events (ctx_desc ctx) 0 (build_chain a d n (ctx_count ctx)) @ trace w"
    by (auto dest!: quietD simp: w1_def write_descriptors_frame)
  have e: "publish_chain E ctx a d n w = (if p \<noteq> d \<or> q \<noteq> of_nat n \<or> k \<noteq> ctx_count ctx
      then abort_with E ctx DescriptorPublication w4 else Some (Inr ctx, w4))"
    unfolding publish_chain_def Let_def w1_def [symmetric] using 2 3 4 by simp
  show thesis
  proof (cases "p \<noteq> d \<or> q \<noteq> of_nat n \<or> k \<noteq> ctx_count ctx")
    case True
    with e assms abort_with_spec [of E ctx DescriptorPublication w4 r w'] f show ?thesis
      using that(2) by auto
  next
    case False
    with e assms f show ?thesis using that(1) by auto
  qed
qed

text \<open>A refusal before anything was submitted: no state change, no memory kept.\<close>

definition refused :: "world \<Rightarrow> world \<Rightarrow> bool" where
  "refused w w' \<longleftrightarrow> sd w' = sd w \<and>
     (trace w' = trace w \<or> (\<exists>l. trace w' = EvAlloc l None # trace w)
      \<or> (\<exists>i l. trace w' = EvDealloc i l # EvAlloc l (Some i) # trace w))"

lemma Layout_array: "k \<le> 2 ^ 32 \<Longrightarrow> Layout_array_descriptor k = Some (DESCRIPTOR_SIZE * k, 4)"
  by (simp add: Layout_array_descriptor_def DESCRIPTOR_SIZE_def)

lemma try_u32_Some: "try_u32 a = Some d \<longleftrightarrow> unat a < 2 ^ 32 \<and> d = ucast a"
  by (auto simp: try_u32_def)

lemma unat_try_u32: "try_u32 a = Some d \<Longrightarrow> unat d = unat a"
  by (auto simp: try_u32_Some unsigned_ucast_eq take_bit_nat_eq_self)

definition context_for :: "u32 \<Rightarrow> u32 \<Rightarrow> bool \<Rightarrow> nat \<Rightarrow> DMAInfo \<Rightarrow> IdmacTransferContext" where
  "context_for cmd arg r1 n info =
     (let k = div_ceil n IDMAC_DESCRIPTOR_BUFFER_SIZE in
      \<lparr>ctx_cmd = cmd, ctx_arg = arg, ctx_expects_r1 = r1, ctx_generation = 0, ctx_desc = info,
       ctx_layout = (DESCRIPTOR_SIZE * k, 4), ctx_count = k\<rparr>)"

lemma alloc_chain_spec:
  assumes "alloc_chain E cmd arg r1 a n w = Some (r, w')" "0 < n" "n \<le> DMA_BUFFER_SIZE"
  obtains
    (refused) e where "r = Inl e" "refused w w'"
  | (publish) info d w1 where "try_u32 (bus_addr info) = Some d"
      "checked_add d (of_nat ((ctx_count (context_for cmd arg r1 n info) - 1) * DESCRIPTOR_SIZE)) \<noteq> None"
      "sd w1 = sd w"
      "trace w1 = EvAlloc (ctx_layout (context_for cmd arg r1 n info)) (Some info) # trace w"
      "publish_chain E (context_for cmd arg r1 n info) a d n w1 = Some (r, w')"
proof -
  let ?k = "div_ceil n IDMAC_DESCRIPTOR_BUFFER_SIZE"
  let ?l = "(DESCRIPTOR_SIZE * ?k, 4)"
  have "?k \<le> n" using assms(2) by (simp add: div_ceil_def IDMAC_DESCRIPTOR_BUFFER_SIZE_def Suc_le_eq)
  then have "?k \<le> 2 ^ 32" using assms(3) by (simp add: DMA_BUFFER_SIZE_def MAX_DMA_BLOCKS_def)
  note L = Layout_array [OF this]
  obtain al w1 where al: "alloc_coherent E ?l w = (al, w1)" by fastforce
  note tr = alloc_trace [OF al]
  show thesis
  proof (cases al)
    case None
    with assms(1) L al tr show ?thesis
      by (intro refused) (auto simp: alloc_chain_def refused_def)
  next
    case (Some info)
    show ?thesis
    proof (cases "\<exists>d. try_u32 (bus_addr info) = Some d
        \<and> checked_add d (of_nat ((?k - 1) * DESCRIPTOR_SIZE)) \<noteq> None")
      case True
      then obtain d where d: "try_u32 (bus_addr info) = Some d"
        "checked_add d (of_nat ((?k - 1) * DESCRIPTOR_SIZE)) \<noteq> None" by blast
      with assms(1) L al Some have "publish_chain E (context_for cmd arg r1 n info) a d n w1 = Some (r, w')"
        by (auto simp: alloc_chain_def context_for_def Let_def split: if_splits)
      with d tr Some show ?thesis
        by (intro publish [of info d w1]) (simp_all add: context_for_def Let_def)
    next
      case False
      with assms(1) L al Some have "r = Inl DmaAddress \<and> w' = dealloc_coherent info ?l w1"
        by (auto simp: alloc_chain_def Let_def split: option.splits)
      with tr Some show ?thesis
        by (intro refused [of DmaAddress]) (auto simp: refused_def)
    qed
  qed
qed

lemma checked_add_le:
  fixes a :: "'a::len word"
  assumes "checked_add a (of_nat (n - 1)) \<noteq> None" "0 < n" "n \<le> 2 ^ LENGTH('a)"
  shows "unat a + n \<le> 2 ^ LENGTH('a)"
proof -
  have "unat (of_nat (n - 1) :: 'a word) = n - 1"
    using assms by (intro unat_of_nat_less) simp
  with assms checked_add_None_iff [of a "of_nat (n - 1)"] show ?thesis by auto
qed

lemma descriptor_count_bounds:
  assumes "0 < n" "n \<le> DMA_BUFFER_SIZE"
  shows "0 < div_ceil n IDMAC_DESCRIPTOR_BUFFER_SIZE \<and> div_ceil n IDMAC_DESCRIPTOR_BUFFER_SIZE \<le> 4"
proof -
  have "n \<le> 16384" using assms by (simp add: DMA_BUFFER_SIZE_def MAX_DMA_BLOCKS_def)
  with div_ceil_bounds [of 4096 n] assms(1)
  have "(div_ceil n 4096 - 1) * 4096 < 16384" "0 < div_ceil n 4096" by auto
  then show ?thesis by (simp add: IDMAC_DESCRIPTOR_BUFFER_SIZE_def)
qed

lemma preparedI:
  assumes "build c = (cmd, arg, Some x)" "0 < xfer_len x" "xfer_len x \<le> DMA_BUFFER_SIZE"
    and "checked_add a (of_nat (xfer_len x - 1)) \<noteq> None"
    and "ctx = context_for cmd arg (has_r1_response c) (xfer_len x) info"
    and "try_u32 (bus_addr info) = Some d"
    and "checked_add d (of_nat ((ctx_count ctx - 1) * DESCRIPTOR_SIZE)) \<noteq> None"
    and "sd w' = sd w" "trace w' = EvWrite DBADDR d # EvWrite BYTCNT (of_nat (xfer_len x)) #
             desc_events info 0 (build_chain a d (xfer_len x) (ctx_count ctx)) @
             EvAlloc (ctx_layout ctx) (Some info) # trace w"
  shows "prepared c a w ctx w'"
proof -
  let ?k = "ctx_count ctx" and ?n = "xfer_len x"
  have k: "0 < ?k" "?k \<le> 4"
    using assms descriptor_count_bounds [of ?n] by (auto simp: context_for_def Let_def)
  have "unat d + ((?k - 1) * DESCRIPTOR_SIZE + 1) \<le> 2 ^ LENGTH(32)"
    using assms(7) k by (intro checked_add_le) (auto simp: DESCRIPTOR_SIZE_def)
  then have "unat d + (?k - 1) * DESCRIPTOR_SIZE < 2 ^ 32" by simp
  moreover have "unat a + ?n \<le> 2 ^ 32"
    using checked_add_le [of a ?n] assms(2-4) by (simp add: DMA_BUFFER_SIZE_def MAX_DMA_BLOCKS_def)
  ultimately show ?thesis
    unfolding prepared_def
    using assms unat_try_u32 [OF assms(6)] assms(6) [unfolded try_u32_Some]
    by (intro exI [of _ x]) (simp add: context_for_def Let_def)
qed

lemma prepare_eq:
  assumes "build c = (cmd, arg, Some x)" "\<not> idmac_faulted (sd w)"
  shows "prepare_idmac_transfer E c a w =
    Option.bind (wait_for_transfer_idle_short E w) (\<lambda>(r, w1).
      case r of Inl e \<Rightarrow> Some (Inl e, w1)
      | Inr _ \<Rightarrow>
          if xfer_len x = 0 \<or> DMA_BUFFER_SIZE < xfer_len x
          then Some (Inl InvalidParameter, clean_status_baseline E w1)
          else if checked_add a (of_nat (xfer_len x - 1)) = None
          then Some (Inl DmaAddress, clean_status_baseline E w1)
          else alloc_chain E cmd arg (has_r1_response c) a (xfer_len x) (clean_status_baseline E w1))"
  using assms build_data_expected [OF assms(1)]
  unfolding prepare_idmac_transfer_def Let_def by simp

lemma refused_quiet: "quiet w w1 \<Longrightarrow> refused w1 w' \<Longrightarrow> refused w w'"
  by (auto simp: refused_def dest!: quietD)

lemma prepare_spec:
  assumes "prepare_idmac_transfer E c a w = Some (r, w')"
  obtains
    (refused) e where "r = Inl e" "refused w w'"
  | (aborted) ctx w1 recovered where "prepared c a w ctx w1" "aborted ctx w1 recovered w'"
      "r = Inl (if recovered then DescriptorPublication else RecoveryFailed)"
  | (prepared) ctx where "r = Inr ctx" "prepared c a w ctx w'"
proof -
  obtain cmd arg x where b: "build c = (cmd, arg, x)" using prod_cases3 by blast
  have "refused w w" by (simp add: refused_def)
  show thesis
  proof (cases "idmac_faulted (sd w) \<or> x = None")
    case True
    then have "\<exists>e. r = Inl e \<and> w' = w"
      using assms b build_data_expected [OF b]
      by (cases "idmac_faulted (sd w)") (auto simp: prepare_idmac_transfer_def)
    with \<open>refused w w\<close> show ?thesis using refused by blast
  next
    case False
    then obtain xf where x: "build c = (cmd, arg, Some xf)" "\<not> idmac_faulted (sd w)" using b by blast
    let ?n = "xfer_len xf"
    from assms obtain s w1 where i: "wait_for_transfer_idle_short E w = Some (s, w1)"
      unfolding prepare_eq [OF x] by (cases "wait_for_transfer_idle_short E w") auto
    let ?w2 = "clean_status_baseline E w1"
    have q: "quiet w w1" "quiet w ?w2"
      using wait_idle_quiet [OF i] clean_baseline_quiet quiet_trans by blast+
    then have q': "refused w w1" "refused w ?w2"
      using refused_quiet by (blast intro: refused_def [THEN iffD2])+
    consider (err) e where "r = Inl e" "w' = w1 \<or> w' = ?w2"
      | (al) "0 < ?n" "?n \<le> DMA_BUFFER_SIZE" "checked_add a (of_nat (?n - 1)) \<noteq> None"
          "alloc_chain E cmd arg (has_r1_response c) a ?n ?w2 = Some (r, w')"
      using assms i unfolding prepare_eq [OF x] by (auto split: if_splits sum.splits)
    then show ?thesis
    proof cases
      case err
      with q' show ?thesis using refused by blast
    next
      case al
      from al(4,1,2) show ?thesis
      proof (cases rule: alloc_chain_spec)
        case (refused e)
        with q show ?thesis using that(1) refused_quiet by blast
      next
        case (publish info d w3)
        let ?ctx = "context_for cmd arg (has_r1_response c) ?n info"
        note prep = preparedI [OF x(1) al(1-3) refl publish(1,2)]
        have f: "ctx_desc ?ctx = info" by (simp add: context_for_def Let_def)
        from publish(5) show ?thesis
        proof (cases rule: publish_chain_spec)
          case published
          have "prepared c a w ?ctx w'"
            using quietD [OF q(2)] publish published f by (intro prep) simp_all
          with published show ?thesis using that(3) by blast
        next
          case (aborted w4 recovered)
          have "prepared c a w ?ctx w4"
            using quietD [OF q(2)] publish aborted f by (intro prep) simp_all
          with aborted show ?thesis using that(2) by blast
        qed
      qed
    qed
  qed
qed

lemma publish_returns: "clock_progress E \<Longrightarrow> publish_chain E ctx a d n w \<noteq> None"
  by (auto simp: publish_chain_def Let_def abort_returns split: prod.splits simp del: not_None_eq)

lemma prepare_returns:
  assumes "clock_progress E"
  shows "prepare_idmac_transfer E c a w \<noteq> None"
proof -
  have al: "alloc_chain E cmd arg r1 a n w \<noteq> None" for cmd arg r1 n w
    by (auto simp: alloc_chain_def Let_def publish_returns assms
        split: prod.splits option.splits simp del: not_None_eq)
  have "wait_for_transfer_idle_short E w \<noteq> None" for w
    by (auto simp: wait_for_transfer_idle_short_def idle_short_returns assms
        split: prod.splits simp del: not_None_eq)
  with al show ?thesis
    unfolding prepare_idmac_transfer_def Let_def
    by (auto split: bind_splits prod.splits option.splits sum.splits if_splits
        iff del: not_None_eq)
qed

section \<open>Submission\<close>

text \<open>The command has been written, with at most a poll demand after it.\<close>

definition started :: "IdmacTransferContext \<Rightarrow> world \<Rightarrow> world \<Rightarrow> bool" where
  "started ctx w w' \<longleftrightarrow> sd w' = sd w
     \<and> (\<exists>pl. trace w' = pl @ EvWrite CMD (ctx_cmd ctx) # EvWrite CMDARG (ctx_arg ctx) # trace w
          \<and> set pl \<subseteq> {EvWrite PLDMND 1})
     \<and> (\<exists>es h. hist w' = es @ EvWrite CMD (ctx_cmd ctx) # h \<and> (\<forall>v. EvWrite CMD v \<notin> set es))"

lemma started_quiet: "started ctx w w1 \<Longrightarrow> quiet w1 w2 \<Longrightarrow> started ctx w w2"
proof -
  assume a: "started ctx w w1" "quiet w1 w2"
  from a(2) obtain es where "hist w2 = es @ hist w1" "\<And>v. EvWrite CMD v \<notin> set es"
    by (auto simp: quiet_def dest: quiet_no_cmd)
  moreover from a(1) obtain es1 h where "hist w1 = es1 @ EvWrite CMD (ctx_cmd ctx) # h"
    "\<And>v. EvWrite CMD v \<notin> set es1" unfolding started_def by blast
  ultimately have "hist w2 = (es @ es1) @ EvWrite CMD (ctx_cmd ctx) # h"
    "\<And>v. EvWrite CMD v \<notin> set (es @ es1)" by auto
  with a(1) quietD [OF a(2)] show "started ctx w w2" unfolding started_def by metis
qed

lemma poll_demand_started:
  assumes "started ctx w w'"
  shows "started ctx w (dma_io_fence (reg_write E PLDMND 1 w'))"
proof -
  from assms obtain pl es h where s: "sd w' = sd w"
    "trace w' = pl @ EvWrite CMD (ctx_cmd ctx) # EvWrite CMDARG (ctx_arg ctx) # trace w"
    "set pl \<subseteq> {EvWrite PLDMND 1}" "hist w' = es @ EvWrite CMD (ctx_cmd ctx) # h"
    "\<And>v. EvWrite CMD v \<notin> set es"
    unfolding started_def by blast
  obtain es' where e': "hist (preempt E w') = es' @ hist w'" "\<And>v. EvWrite CMD v \<notin> set es'"
    using quiet_preempt [of w' E] by (auto simp: quiet_def dest: quiet_no_cmd)
  then have "hist (dma_io_fence (reg_write E PLDMND 1 w')) =
      (EvFence # EvWrite PLDMND 1 # es' @ es) @ EvWrite CMD (ctx_cmd ctx) # h"
    using s(4) by (simp add: dma_io_fence_def reg_write_def raw_write_def)
  moreover have "EvWrite CMD v \<notin> set (EvFence # EvWrite PLDMND 1 # es' @ es)" for v
    using e' s(5) by simp
  moreover have "trace (dma_io_fence (reg_write E PLDMND 1 w')) =
      (EvWrite PLDMND 1 # pl) @ EvWrite CMD (ctx_cmd ctx) # EvWrite CMDARG (ctx_arg ctx) # trace w"
    using s(2) by simp
  moreover have "set (EvWrite PLDMND 1 # pl) \<subseteq> {EvWrite PLDMND 1}" using s(3) by simp
  ultimately show ?thesis
    unfolding started_def using s(1) by (metis write_simps(1,4))
qed

lemma start_spec:
  assumes "start_idmac_transfer E ctx w = Some (r, w')"
  obtains
    (started) g where "r = Inr (ctx\<lparr>ctx_generation := g\<rparr>)" "started ctx w w'"
  | (aborted) w1 recovered error where "started ctx w w1" "aborted ctx w1 recovered w'"
      "r = Inl (if recovered then error else RecoveryFailed)"
proof -
  obtain g w1 where 1: "begin_transfer E w = (g, w1)" by fastforce
  let ?ctx = "ctx\<lparr>ctx_generation := g\<rparr>"
  define w2 where "w2 = dma_io_fence (reg_write E CMD (ctx_cmd ctx)
               (dma_io_fence (reg_write E CMDARG (ctx_arg ctx) w1)))"
  have "\<exists>es h. hist w2 = es @ EvWrite CMD (ctx_cmd ctx) # h \<and> (\<forall>v. EvWrite CMD v \<notin> set es)"
    by (rule exI [of _ "[EvFence]"]) (simp add: w2_def dma_io_fence_def reg_write_def raw_write_def)
  moreover have "sd w2 = sd w" "\<exists>pl. trace w2 = pl @ EvWrite CMD (ctx_cmd ctx) #
      EvWrite CMDARG (ctx_arg ctx) # trace w \<and> set pl \<subseteq> {EvWrite PLDMND 1}"
    using begin_transfer_frame [OF 1] by (auto simp: w2_def intro!: exI [of _ "[]"])
  ultimately have s2: "started ctx w w2" unfolding started_def by blast
  obtain t w3 where 3: "monotonic_time E w2 = (t, w3)" by fastforce
  from assms 1 3 obtain timed_out w4 where
    4: "poll_deadline E (can_send_cmd E) (t + START_CMD_SPIN_TIMEOUT) w3 = Some (timed_out, w4)"
    by (auto simp: start_idmac_transfer_def Let_def w2_def split: bind_splits)
  have s4: "started ctx w w4"
    using s2 time_quiet [OF 3] csc.poll_quiet [OF 4] started_quiet by blast
  obtain i w5 where 5: "reg_read E IDSTS w4 = (i, w5)" by fastforce
  define w6 where "w6 = (if get_flag IdSts_layout ''du'' i
             then dma_io_fence (reg_write E PLDMND 1 (clear_idsts E w5)) else w5)"
  have s5: "started ctx w w5" using s4 reg_read_quiet [OF 5] by (rule started_quiet)
  then have "started ctx w (clear_idsts E w5)"
    by (rule started_quiet) (simp add: clear_idsts_quiet)
  with s5 have s6: "started ctx w w6" by (simp add: w6_def poll_demand_started)
  obtain f w7 where 7: "reg_read E IDSTS w6 = (f, w7)" by fastforce
  have s7: "started ctx w w7" using s6 reg_read_quiet [OF 7] by (rule started_quiet)
  have ab: "aborted ?ctx x b y = aborted ctx x b y" for x b y by (simp add: aborted_def)
  have e: "start_idmac_transfer E ctx w = (if timed_out then abort_with E ?ctx CommandStartTimeout w4
      else if get_flag IdSts_layout ''du'' f \<or> get_flag IdSts_layout ''ais'' f
           \<or> get_flag IdSts_layout ''fbe'' f
      then abort_with E ?ctx Hardware w7 else Some (Inr ?ctx, w7))"
    using 3 4 5 7 unfolding start_idmac_transfer_def w2_def w6_def by (simp add: 1 Let_def)
  have abort: thesis if "abort_with E ?ctx error v = Some (r, w')" "started ctx w v" for error v
  proof -
    from abort_with_spec [OF that(1)] obtain rec where
      x: "r = Inl (if rec then error else RecoveryFailed)" "aborted ctx v rec w'" unfolding ab by blast
    show thesis by (rule aborted [OF that(2) x(2,1)])
  qed
  from e assms s4 s7 abort started show thesis by (auto split: if_splits)
qed

lemma start_returns:
  assumes "clock_progress E"
  shows "start_idmac_transfer E ctx w \<noteq> None"
  unfolding start_idmac_transfer_def Let_def
  by (auto simp: csc.poll_returns abort_returns assms
      split: bind_splits prod.splits if_splits iff del: not_None_eq)

section \<open>Validation\<close>

lemma validate_quiet: "validate_idmac_terminal E ctx w = (b, w') \<Longrightarrow> quiet w w'"
  by (auto simp: validate_idmac_terminal_def descriptor_owned_def descriptor_owned_count_def
      descriptor_card_error_def split: prod.splits
      dest!: completion_status_quiet status_has_error_quiet count_owned_spec any_ces_spec
      intro: quiet_trans fence_quiet)

text \<open>What a positive validation has seen of every descriptor.\<close>

lemma reads_since_quiet:
  "quiet x x' \<Longrightarrow> reads_since x' y info is P \<Longrightarrow> reads_since x y info is P"
  "reads_since x y info is P \<Longrightarrow> quiet y z \<Longrightarrow> reads_since x z info is P"
proof -
  assume "quiet x x'" "reads_since x' y info is P"
  then obtain es1 es2 where "hist y = (es1 @ es2) @ hist x"
    "\<forall>i\<in>set is. \<exists>v. EvDescRead info i v \<in> set es1 \<and> P v"
    by (auto simp: quiet_def reads_since_def)
  then show "reads_since x y info is P" unfolding reads_since_def by (metis UnCI set_append)
next
  assume "reads_since x y info is P" "quiet y z"
  then obtain es1 es2 where "hist z = (es2 @ es1) @ hist x"
    "\<forall>i\<in>set is. \<exists>v. EvDescRead info i v \<in> set es1 \<and> P v"
    by (auto simp: quiet_def reads_since_def)
  then show "reads_since x z info is P" unfolding reads_since_def by (metis UnCI set_append)
qed

lemma validate_released:
  assumes "validate_idmac_terminal E ctx w = (True, w')"
  shows "reads_since w w' (ctx_desc ctx) [0..<ctx_count ctx] (\<lambda>v. \<not> get_flag IdmacDes0_layout ''own'' v)
    \<and> reads_since w w' (ctx_desc ctx) [0..<ctx_count ctx] (\<lambda>v. \<not> get_flag IdmacDes0_layout ''ces'' v)"
proof -
  obtain rs ist w1 where 1: "idmac_completion_status E (ctx_generation ctx) w = ((rs, ist), w1)"
    by (metis surj_pair)
  obtain he w2 where 2: "idmac_status_has_error E rs ist w1 = (he, w2)" by fastforce
  obtain n w3 where 3: "count_owned E (ctx_desc ctx) [0..<ctx_count ctx] (dma_io_fence w2) = (n, w3)"
    by fastforce
  obtain c w4 where 4: "any_ces E (ctx_desc ctx) [0..<ctx_count ctx] w3 = (c, w4)" by fastforce
  from assms 1 2 3 4 have v: "n = 0" "\<not> c" "w' = w4"
    by (auto simp: validate_idmac_terminal_def descriptor_owned_def descriptor_owned_count_def
        descriptor_card_error_def)
  have q: "quiet w (dma_io_fence w2)"
    using completion_status_quiet [OF 1] status_has_error_quiet [OF 2] quiet_trans fence_quiet by blast
  have "reads_since w w3 (ctx_desc ctx) [0..<ctx_count ctx] (\<lambda>v. \<not> get_flag IdmacDes0_layout ''own'' v)"
    using reads_since_quiet(1) [OF q] count_owned_spec [OF 3] v(1) by blast
  moreover have "quiet w w3" using q count_owned_spec [OF 3] quiet_trans by blast
  ultimately show ?thesis
    using reads_since_quiet any_ces_spec [OF 4] v(2,3) by blast
qed

section \<open>Whole transfers\<close>

text \<open>
  The trace of a transfer that was carried out: table allocated, chain written, length
  and table address programmed, argument and command written, table freed.
\<close>

definition transfer_trace ::
  "Command \<Rightarrow> u32 \<Rightarrow> DMAInfo \<Rightarrow> event list \<Rightarrow> event list" where
  "transfer_trace c a info pl =
     (case build c of (cmd, arg, x) \<Rightarrow>
        let n = (case x of None \<Rightarrow> 0 | Some x \<Rightarrow> xfer_len x);
            k = div_ceil n IDMAC_DESCRIPTOR_BUFFER_SIZE;
            table = ucast (bus_addr info)
        in EvDealloc info (DESCRIPTOR_SIZE * k, 4) # pl @
           [EvWrite CMD cmd, EvWrite CMDARG arg, EvWrite DBADDR table, EvWrite BYTCNT (of_nat n)] @
           desc_events info 0 (build_chain a table n k) @
           [EvAlloc (DESCRIPTOR_SIZE * k, 4) (Some info)])"

text \<open>
  The outcomes of a transfer: refused before submission, aborted (with the engine
  stopped and the table freed, or with the table kept after a failed reset), or done.
\<close>

definition released_after_cmd :: "u32 \<Rightarrow> DMAInfo \<Rightarrow> nat \<Rightarrow> world \<Rightarrow> bool" where
  "released_after_cmd cmd info k w \<longleftrightarrow>
     (\<exists>es h. hist w = es @ EvWrite CMD cmd # h \<and> (\<forall>v. EvWrite CMD v \<notin> set es)
        \<and> (\<forall>i<k. \<exists>v. EvDescRead info i v \<in> set es \<and> \<not> get_flag IdmacDes0_layout ''own'' v)
        \<and> (\<forall>i<k. \<exists>v. EvDescRead info i v \<in> set es \<and> \<not> get_flag IdmacDes0_layout ''ces'' v))"

definition carried_out :: "Command \<Rightarrow> u32 \<Rightarrow> world \<Rightarrow> response \<Rightarrow> world \<Rightarrow> bool" where
  "carried_out c a w resp w' \<longleftrightarrow> sd w' = sd w
     \<and> (has_r1_response c \<longrightarrow> \<not> has_error (fst resp))
     \<and> (\<exists>info pl x cmd arg. build c = (cmd, arg, Some x)
          \<and> 0 < xfer_len x \<and> xfer_len x \<le> DMA_BUFFER_SIZE \<and> unat a + xfer_len x \<le> 2 ^ 32
          \<and> unat (bus_addr info)
              + (div_ceil (xfer_len x) IDMAC_DESCRIPTOR_BUFFER_SIZE - 1) * DESCRIPTOR_SIZE < 2 ^ 32
          \<and> trace w' = transfer_trace c a info pl @ trace w \<and> set pl \<subseteq> {EvWrite PLDMND 1}
          \<and> released_after_cmd cmd info (div_ceil (xfer_len x) IDMAC_DESCRIPTOR_BUFFER_SIZE) w')"

definition abandoned :: "Command \<Rightarrow> u32 \<Rightarrow> world \<Rightarrow> bool \<Rightarrow> world \<Rightarrow> bool" where
  "abandoned c a w recovered w' \<longleftrightarrow>
     (\<exists>ctx w1 w2. prepared c a w ctx w1 \<and> (w2 = w1 \<or> started ctx w1 w2) \<and> aborted ctx w2 recovered w')"

lemma validated_response_quiet: "validated_response E ctx w = (r, w') \<Longrightarrow> quiet w w'"
  by (auto simp: validated_response_def split: prod.splits if_splits sum.splits dest!: resp_read_quiet)

lemma validated_response_ok:
  "validated_response E ctx w = (Inr resp, w') \<Longrightarrow> ctx_expects_r1 ctx \<Longrightarrow> \<not> has_error (fst resp)"
  by (auto simp: validated_response_def validate_r1_response_def
      split: prod.splits if_splits sum.splits)

text \<open>From submission to the end, once the wait is over.\<close>

lemma complete_spec:
  assumes "complete_transfer E ctx w = Some (r, w')"
  obtains
    (completed) resp w1 w2 where "r = Inr resp" "validate_idmac_terminal E ctx w = (True, w1)" "quiet w1 w2"
      "finish_idmac_transfer E ctx False w2 = Some (Inr (), w')"
      "ctx_expects_r1 ctx \<longrightarrow> \<not> has_error (fst resp)"
  | (aborted) error w1 recovered where "quiet w w1"
      "r = Inl (if recovered then error else RecoveryFailed)" "aborted ctx w1 recovered w'"
proof -
  obtain v w1 where 1: "validate_idmac_terminal E ctx w = (v, w1)" by fastforce
  obtain resp w2 where 2: "validated_response E ctx w1 = (resp, w2)" by fastforce
  have q: "quiet w w1" "quiet w1 w2" "quiet w w2"
    using validate_quiet [OF 1] validated_response_quiet [OF 2] quiet_trans by blast+
  obtain w3 where 3: "finish_idmac_transfer E ctx False w2 = Some (Inr (), w3)"
    using finish_ok by blast
  have abort: thesis if "fault_and_finish E ctx error x = Some (r, w')" "quiet w x" for error x
    using fault_and_finish_spec [OF that(1)] that(2) aborted by blast
  have e: "complete_transfer E ctx w = (if \<not> v then fault_and_finish E ctx TerminalValidation w1
      else (case resp of Inl error \<Rightarrow> fault_and_finish E ctx error w2 | Inr resp \<Rightarrow> Some (Inr resp, w3)))"
    unfolding complete_transfer_def using 1 2 3 by (simp split: sum.split)
  show thesis
  proof (cases "v \<and> (\<exists>x. resp = Inr x)")
    case True
    then obtain x where x: "v" "resp = Inr x" by blast
    with e assms have "r = Inr x" "w' = w3" by simp_all
    with x 1 2 3 q show ?thesis using validated_response_ok by (intro completed [of x w1 w2]) auto
  next
    case False
    with e assms q abort show ?thesis by (cases resp) (auto split: if_splits)
  qed
qed

lemma complete_returns: "clock_progress E \<Longrightarrow> complete_transfer E ctx w \<noteq> None"
  unfolding complete_transfer_def Let_def
  by (auto simp: abort_returns finish_returns split: bind_splits prod.splits if_splits sum.splits
      iff del: not_None_eq)

lemma carried_outI:
  assumes p: "prepared c a w ctx w1" and s: "started ctx w1 w2" and q: "quiet w2 w3"
    and v: "validate_idmac_terminal E (ctx\<lparr>ctx_generation := g\<rparr>) w3 = (True, w4)" and q': "quiet w4 w5"
    and f: "finish_idmac_transfer E (ctx\<lparr>ctx_generation := g\<rparr>) False w5 = Some (Inr (), w')"
    and r: "ctx_expects_r1 ctx \<longrightarrow> \<not> has_error (fst resp)"
  shows "carried_out c a w resp w'"
proof -
  from p obtain x where x: "build c = (ctx_cmd ctx, ctx_arg ctx, Some x)"
    "ctx_expects_r1 ctx = has_r1_response c" "0 < xfer_len x" "xfer_len x \<le> DMA_BUFFER_SIZE"
    "unat a + xfer_len x \<le> 2 ^ 32"
    "ctx_count ctx = div_ceil (xfer_len x) IDMAC_DESCRIPTOR_BUFFER_SIZE"
    "ctx_layout ctx = (DESCRIPTOR_SIZE * ctx_count ctx, 4)"
    "unat (bus_addr (ctx_desc ctx)) + (ctx_count ctx - 1) * DESCRIPTOR_SIZE < 2 ^ 32"
    "sd w1 = sd w" "trace w1 =
           EvWrite DBADDR (ucast (bus_addr (ctx_desc ctx))) # EvWrite BYTCNT (of_nat (xfer_len x)) #
           desc_events (ctx_desc ctx) 0
             (build_chain a (ucast (bus_addr (ctx_desc ctx))) (xfer_len x) (ctx_count ctx)) @
           EvAlloc (ctx_layout ctx) (Some (ctx_desc ctx)) # trace w"
    unfolding prepared_def by blast
  from s obtain pl es h where s': "sd w2 = sd w1"
    "trace w2 = pl @ EvWrite CMD (ctx_cmd ctx) # EvWrite CMDARG (ctx_arg ctx) # trace w1"
    "set pl \<subseteq> {EvWrite PLDMND 1}" "hist w2 = es @ EvWrite CMD (ctx_cmd ctx) # h"
    "\<And>v. EvWrite CMD v \<notin> set es"
    unfolding started_def by blast
  note q4 = validate_quiet [OF v]
  obtain w6 where 6: "finish_idmac_transfer E (ctx\<lparr>ctx_generation := g\<rparr>) False w5 = Some (Inr (), w6)"
    "sd w6 = sd w5" "trace w6 = EvDealloc (ctx_desc ctx) (ctx_layout ctx) # trace w5"
    "\<exists>es. hist w6 = es @ hist w5 \<and> (\<forall>v. EvWrite CMD v \<notin> set es)"
    using finish_ok [of E "ctx\<lparr>ctx_generation := g\<rparr>" w5] by auto
  with f have w': "w' = w6" by simp
  have st: "sd w5 = sd w2" "trace w5 = trace w2"
    using quietD [OF q] quietD [OF q4] quietD [OF q'] by simp_all
  have "trace w' = transfer_trace c a (ctx_desc ctx) pl @ trace w"
    using x s' 6 st w' by (simp add: transfer_trace_def Let_def)
  moreover have "released_after_cmd (ctx_cmd ctx) (ctx_desc ctx) (ctx_count ctx) w'"
  proof -
    from validate_released [OF v] obtain e1 e2 where
      e: "hist w4 = e1 @ hist w3" "hist w4 = e2 @ hist w3"
      "\<forall>i<ctx_count ctx. \<exists>v. EvDescRead (ctx_desc ctx) i v \<in> set e1 \<and> \<not> get_flag IdmacDes0_layout ''own'' v"
      "\<forall>i<ctx_count ctx. \<exists>v. EvDescRead (ctx_desc ctx) i v \<in> set e2 \<and> \<not> get_flag IdmacDes0_layout ''ces'' v"
      unfolding reads_since_def by auto
    then have e12: "e1 = e2" by simp
    from q4 e(1) have q1: "list_all quiet_ev e1" by (auto simp: quiet_def)
    from q q' 6(4) obtain a1 a2 a3 where
      h: "hist w3 = a1 @ hist w2" "hist w5 = a2 @ hist w4" "hist w6 = a3 @ hist w5"
      and "list_all quiet_ev a1" "list_all quiet_ev a2" "\<And>v. EvWrite CMD v \<notin> set a3"
      unfolding quiet_def by blast
    then have no: "\<And>v. EvWrite CMD v \<notin> set (a3 @ a2 @ e1 @ a1 @ es)"
      using s'(5) quiet_no_cmd q1 by auto
    from h have "hist w' = (a3 @ a2 @ e1 @ a1 @ es) @ EvWrite CMD (ctx_cmd ctx) # h"
      using e s' w' by simp
    with e e12 no show ?thesis
      unfolding released_after_cmd_def
      by (intro exI [of _ "a3 @ a2 @ e1 @ a1 @ es"] exI [of _ h]) auto
  qed
  ultimately show ?thesis
    unfolding carried_out_def using x s' 6 st w' r
    by (intro conjI exI [of _ "ctx_desc ctx"] exI [of _ pl] exI [of _ x] exI [of _ "ctx_cmd ctx"]
        exI [of _ "ctx_arg ctx"]) simp_all
qed

text \<open>The two ways on from the end of the wait.\<close>

lemma fail_after_wait:
  assumes "prepared c a w ctx w1" "started ctx w1 w2" "quiet w2 w3"
    and "fault_and_finish E (ctx\<lparr>ctx_generation := g\<rparr>) error w3 = Some (r, w')"
  obtains recovered where "r = Inl (if recovered then error else RecoveryFailed)"
    "abandoned c a w recovered w'"
proof -
  from fault_and_finish_spec [OF assms(4)] obtain recovered where
    "r = Inl (if recovered then error else RecoveryFailed)" "aborted ctx w3 recovered w'"
    unfolding aborted_generation by blast
  with assms(1) started_quiet [OF assms(2,3)] show thesis
    using that unfolding abandoned_def by blast
qed

lemma complete_after_wait:
  assumes p: "prepared c a w ctx w1" "started ctx w1 w2" "quiet w2 w3"
    and "complete_transfer E (ctx\<lparr>ctx_generation := g\<rparr>) w3 = Some (r, w')"
  obtains (abandoned) error recovered where "r = Inl (if recovered then error else RecoveryFailed)"
      "abandoned c a w recovered w'"
  | (carried_out) resp where "r = Inr resp" "carried_out c a w resp w'"
  using assms(4)
proof (cases rule: complete_spec)
  case (completed resp w4 w5)
  then have "carried_out c a w resp w'" by (intro carried_outI [OF p]) auto
  with completed(1) show thesis using that(2) by blast
next
  case (aborted error w4 recovered)
  then have "aborted ctx w4 recovered w'" "started ctx w1 w4"
    using started_quiet [OF p(2) quiet_trans [OF p(3)]] by simp_all
  with aborted(2) p(1) show thesis using that(1) unfolding abandoned_def by blast
qed

text \<open>Every way a synchronous transfer can end.\<close>

lemma send_cmd_idmac_spec:
  assumes "send_cmd_idmac E c a w = Some (r, w')"
  obtains
    (refused) e where "r = Inl e" "refused w w'"
  | (abandoned) error recovered where "r = Inl (if recovered then error else RecoveryFailed)"
      "abandoned c a w recovered w'"
  | (carried_out) resp where "r = Inr resp" "carried_out c a w resp w'"
proof -
  from assms obtain r1 w1 where 1: "prepare_idmac_transfer E c a w = Some (r1, w1)"
    by (auto simp: send_cmd_idmac_def split: bind_splits)
  from 1 show thesis
  proof (cases rule: prepare_spec)
    case (refused e)
    with assms 1 show ?thesis using that(1) by (auto simp: send_cmd_idmac_def)
  next
    case (aborted ctx w2 recovered)
    with assms 1 have "r = Inl (if recovered then DescriptorPublication else RecoveryFailed)" "w' = w1"
      by (auto simp: send_cmd_idmac_def)
    with aborted show ?thesis using that(2) unfolding abandoned_def by blast
  next
    case (prepared ctx)
    from assms 1 prepared obtain r2 w2 where 2: "start_idmac_transfer E ctx w1 = Some (r2, w2)"
      by (auto simp: send_cmd_idmac_def split: bind_splits)
    from 2 show ?thesis
    proof (cases rule: start_spec)
      case (aborted w3 recovered error)
      with assms 1 2 prepared have "r = Inl (if recovered then error else RecoveryFailed)" "w' = w2"
        by (auto simp: send_cmd_idmac_def)
      with aborted prepared show ?thesis using that(2) unfolding abandoned_def by blast
    next
      case (started g)
      let ?ctx = "ctx\<lparr>ctx_generation := g\<rparr>"
      from assms 1 2 prepared started obtain r3 w3 where 3: "wait_transfer_sync E ?ctx w2 = Some (r3, w3)"
        by (auto simp: send_cmd_idmac_def split: bind_splits)
      note ps = prepared(2) started(2) wait_sync_quiet [OF 3]
      show ?thesis
      proof (cases r3)
        case (Inl error)
        with assms 1 2 3 prepared started have "fault_and_finish E ?ctx error w3 = Some (r, w')"
          by (simp add: send_cmd_idmac_def)
        from fail_after_wait [OF ps this] show ?thesis using that(2) by blast
      next
        case (Inr u)
        with assms 1 2 3 prepared started have "complete_transfer E ?ctx w3 = Some (r, w')"
          by (simp add: send_cmd_idmac_def)
        from complete_after_wait [OF ps this] show ?thesis using that(2,3) by blast
      qed
    qed
  qed
qed

lemma send_cmd_idmac_returns:
  assumes "clock_progress E"
  shows "send_cmd_idmac E c a w \<noteq> None"
  unfolding send_cmd_idmac_def
  by (auto simp: assms prepare_returns start_returns wait_sync_returns complete_returns abort_returns
      split: bind_splits sum.splits iff del: not_None_eq)

section \<open>Memory and faults of the outcomes\<close>

lemma mem_inv_live: "mem_inv w \<Longrightarrow> live (trace w) \<noteq> None"
  by (auto simp: mem_inv_def)

lemma mem_inv_same:
  "mem_inv w \<Longrightarrow> sd w' = sd w \<Longrightarrow> live (trace w') = live (trace w) \<Longrightarrow> mem_inv w'"
  by (simp add: mem_inv_def)

lemma refused_mem:
  assumes "refused w w'" "mem_inv w"
  shows "mem_inv w' \<and> live (trace w') = live (trace w)"
proof -
  have "live (trace w') = live (trace w)"
    using assms(1) live_paired [of "[]" "trace w"] mem_inv_live [OF assms(2)]
    by (auto simp: refused_def)
  with assms show ?thesis by (auto simp: refused_def intro: mem_inv_same)
qed

lemma transfer_trace_live:
  assumes "live t \<noteq> None" "set pl \<subseteq> {EvWrite PLDMND 1}"
  shows "live (transfer_trace c a info pl @ t) = live t"
proof -
  have "list_all (\<lambda>e. \<not> mem_ev e) pl" using assms(2) by (auto simp: list_all_iff)
  then show ?thesis
    using assms(1) desc_events_calm
    by (auto simp: transfer_trace_def Let_def live_append_neutral split: prod.splits option.splits)
qed

lemma carried_out_mem:
  assumes "carried_out c a w resp w'" "mem_inv w"
  shows "mem_inv w' \<and> live (trace w') = live (trace w)"
proof -
  have "live (trace w') = live (trace w)"
    using assms(1) transfer_trace_live [OF mem_inv_live [OF assms(2)]]
    unfolding carried_out_def by metis
  with assms show ?thesis unfolding carried_out_def by (blast intro: mem_inv_same)
qed

lemma started_live: "started ctx w w' \<Longrightarrow> calm w w'"
proof -
  assume "started ctx w w'"
  then obtain pl where "sd w' = sd w" "set pl \<subseteq> {EvWrite PLDMND 1}"
    "trace w' = (pl @ [EvWrite CMD (ctx_cmd ctx), EvWrite CMDARG (ctx_arg ctx)]) @ trace w"
    unfolding started_def by auto
  moreover from this(2) have "list_all (\<lambda>e. \<not> mem_ev e)
      (pl @ [EvWrite CMD (ctx_cmd ctx), EvWrite CMDARG (ctx_arg ctx)])"
    by (auto simp: list_all_iff)
  ultimately show ?thesis by (metis calm_def live_append_neutral)
qed

lemma prepared_live:
  "prepared c a w ctx w' \<Longrightarrow> sd w' = sd w
     \<and> live (trace w') = live (EvAlloc (ctx_layout ctx) (Some (ctx_desc ctx)) # trace w)"
  by (auto simp: prepared_def live_append_neutral [OF desc_events_calm])

lemma aborted_fault:
  "aborted ctx w recovered w' \<Longrightarrow> idmac_faulted (sd w') \<and> dma_buffer (sd w') = dma_buffer (sd w)
     \<and> ahb_data_width (sd w') = ahb_data_width (sd w) \<and> num_blocks (sd w') = num_blocks (sd w)
     \<and> idmac_reset_failed (sd w') = (\<not> recovered \<or> idmac_reset_failed (sd w))"
  by (auto simp: aborted_def split: if_splits)

lemma abandoned_mem:
  assumes "abandoned c a w recovered w'" "mem_inv w"
  shows "mem_inv w' \<and> idmac_faulted (sd w') \<and> dma_buffer (sd w') = dma_buffer (sd w)
    \<and> num_blocks (sd w') = num_blocks (sd w)
    \<and> (if recovered then live (trace w') = live (trace w) else idmac_reset_failed (sd w'))"
proof -
  from assms(1) obtain ctx w1 w2 where p: "prepared c a w ctx w1" "w2 = w1 \<or> started ctx w1 w2"
    and ab: "aborted ctx w2 recovered w'" unfolding abandoned_def by blast
  have "calm w1 w2" using p(2) started_live by auto
  with prepared_live [OF p(1)] have w2: "sd w2 = sd w"
    "live (trace w2) = map_option (Cons (ctx_desc ctx, ctx_layout ctx)) (live (trace w))"
    by (simp_all add: calm_def)
  from assms(2) obtain kept where k: "live (trace w) = Some (kept @ buffer_live (sd w))"
    "kept \<noteq> [] \<longrightarrow> idmac_reset_failed (sd w)" unfolding mem_inv_def by blast
  show ?thesis
  proof (cases recovered)
    case True
    with ab obtain c es where "trace w' = EvWrite CTRL c # EvDealloc (ctx_desc ctx) (ctx_layout ctx) # es @ trace w2"
      "list_all stop_ev es" "sd w' = (sd w)\<lparr>idmac_faulted := True\<rparr>"
      using w2 by (auto simp: aborted_def)
    then have "live (trace w') = live (trace w)" "sd w' = (sd w)\<lparr>idmac_faulted := True\<rparr>"
      using w2 k live_append_neutral [OF stop_evs_calm] by auto
    with assms(2) True show ?thesis by (auto simp: mem_inv_def)
  next
    case False
    with ab obtain es where "trace w' = es @ trace w2" "list_all stop_ev es"
      "sd w' = (sd w)\<lparr>idmac_faulted := True, idmac_reset_failed := True\<rparr>"
      using w2 by (auto simp: aborted_def)
    then have "live (trace w') = Some ((ctx_desc ctx, ctx_layout ctx) # kept @ buffer_live (sd w))"
      "sd w' = (sd w)\<lparr>idmac_faulted := True, idmac_reset_failed := True\<rparr>"
      using w2 k live_append_neutral [OF stop_evs_calm] by auto
    with assms(2) False show ?thesis
      by (auto simp: mem_inv_def intro!: exI [of _ "(ctx_desc ctx, ctx_layout ctx) # kept"])
  qed
qed

definition submissions :: "world \<Rightarrow> nat" where
  "submissions w = length (filter (\<lambda>e. \<exists>v. e = EvWrite CMD v) (trace w))"

lemma refused_submissions: "refused w w' \<Longrightarrow> submissions w' = submissions w"
  by (auto simp: refused_def submissions_def)

section \<open>Asynchronous transfers\<close>

text \<open>Waits on the queue; they end when the wall clock advances.\<close>

definition wall_progress :: "env \<Rightarrow> bool" where
  "wall_progress E \<longleftrightarrow> (\<forall>d. \<exists>n. \<forall>h. n \<le> length h \<longrightarrow> d \<le> wall_val E h)"

context polled
begin

lemma wait_queue_quiet:
  assumes "wait_queue_loop E cond d w = Some (r, w')"
  shows "quiet w w'"
proof -
  have "cond = cond \<longrightarrow> quiet w (snd (r, w'))"
  proof (rule wait_queue_loop.raw_induct [OF _ assms, where P = "\<lambda>E c d w y. c = cond \<longrightarrow> quiet w (snd y)"],
      intro impI)
    fix f E co d w y
    assume IH: "\<And>E co d w y. f E co d w = Some y \<Longrightarrow> co = cond \<longrightarrow> quiet w (snd y)"
      and eq: "(case co w of (ok, w) \<Rightarrow> if ok then Some (Done False, w)
        else (case wall_time E w of (t, w) \<Rightarrow> if d \<le> t then Some (Done True, w)
          else (case co w of (ok, w) \<Rightarrow> if ok then Some (Done False, w)
            else if cancel_val E (hist w) then Some (Dropped, log_ev EvYield w)
            else f E co d (log_ev EvYield w)))) = Some y"
      and co: "co = cond"
    obtain b1 w1 where 1: "cond w = (b1, w1)" by fastforce
    obtain t w2 where 2: "wall_time E w1 = (t, w2)" by fastforce
    obtain b3 w3 where 3: "cond w2 = (b3, w3)" by fastforce
    have q1: "quiet w w1" by (rule cond_quiet [OF 1])
    have q2: "quiet w w2" by (rule quiet_trans [OF q1 wall_quiet [OF 2]])
    have q3: "quiet w w3" by (rule quiet_trans [OF q2 cond_quiet [OF 3]])
    have q4: "quiet w (log_ev EvYield w3)" by (rule quiet_log_evI [OF q3]) simp
    have q5: "quiet w (snd y)" if "f E cond d (log_ev EvYield w3) = Some y"
      using quiet_trans [OF q4] IH [OF that] by blast
    have "(if b1 then Some (Done False, w1) else if d \<le> t then Some (Done True, w2)
        else if b3 then Some (Done False, w3)
        else if cancel_val E (hist w3) then Some (Dropped, log_ev EvYield w3)
        else f E cond d (log_ev EvYield w3)) = Some y"
      using eq unfolding co 1 2 3 prod.case .
    then have "y \<in> {(Done False, w1), (Done True, w2), (Done False, w3), (Dropped, log_ev EvYield w3)}
        \<or> f E cond d (log_ev EvYield w3) = Some y"
      by (metis insertCI option.inject)
    then show "quiet w (snd y)" using q1 q2 q3 q4 q5 by (metis insertE singletonD snd_conv)
  qed
  then show ?thesis by simp
qed

lemma wait_queue_returns:
  assumes "wall_progress E"
  shows "wait_queue_loop E cond d w \<noteq> None"
proof -
  from assms obtain n where n: "n \<le> length h \<Longrightarrow> d \<le> wall_val E h" for h
    unfolding wall_progress_def by blast
  show ?thesis
  proof (induction "n - length (hist w)" arbitrary: w rule: less_induct)
    case less
    obtain b1 w1 where 1: "cond w = (b1, w1)" by fastforce
    obtain t w2 where 2: "wall_time E w1 = (t, w2)" by fastforce
    obtain b3 w3 where 3: "cond w2 = (b3, w3)" by fastforce
    have t: "t = wall_val E (hist (preempt E w1))" "length (hist w2) = Suc (length (hist (preempt E w1)))"
      using 2 by (auto simp: wall_time_def Let_def)
    have "length (hist w) \<le> length (hist (preempt E w1))" "length (hist w2) \<le> length (hist w3)"
      using cond_quiet [OF 1] cond_quiet [OF 3] quiet_preemptI quiet_length by blast+
    with t n have "d \<le> t \<or> n - length (hist (log_ev EvYield w3)) < n - length (hist w)"
      by (cases "n \<le> length (hist (preempt E w1))") auto
    then show ?case
      by (subst wait_queue_loop.simps) (use 1 2 3 less in auto)
  qed
qed

lemma async_wait_quiet:
  assumes "wait_timeout_until_async E d cond w = Some (r, w')"
  shows "quiet w w'"
proof -
  obtain t w1 where t: "wall_time E w = (t, w1)" by fastforce
  with assms have "wait_queue_loop E cond (t + d) w1 = Some (r, w')"
    by (simp add: wait_timeout_until_async_def)
  from wait_queue_quiet [OF this] show ?thesis
    by (rule quiet_trans [OF wall_quiet [OF t]])
qed

lemma async_wait_returns: "wall_progress E \<Longrightarrow> wait_timeout_until_async E d cond w \<noteq> None"
  unfolding wait_timeout_until_async_def
  by (simp add: wait_queue_returns split: prod.split del: not_None_eq)

end

lemma wait_async_quiet: "wait_transfer_async E ctx w = Some (r, w') \<Longrightarrow> quiet w w'"
  apply (auto simp: wait_transfer_async_def split: prod.splits if_splits bind_splits fut.splits
      dest!: cdone.async_wait_quiet tev.async_wait_quiet completion_has_error_quiet completion_status_quiet status_has_error_quiet)
  by (meson quiet_trans)+

text \<open>Every way an asynchronous transfer can end.\<close>

lemma send_cmd_idmac_async_spec:
  assumes "send_cmd_idmac_async E c a w = Some (r, w')"
  obtains
    (refused) e where "r = Done (Inl e)" "refused w w'"
  | (abandoned) error recovered where "r = Done (Inl (if recovered then error else RecoveryFailed))"
      "abandoned c a w recovered w'"
  | (cancelled) recovered where "r = Dropped" "abandoned c a w recovered w'"
  | (carried_out) resp where "r = Done (Inr resp)" "carried_out c a w resp w'"
proof -
  from assms obtain r1 w1 where 1: "prepare_idmac_transfer E c a w = Some (r1, w1)"
    by (auto simp: send_cmd_idmac_async_def split: bind_splits)
  from 1 show thesis
  proof (cases rule: prepare_spec)
    case (refused e)
    with assms 1 show ?thesis using that(1) by (auto simp: send_cmd_idmac_async_def)
  next
    case (aborted ctx w2 recovered)
    with assms 1 have "r = Done (Inl (if recovered then DescriptorPublication else RecoveryFailed))" "w' = w1"
      by (auto simp: send_cmd_idmac_async_def)
    with aborted show ?thesis using that(2) unfolding abandoned_def by blast
  next
    case (prepared ctx)
    from assms 1 prepared obtain r2 w2 where 2: "start_idmac_transfer E ctx w1 = Some (r2, w2)"
      by (auto simp: send_cmd_idmac_async_def split: bind_splits)
    from 2 show ?thesis
    proof (cases rule: start_spec)
      case (aborted w3 recovered error)
      with assms 1 2 prepared have "r = Done (Inl (if recovered then error else RecoveryFailed))" "w' = w2"
        by (auto simp: send_cmd_idmac_async_def)
      with aborted prepared show ?thesis using that(2) unfolding abandoned_def by blast
    next
      case (started g)
      let ?ctx = "ctx\<lparr>ctx_generation := g\<rparr>"
      from assms 1 2 prepared started obtain r3 w3 where 3: "wait_transfer_async E ?ctx w2 = Some (r3, w3)"
        by (auto simp: send_cmd_idmac_async_def split: bind_splits)
      note ps = prepared(2) started(2) wait_async_quiet [OF 3]
      consider "r3 = Dropped" | error where "r3 = Done (Inl error)" | "r3 = Done (Inr ())"
        by (metis fut.exhaust old.unit.exhaust sumE)
      then show ?thesis
      proof cases
        case 1
        with assms \<open>prepare_idmac_transfer E c a w = Some (r1, w1)\<close> 2 3 prepared started
        obtain u where d: "active_transfer_drop E ?ctx w3 = Some (u, w')" "r = Dropped"
          by (auto simp: send_cmd_idmac_async_def split: bind_splits)
        from active_drop_spec [OF d(1)] obtain recovered where "aborted ctx w3 recovered w'"
          unfolding aborted_generation by blast
        with ps(1) started_quiet [OF ps(2,3)] d(2) show ?thesis
          using that(3) unfolding abandoned_def by blast
      next
        case (2 error)
        with assms 1 3 prepared started \<open>start_idmac_transfer E ctx w1 = Some (r2, w2)\<close>
        obtain r' where "fault_and_finish E ?ctx error w3 = Some (r', w')" "r = Done r'"
          by (auto simp: send_cmd_idmac_async_def split: bind_splits)
        with fail_after_wait [OF ps] show ?thesis using that(2) by metis
      next
        case 3
        with assms 1 2 prepared started \<open>wait_transfer_async E ?ctx w2 = Some (r3, w3)\<close>
        obtain r' where "complete_transfer E ?ctx w3 = Some (r', w')" "r = Done r'"
          by (auto simp: send_cmd_idmac_async_def split: bind_splits)
        with complete_after_wait [OF ps] show ?thesis using that(2,4) by metis
      qed
    qed
  qed
qed

lemma wait_async_returns:
  assumes "wall_progress E"
  shows "wait_transfer_async E ctx w \<noteq> None"
  unfolding wait_transfer_async_def Let_def
  by (auto simp: cdone.async_wait_returns [OF assms] tev.async_wait_returns [OF assms]
      split: bind_splits prod.splits fut.splits if_splits iff del: not_None_eq)

lemma send_cmd_idmac_async_returns:
  assumes "clock_progress E" "wall_progress E"
  shows "send_cmd_idmac_async E c a w \<noteq> None"
  unfolding send_cmd_idmac_async_def
  by (auto simp: assms prepare_returns start_returns wait_async_returns complete_returns abort_returns
      split: bind_splits sum.splits fut.splits iff del: not_None_eq)

section \<open>A transfer on the simulated controller\<close>

text \<open>No interrupt has been recorded for the current transfer.\<close>

definition armed :: "world \<Rightarrow> bool" where
  "armed w \<longleftrightarrow> rintsts_bits (completion w) = 0 \<and> idsts_bits (completion w) = 0
     \<and> \<not> IDMAC_ERROR_FLAG (statics w)"

definition sim_same :: "world \<Rightarrow> world \<Rightarrow> bool" where
  "sim_same w w' \<longleftrightarrow> sd w' = sd w \<and> statics w' = statics w
     \<and> desc_pending (hist w') = desc_pending (hist w)
     \<and> last_write CMD (hist w') = last_write CMD (hist w)
     \<and> last_write CMDARG (hist w') = last_write CMDARG (hist w)"

lemma sim_same_refl [simp]: "sim_same w w"
  by (simp add: sim_same_def)

lemma sim_same_trans: "sim_same w1 w2 \<Longrightarrow> sim_same w2 w3 \<Longrightarrow> sim_same w1 w3"
  by (simp add: sim_same_def)

lemma sim_same_armed: "sim_same w w' \<Longrightarrow> armed w' = armed w"
  by (simp add: sim_same_def armed_def)

lemma sim_status:
  "armed w \<Longrightarrow> \<exists>w'. idmac_completion_status (sim_env m) g w = ((0x400C, 0x103), w') \<and> sim_same w w'"
  by (auto simp: idmac_completion_status_def sim_access snapshot_bits_def Let_def armed_def sim_same_def)

lemma sim_has_error:
  "armed w \<Longrightarrow> \<exists>w'. idmac_status_has_error (sim_env m) 0x400C 0x103 w = (False, w') \<and> sim_same w w'"
  by (auto simp: idmac_status_has_error_def sim_access Let_def armed_def sim_same_def sim_flags)

lemma sim_completion_error:
  assumes "armed w"
  shows "\<exists>w'. completion_has_error (sim_env m) ctx w = (False, w') \<and> sim_same w w'"
proof -
  obtain w1 where 1: "idmac_completion_status (sim_env m) (ctx_generation ctx) w = ((0x400C, 0x103), w1)"
    "sim_same w w1" using sim_status [OF assms] by blast
  with assms obtain w2 where 2: "idmac_status_has_error (sim_env m) 0x400C 0x103 w1 = (False, w2)"
    "sim_same w1 w2" using sim_has_error sim_same_armed by blast
  from 1 2 show ?thesis by (auto simp: completion_has_error_def intro: sim_same_trans)
qed

lemma sim_command_done:
  assumes "armed w"
  shows "\<exists>w'. idmac_command_done_or_error (sim_env m) ctx w = (True, w') \<and> sim_same w w'"
  using sim_status [OF assms, of m "ctx_generation ctx"]
  by (auto simp: idmac_command_done_or_error_def sim_flags)

lemma sim_terminal_events: "terminal_events ctx 0x400C 0x103"
  by (simp add: terminal_events_def sim_flags)

lemma sim_terminal:
  assumes "armed w"
  shows "\<exists>w'. idmac_terminal_events_or_error (sim_env m) ctx w = (True, w') \<and> sim_same w w'"
proof -
  obtain w1 where 1: "idmac_completion_status (sim_env m) (ctx_generation ctx) w = ((0x400C, 0x103), w1)"
    "sim_same w w1" using sim_status [OF assms] by blast
  with assms obtain w2 where 2: "idmac_status_has_error (sim_env m) 0x400C 0x103 w1 = (False, w2)"
    "sim_same w1 w2" using sim_has_error sim_same_armed by blast
  from 1 2 show ?thesis
    by (auto simp: idmac_terminal_events_or_error_def sim_terminal_events intro: sim_same_trans)
qed

lemma sim_same_log: "sim_same w (log_ev (EvTime t) w)" "sim_same w (log_ev (EvWall t) w)"
  by (simp_all add: sim_same_def)

lemma sim_wait_sync:
  assumes "armed w"
  shows "\<exists>w'. wait_transfer_sync (sim_env m) ctx w = Some (Inr (), w') \<and> sim_same w w'"
proof -
  let ?E = "sim_env m"
  obtain w1 where 1: "sim_same w w1" "(if get_flag Cmd_layout ''response_expect'' (ctx_cmd ctx)
        then (case monotonic_time ?E w of (t, w) \<Rightarrow>
          poll_deadline ?E (idmac_command_done_or_error ?E ctx) (t + IDMAC_COMMAND_TIMEOUT) w)
        else Some (False, w)) = Some (False, w1)"
  proof (cases "get_flag Cmd_layout ''response_expect'' (ctx_cmd ctx)")
    case True
    let ?w = "log_ev (EvTime (length (hist w))) w"
    have s: "sim_same w ?w" by (rule sim_same_log)
    with assms obtain w1 where "idmac_command_done_or_error ?E ctx ?w = (True, w1)" "sim_same ?w w1"
      using sim_command_done sim_same_armed by blast
    with True s show ?thesis using that by (auto simp: sim_access sim_poll intro: sim_same_trans)
  qed (use that in auto)
  then have a1: "armed w1" using assms sim_same_armed by blast
  obtain w2 where 2: "completion_has_error ?E ctx w1 = (False, w2)" "sim_same w1 w2"
    using sim_completion_error [OF a1] by blast
  let ?w2 = "log_ev (EvTime (length (hist w2))) w2"
  have "armed ?w2" using a1 2(2) sim_same_armed sim_same_log by blast
  then obtain w3 where 3: "idmac_terminal_events_or_error ?E ctx ?w2 = (True, w3)" "sim_same ?w2 w3"
    using sim_terminal by blast
  have "armed w3" using \<open>armed ?w2\<close> 3(2) sim_same_armed by blast
  then obtain w4 where 4: "completion_has_error ?E ctx w3 = (False, w4)" "sim_same w3 w4"
    using sim_completion_error by blast
  have "sim_same w w4"
    using 1(1) 2(2) 3(2) 4(2) sim_same_log(1) by (meson sim_same_trans)
  with 1 2 3 4 show ?thesis by (simp add: wait_transfer_sync_def sim_access sim_poll)
qed

lemma sim_count_owned:
  "\<exists>w'. count_owned (sim_env m) info is w = ((if desc_pending (hist w) then length is else 0), w')
     \<and> sim_same w w' \<and> last_write DBADDR (hist w') = last_write DBADDR (hist w)"
proof (induction "is" arbitrary: w)
  case (Cons i "is")
  let ?w = "log_ev (EvDescRead info i (if desc_pending (hist w) then 0x80000000 else 0)) w"
  from Cons.IH [of ?w] obtain w' where
    "count_owned (sim_env m) info is ?w = ((if desc_pending (hist ?w) then length is else 0), w')"
    "sim_same ?w w'" "last_write DBADDR (hist w') = last_write DBADDR (hist ?w)" by blast
  moreover have "sim_same w ?w" by (simp add: sim_same_def)
  ultimately show ?case
    by (auto simp: Let_def IdmacDes0_flags intro: sim_same_trans split: if_splits)
qed simp

lemma sim_any_ces:
  "\<not> desc_pending (hist w) \<Longrightarrow> \<exists>w'. any_ces (sim_env m) info is w = (False, w') \<and> sim_same w w'"
proof (induction "is" arbitrary: w)
  case (Cons i "is")
  let ?w = "log_ev (EvDescRead info i 0) w"
  from Cons.IH [of ?w] Cons.prems obtain w' where
    "any_ces (sim_env m) info is ?w = (False, w')" "sim_same ?w w'" by auto
  moreover have "sim_same w ?w" by (simp add: sim_same_def)
  ultimately show ?case using Cons.prems by (auto simp: Let_def IdmacDes0_flags intro: sim_same_trans)
qed simp


lemma sim_validate:
  assumes "armed w" "\<not> desc_pending (hist w)"
  shows "\<exists>w'. validate_idmac_terminal (sim_env m) ctx w = (True, w') \<and> sim_same w w'"
proof -
  let ?E = "sim_env m"
  obtain w1 where 1: "idmac_completion_status ?E (ctx_generation ctx) w = ((0x400C, 0x103), w1)"
    "sim_same w w1" using sim_status [OF assms(1)] by blast
  with assms obtain w2 where 2: "idmac_status_has_error ?E 0x400C 0x103 w1 = (False, w2)"
    "sim_same w1 w2" using sim_has_error sim_same_armed by blast
  have s: "sim_same w2 (dma_io_fence w2)" by (simp add: sim_same_def dma_io_fence_def)
  then have p: "\<not> desc_pending (hist (dma_io_fence w2))" using assms(2) 1 2 by (simp add: sim_same_def)
  then obtain w3 where 3: "count_owned ?E (ctx_desc ctx) [0..<ctx_count ctx] (dma_io_fence w2) = (0, w3)"
    "sim_same (dma_io_fence w2) w3" using sim_count_owned [of m] by metis
  then have "\<not> desc_pending (hist w3)" using p by (simp add: sim_same_def)
  then obtain w4 where 4: "any_ces ?E (ctx_desc ctx) [0..<ctx_count ctx] w3 = (False, w4)"
    "sim_same w3 w4" using sim_any_ces by blast
  have "sim_same w w4" using 1(2) 2(2) s 3(2) 4(2) by (meson sim_same_trans)
  with 1 2 3 4 show ?thesis
    by (simp add: validate_idmac_terminal_def descriptor_owned_def descriptor_owned_count_def
        descriptor_card_error_def sim_terminal_events)
qed

lemma sim_finish:
  "\<exists>w'. finish_idmac_transfer (sim_env m) ctx False w = Some (Inr (), w') \<and> sim_same w w'"
  by (simp add: finish_idmac_transfer_def clear_both_status_def sim_access dealloc_coherent_def
      dma_io_fence_def sim_same_def)

lemma sim_complete_transfer:
  assumes "armed w" "\<not> desc_pending (hist w)" "\<not> has_error (fst (sim_resp (last_write CMD (hist w))))"
  shows "\<exists>w'. complete_transfer (sim_env m) ctx w = Some (Inr (sim_resp (last_write CMD (hist w))), w')
    \<and> sim_same w w'"
proof -
  obtain w1 where 1: "validate_idmac_terminal (sim_env m) ctx w = (True, w1)" "sim_same w w1"
    using sim_validate [OF assms(1,2)] by blast
  let ?r = "sim_resp (last_write CMD (hist w))"
  have r: "sim_resp (last_write CMD (hist w1)) = ?r" using 1 by (simp add: sim_same_def)
  let ?w2 = "log_ev (EvResp ?r) w1"
  obtain w3 where 3: "finish_idmac_transfer (sim_env m) ctx False ?w2 = Some (Inr (), w3)" "sim_same ?w2 w3"
    using sim_finish by blast
  have "sim_same w1 ?w2" by (simp add: sim_same_def)
  then have "sim_same w w3" using 1(2) 3(2) by (meson sim_same_trans)
  with 1 3 r assms(3) show ?thesis
    by (simp add: complete_transfer_def validated_response_def sim_access validate_r1_response_def)
qed

lemma sim_write_descriptors:
  "0 < length ds \<Longrightarrow> desc_pending (hist (write_descriptors info i ds w))"
  "statics (write_descriptors info i ds w) = statics w"
  by (induction ds arbitrary: i w) (auto split: nat.splits, (case_tac ds; simp)?)

lemma checked_add_of_nat:
  fixes a :: "'a::len word"
  assumes "unat a + n < 2 ^ LENGTH('a)"
  shows "checked_add a (of_nat n) \<noteq> None"
proof -
  have "unat (of_nat n :: 'a word) = n" using assms by (intro unat_of_nat_less) simp
  with assms show ?thesis by (simp add: checked_add_def)
qed

lemma sim_baseline:
  "\<exists>w'. clean_status_baseline (sim_env m) w = w' \<and> sd w' = sd w \<and> \<not> IDMAC_ERROR_FLAG (statics w')"
  by (simp add: clean_status_baseline_def sim_access sim_cond Let_def clear_idsts_def sim_flags)

lemma sim_idle:
  "\<exists>w'. wait_for_transfer_idle_short (sim_env m) w = Some (Inr (), w') \<and> sd w' = sd w"
  by (simp add: wait_for_transfer_idle_short_def idle_short_loop.simps sim_access sim_cond)

lemma sim_publish:
  assumes "0 < ctx_count ctx"
  shows "\<exists>w'. publish_chain (sim_env m) ctx a d n w = Some (Inr ctx, w')
    \<and> sd w' = sd w \<and> statics w' = statics w \<and> desc_pending (hist w')"
proof -
  let ?ds = "build_chain a d n (ctx_count ctx)"
  define w1 where "w1 = dma_io_fence (write_descriptors (ctx_desc ctx) 0 ?ds w)"
  define w2 where "w2 = log_ev (EvRead BYTCNT (of_nat n)) (log_ev (EvRead DBADDR d) (dma_io_fence
    (log_ev (EvWrite DBADDR d) (log_ev (EvWrite BYTCNT (of_nat n)) w1))))"
  have "length ?ds = ctx_count ctx" by (simp add: build_chain_def)
  with assms have "?ds \<noteq> []" by force
  then have p1: "sd w1 = sd w" "statics w1 = statics w" "desc_pending (hist w1)"
    using assms sim_write_descriptors write_descriptors_frame(1)
    by (simp_all add: w1_def dma_io_fence_def)
  then have p2: "sd w2 = sd w" "statics w2 = statics w" "desc_pending (hist w2)"
    by (simp_all add: w2_def dma_io_fence_def)
  then obtain w3 where 3: "count_owned (sim_env m) (ctx_desc ctx) [0..<ctx_count ctx] w2 = (ctx_count ctx, w3)"
    "sim_same w2 w3" using sim_count_owned [of m "ctx_desc ctx" "[0..<ctx_count ctx]" w2] by auto
  then show ?thesis
    using p2 unfolding publish_chain_def
    by (simp add: sim_access descriptor_owned_count_def w1_def dma_io_fence_def sim_same_def w2_def)
qed

lemma sim_prepare:
  assumes "build c = (cmd, arg, Some x)" "get_flag Cmd_layout ''data_expected'' cmd"
    "\<not> idmac_faulted (sd w)" "0 < xfer_len x" "xfer_len x \<le> DMA_BUFFER_SIZE"
    "unat a + xfer_len x \<le> 2 ^ 32"
  shows "\<exists>w'. prepare_idmac_transfer (sim_env m) c a w
      = Some (Inr (context_for cmd arg (has_r1_response c) (xfer_len x) sim_info), w')
    \<and> sd w' = sd w \<and> \<not> IDMAC_ERROR_FLAG (statics w') \<and> desc_pending (hist w')"
proof -
  let ?E = "sim_env m" and ?k = "div_ceil (xfer_len x) IDMAC_DESCRIPTOR_BUFFER_SIZE"
  let ?ctx = "context_for cmd arg (has_r1_response c) (xfer_len x) sim_info"
  obtain w1 where 1: "wait_for_transfer_idle_short ?E w = Some (Inr (), w1)" "sd w1 = sd w"
    using sim_idle by blast
  obtain w2 where 2: "clean_status_baseline ?E w1 = w2" "sd w2 = sd w1" "\<not> IDMAC_ERROR_FLAG (statics w2)"
    using sim_baseline by blast
  have k: "0 < ?k" "?k \<le> 8" using assms(4,5)
    by (auto simp: div_ceil_def IDMAC_DESCRIPTOR_BUFFER_SIZE_def DMA_BUFFER_SIZE_def MAX_DMA_BLOCKS_def)
  have count: "ctx_count ?ctx = ?k" by (simp add: context_for_def Let_def)
  let ?w3 = "log_ev (EvAlloc (DESCRIPTOR_SIZE * ?k, 4) (Some sim_info)) w2"
  obtain w4 where 4: "publish_chain ?E ?ctx a (ucast (bus_addr sim_info)) (xfer_len x) ?w3 = Some (Inr ?ctx, w4)"
    "sd w4 = sd ?w3" "statics w4 = statics ?w3" "desc_pending (hist w4)"
    using sim_publish [of ?ctx m] k(1) count by metis
  have ca: "checked_add (0x40100000 :: u32) (of_nat ((?k - 1) * DESCRIPTOR_SIZE)) \<noteq> None"
    using k(2) by (intro checked_add_of_nat) (simp add: DESCRIPTOR_SIZE_def)
  have "alloc_chain ?E cmd arg (has_r1_response c) a (xfer_len x) w2 = Some (Inr ?ctx, w4)"
    using 4(1) k ca
    by (simp add: alloc_chain_def Layout_array alloc_coherent_def try_u32_def sim_info_def context_for_def Let_def)
  moreover have "checked_add a (of_nat (xfer_len x - 1)) \<noteq> None"
    using assms(4-6) by (intro checked_add_of_nat) simp
  ultimately show ?thesis
    using assms 1 2 4 by (auto simp: prepare_idmac_transfer_def)
qed

lemma sim_start:
  "\<exists>g w'. start_idmac_transfer (sim_env m) ctx w = Some (Inr (ctx\<lparr>ctx_generation := g\<rparr>), w')
    \<and> sd w' = sd w \<and> (\<not> IDMAC_ERROR_FLAG (statics w) \<longrightarrow> armed w') \<and> \<not> desc_pending (hist w')
    \<and> last_write CMD (hist w') = ctx_cmd ctx \<and> last_write CMDARG (hist w') = ctx_arg ctx"
  by (rule exI [of _ "generation (completion w) + 1"]) (simp add: start_idmac_transfer_def begin_transfer_def Let_def sim_access sim_cond sim_poll
      sim_flags armed_def dma_io_fence_def)

lemma sim_transfer:
  assumes "build c = (cmd, arg, Some x)" "get_flag Cmd_layout ''data_expected'' cmd" "has_r1_response c"
    "\<not> idmac_faulted (sd w)" "0 < xfer_len x" "xfer_len x \<le> DMA_BUFFER_SIZE"
    "unat a + xfer_len x \<le> 2 ^ 32"
  shows "\<exists>w'. send_cmd_idmac (sim_env m) c a w = Some (Inr (sim_resp cmd), w')
    \<and> sd w' = sd w \<and> last_write CMDARG (hist w') = arg"
proof -
  let ?E = "sim_env m" and ?ctx = "context_for cmd arg (has_r1_response c) (xfer_len x) sim_info"
  have ctx: "ctx_cmd ?ctx = cmd" "ctx_arg ?ctx = arg" by (simp_all add: context_for_def Let_def)
  obtain w1 where 1: "prepare_idmac_transfer ?E c a w = Some (Inr ?ctx, w1)"
    "sd w1 = sd w" "\<not> IDMAC_ERROR_FLAG (statics w1)"
    using sim_prepare [OF assms(1,2,4-7)] by blast
  then obtain w2 g where 2: "start_idmac_transfer ?E ?ctx w1 = Some (Inr (?ctx\<lparr>ctx_generation := g\<rparr>), w2)"
    "sd w2 = sd w1" "armed w2" "\<not> desc_pending (hist w2)" "last_write CMD (hist w2) = cmd"
    "last_write CMDARG (hist w2) = arg"
    using sim_start [of m ?ctx w1] ctx by metis
  obtain w3 where 3: "wait_transfer_sync ?E (?ctx\<lparr>ctx_generation := g\<rparr>) w2 = Some (Inr (), w3)" "sim_same w2 w3"
    using sim_wait_sync [OF 2(3)] by blast
  have p: "armed w3" "\<not> desc_pending (hist w3)" "last_write CMD (hist w3) = cmd"
    using 2 3(2) sim_same_armed [OF 3(2)] by (simp_all add: sim_same_def)
  have "\<not> has_error (fst (sim_resp cmd))" using sim_resp_r1 [OF assms(3)] r1_920 assms(1) by simp
  then obtain w4 where 4: "complete_transfer ?E (?ctx\<lparr>ctx_generation := g\<rparr>) w3 = Some (Inr (sim_resp cmd), w4)"
    "sim_same w3 w4" using sim_complete_transfer [OF p(1,2)] p(3) by metis
  from 1 2 3 4 show ?thesis by (simp add: send_cmd_idmac_def sim_same_def)
qed

end
