(* ===== verification/Sd_Effect.thy ===== *)
theory Sd_Effect
  imports Sd_Transfer
begin

text \<open>
  What a DMA transfer does to the card and to memory: the chain that was published is the
  one the engine walks, so a transfer that was carried out has exactly the effect of its
  command on the bytes of the caller's buffer.  The properties of single transfers follow.
\<close>

unbundle bit_operations_syntax

section \<open>The published chain is what the engine walks\<close>

lemma unat_desc_addr:
  assumes "unat (bus_addr info) + i * DESCRIPTOR_SIZE < 2 ^ 32"
  shows "unat (desc_addr info i) = unat (bus_addr info) + i * DESCRIPTOR_SIZE"
proof -
  have "unat (ucast (bus_addr info) :: u32) = unat (bus_addr info)"
    using assms by (simp add: unsigned_ucast_eq take_bit_nat_eq_self)
  moreover have "unat (of_nat (i * DESCRIPTOR_SIZE) :: u32) = i * DESCRIPTOR_SIZE"
    using assms by (intro unat_of_nat_less) simp
  ultimately show ?thesis
    unfolding desc_addr_def using assms by (subst unat_add_less) (simp_all del: of_nat_mult)
qed

lemma desc_addr_inj:
  assumes "unat (bus_addr info) + i * DESCRIPTOR_SIZE < 2 ^ 32"
    "unat (bus_addr info) + j * DESCRIPTOR_SIZE < 2 ^ 32" "desc_addr info i = desc_addr info j"
  shows "i = j"
proof -
  have "i * DESCRIPTOR_SIZE = j * DESCRIPTOR_SIZE"
    using unat_desc_addr [OF assms(1)] unat_desc_addr [OF assms(2)] assms(3) by auto
  then show ?thesis by (simp add: DESCRIPTOR_SIZE_def)
qed

lemma desc_memory_other:
  "(\<And>i. s \<le> i \<Longrightarrow> i < s + length ds \<Longrightarrow> x \<noteq> desc_addr info i) \<Longrightarrow>
     desc_memory (desc_events info s ds @ h) x = desc_memory h x"
  by (induction ds arbitrary: s h) simp_all

lemma desc_memory_events:
  assumes "i < length ds" "unat (bus_addr info) + (s + length ds - 1) * DESCRIPTOR_SIZE < 2 ^ 32"
  shows "desc_memory (desc_events info s ds @ h) (desc_addr info (s + i)) = Some (ds ! i)"
  using assms
proof (induction ds arbitrary: s i h)
  case (Cons d ds)
  have bound: "unat (bus_addr info) + j * DESCRIPTOR_SIZE < 2 ^ 32" if "j < s + length (d # ds)" for j
  proof -
    have "j * DESCRIPTOR_SIZE \<le> (s + length (d # ds) - 1) * DESCRIPTOR_SIZE"
      using that by (intro mult_le_mono1) simp
    with Cons.prems(2) show ?thesis by linarith
  qed
  show ?case
  proof (cases i)
    case 0
    have "desc_memory (desc_events info (s + 1) ds @ EvDescWrite info s d # h) (desc_addr info s)
        = desc_memory (EvDescWrite info s d # h) (desc_addr info s)"
      using desc_addr_inj [of info s] bound by (intro desc_memory_other) fastforce
    with 0 show ?thesis by simp
  next
    case (Suc k)
    then show ?thesis
      using Cons.IH [of k "s + 1" "EvDescWrite info s d # h"] Cons.prems by simp
  qed
qed simp

lemma desc_writes_append: "desc_writes (g @ h) = desc_writes g + desc_writes h"
  by (induction g rule: desc_writes.induct) simp_all

lemma desc_writes_events: "desc_writes (desc_events info s ds) = length ds"
  by (induction ds arbitrary: s) (simp_all add: desc_writes_append)

lemma published_engine:
  fixes a :: u32
  assumes n: "0 < n" "n \<le> DMA_BUFFER_SIZE" "unat a + n \<le> 2 ^ 32"
    and k: "k = div_ceil n IDMAC_DESCRIPTOR_BUFFER_SIZE"
    and b: "unat (bus_addr info) + (k - 1) * DESCRIPTOR_SIZE < 2 ^ 32"
    and h: "h = [EvWrite CMDARG arg, EvWrite DBADDR table, EvWrite BYTCNT (of_nat n)]
        @ desc_events info 0 (build_chain a table n k) @ h0"
    and t: "table = ucast (bus_addr info)"
  shows "\<exists>segs. engine_segments h = Some segs \<and> length segs = k"
    and "engine_bytes h = [unat a..<unat a + n]"
    and "last_write CMDARG h = arg" "last_write DBADDR h = table"
proof -
  let ?ds = "build_chain a table n k" and ?segs = "map (chain_segment a n) [0..<k]"
  have len: "length ?ds = k" by (simp add: build_chain_def)
  have ut: "unat table = unat (bus_addr info)"
    using b unfolding t by (simp add: unsigned_ucast_eq take_bit_nat_eq_self)
  have m: "desc_memory h = desc_memory (desc_events info 0 ?ds @ h0)" unfolding h by simp
  have le: "chain_memory table ?ds \<subseteq>\<^sub>m desc_memory h"
    unfolding map_le_def
  proof
    fix x assume "x \<in> dom (chain_memory table ?ds)"
    then obtain d where d: "chain_memory table ?ds x = Some d" by blast
    then obtain i where i: "i < k" "x = table + of_nat (i * DESCRIPTOR_SIZE)" "d = ?ds ! i"
      unfolding chain_memory_def len by (auto dest!: map_of_SomeD simp: set_zip len)
    then have "x = desc_addr info (0 + i)" using t by (simp add: desc_addr_def)
    moreover have "desc_memory h (desc_addr info (0 + i)) = Some (?ds ! i)"
      unfolding m using i(1) b len by (intro desc_memory_events) simp_all
    ultimately show "chain_memory table ?ds x = desc_memory h x" using d i(3) by simp
  qed
  have fuel: "k \<le> desc_writes h" using len unfolding h by (simp add: desc_writes_append desc_writes_events)
  have walk: "idmac_walk (chain_memory table ?ds) k table = Some ?segs"
    unfolding k by (rule chain_walk) (use n(1) b k ut in simp_all)
  have db: "last_write DBADDR h = table" unfolding h by simp
  have w: "engine_segments h = Some ?segs"
    unfolding engine_segments_def db by (rule idmac_walk_mono [OF walk le fuel])
  then show "\<exists>segs. engine_segments h = Some segs \<and> length segs = k" by simp
  have "last_write BYTCNT h = of_nat n" unfolding h by simp
  moreover have "unat (of_nat n :: u32) = n"
    using n(2) by (intro unat_of_nat_less) (simp add: DMA_BUFFER_SIZE_def MAX_DMA_BLOCKS_def)
  moreover have "concat (map segment_bytes ?segs) = [unat a..<unat a + n]"
    using chain_bytes [of n a] n k by simp
  ultimately show "engine_bytes h = [unat a..<unat a + n]" using w by (simp add: engine_bytes_def)
  show "last_write CMDARG h = arg" "last_write DBADDR h = table" unfolding h by simp_all
qed

section \<open>The effect of a transfer\<close>

lemma split_first:
  "xs @ x # ys = xs' @ x # ys' \<Longrightarrow> x \<notin> set xs \<Longrightarrow> x \<notin> set xs' \<Longrightarrow> ys = ys'"
proof (induction xs arbitrary: xs')
  case Nil
  then show ?case by (cases xs') auto
next
  case (Cons z zs)
  then show ?case by (cases xs') auto
qed


lemma device_desc_events: "device d (desc_events info s ds @ h) = device d h"
  by (rule device_inert) (induction ds arbitrary: s; simp)

text \<open>What a transfer does to the card and the buffer, and what the processor then reads.\<close>

lemma carried_out_device:
  assumes "carried_out c a w resp w'" "build c = (cmd, arg, Some x)"
  shows "device d (trace w') = run_command cmd arg [unat a..<unat a + xfer_len x] (device d (trace w))"
    and "coherent E d \<Longrightarrow> buf_val E (hist w') b i = snd (device d (trace w')) (unat (bus_addr b) + i)"
proof -
  let ?n = "xfer_len x" and ?k = "div_ceil (xfer_len x) IDMAC_DESCRIPTOR_BUFFER_SIZE"
  from assms obtain info pl where s: "0 < ?n" "?n \<le> DMA_BUFFER_SIZE" "unat a + ?n \<le> 2 ^ 32"
    "unat (bus_addr info) + (?k - 1) * DESCRIPTOR_SIZE < 2 ^ 32"
    "trace w' = transfer_trace c a info pl @ trace w" "set pl \<subseteq> {EvWrite PLDMND 1}"
    "released_after_cmd cmd info ?k w'"
    unfolding carried_out_def by (metis Pair_inject option.inject)
  define table :: u32 where "table = ucast (bus_addr info)"
  define h where "h = [EvWrite CMDARG arg, EvWrite DBADDR table, EvWrite BYTCNT (of_nat ?n)]
        @ desc_events info 0 (build_chain a table ?n ?k)
        @ EvAlloc (DESCRIPTOR_SIZE * ?k, 4) (Some info) # trace w"
  note eng = published_engine [OF s(1-3) refl s(4) h_def table_def]
  have tr: "trace w' = EvDealloc info (DESCRIPTOR_SIZE * ?k, 4) # pl @ EvWrite CMD cmd # h"
    using s(5) assms(2) by (simp add: transfer_trace_def h_def table_def Let_def)
  have "device d (EvDealloc info (DESCRIPTOR_SIZE * ?k, 4) # pl @ EvWrite CMD cmd # h)
      = device d (EvWrite CMD cmd # h)"
    unfolding append_Cons [symmetric]
    by (rule device_inert) (use s(6) in \<open>auto simp: list_all_iff\<close>)
  also have "\<dots> = run_command cmd arg [unat a..<unat a + ?n] (device d (trace w))"
    by (simp only: device.simps refl if_True eng) (simp add: h_def device_desc_events)
  finally show "device d (trace w') = run_command cmd arg [unat a..<unat a + ?n] (device d (trace w))"
    using tr by simp
  assume co: "coherent E d"
  from s(7) obtain es h1 where r: "hist w' = es @ EvWrite CMD cmd # h1" "\<forall>v. EvWrite CMD v \<notin> set es"
    "\<forall>i<?k. \<exists>v. EvDescRead info i v \<in> set es \<and> \<not> get_flag IdmacDes0_layout ''own'' v"
    unfolding released_after_cmd_def by blast
  have "filter (\<lambda>e. \<not> quiet_ev e) h1 = h"
  proof -
    have "filter (\<lambda>e. \<not> quiet_ev e) es @ EvWrite CMD cmd # filter (\<lambda>e. \<not> quiet_ev e) h1
        = (EvDealloc info (DESCRIPTOR_SIZE * ?k, 4) # pl) @ EvWrite CMD cmd # h"
      using r(1) tr by (simp add: trace_def)
    moreover have "EvWrite CMD cmd \<notin> set (filter (\<lambda>e. \<not> quiet_ev e) es)" using r(2) by simp
    moreover have "EvWrite CMD cmd \<notin> set (EvDealloc info (DESCRIPTOR_SIZE * ?k, 4) # pl)"
      using s(6) by auto
    ultimately show ?thesis by (rule split_first)
  qed
  then have "engine_segments h1 = engine_segments h" "last_write DBADDR h1 = last_write DBADDR h"
    using engine_filter(1) [of h1] last_write_filter [of DBADDR h1] by simp_all
  with eng(1,4) obtain segs where "engine_segments h1 = Some segs" "length segs = ?k"
    "last_write DBADDR h1 = ucast (bus_addr info)" by (auto simp: table_def)
  with r co show "buf_val E (hist w') b i = snd (device d (trace w')) (unat (bus_addr b) + i)"
    unfolding coherent_def device_trace r(1) by metis
qed

section \<open>Properties\<close>



end
