(* ===== verification/Sd_Block.thy ===== *)
theory Sd_Block
  imports Sd_Effect
begin

text \<open>
  Block input and output (\<open>validate_block_buffer\<close> to \<open>is_high_capacity\<close> in
  \<open>simple-sdmmc-extended/src/sdmmc.rs\<close>): the split of a request into chunks, the copy
  through the DMA bounce buffer, the wait for the card after a write, the asynchronous
  variants, and the block-device adapter \<open>axdriver_block-m/src/sdmmc.rs\<close> above them.

  A function that fills a caller's buffer takes its old contents and returns the new
  ones, so that an error halfway leaves the chunks already read in place.  \<open>None\<close> is a
  call that does not return: a loop that never ends or an index out of range.
\<close>

definition BLOCK_SIZE :: nat where "BLOCK_SIZE = 512"
definition MIN_MULTI_BLOCK_READ_BLOCKS :: nat where "MIN_MULTI_BLOCK_READ_BLOCKS = 4"
definition ASYNC_WRITE_BUSY_TIMEOUT :: nat where "ASYNC_WRITE_BUSY_TIMEOUT = secs 5"

definition validate_block_buffer :: "SdMmc \<Rightarrow> u32 \<Rightarrow> nat \<Rightarrow> nat sd_result" where
  "validate_block_buffer s block len =
     (if len = 0 \<or> \<not> is_multiple_of len BLOCK_SIZE then Inl InvalidParameter
      else let blocks = len div BLOCK_SIZE in
        (case checked_add (ucast block :: u64) (of_nat blocks) of
           None \<Rightarrow> Inl OutOfRange
         | Some end_block \<Rightarrow>
             if num_blocks s < end_block \<or> 0xFFFFFFFF + 1 < end_block then Inl OutOfRange
             else Inr blocks))"

section \<open>Synchronous reads and writes\<close>

definition dma_contents :: "env \<Rightarrow> DMAInfo \<Rightarrow> nat \<Rightarrow> world \<Rightarrow> u8 list" where
  "dma_contents E info n w = map (buf_val E (hist w) info) [0..<n]"

definition read_command :: "u32 \<Rightarrow> u8 list \<Rightarrow> Command" where
  "read_command block dma_buf =
     (if length dma_buf = BLOCK_SIZE then ReadSingleBlock block dma_buf
      else ReadMultipleBlocks block dma_buf)"

definition write_command :: "u32 \<Rightarrow> u8 list \<Rightarrow> Command" where
  "write_command block dma_buf =
     (if length dma_buf = BLOCK_SIZE then WriteSingleBlock block dma_buf
      else WriteMultipleBlocks block dma_buf)"

definition read_dma_chunk ::
  "env \<Rightarrow> u32 \<Rightarrow> u8 list \<Rightarrow> world \<Rightarrow> (unit sd_result \<times> u8 list) step" where
  "read_dma_chunk E block buf w =
     (let w = set_transaction_size E (of_nat BLOCK_SIZE) (of_nat (length buf)) w in
      case dma_buffer (sd w) of
        None \<Rightarrow> Some ((Inl DmaUnavailable, buf), w)
      | Some b \<Rightarrow>
          (case try_u32 (bus_addr (buf_info b)) of
             None \<Rightarrow> Some ((Inl DmaAddress, buf), w)
           | Some dma_bus_addr \<Rightarrow> do {
               let dma_buf = dma_contents E (buf_info b) (length buf) w;
               (r, w) \<leftarrow> send_cmd_idmac E (read_command block dma_buf) dma_bus_addr w;
               case r of
                 Inl e \<Rightarrow> Some ((Inl e, buf), w)
               | Inr _ \<Rightarrow> do {
                   let data = dma_contents E (buf_info b) (length buf) w;
                   Some ((Inr (), data), log_ev (EvBufRead (buf_info b) data) w)
                 }
             }))"

definition wait_card_ready_after_write :: "env \<Rightarrow> world \<Rightarrow> unit sd_result step" where
  "wait_card_ready_after_write E w = do {
     let (t, w) = monotonic_time E w;
     (timed_out, w) \<leftarrow> poll_deadline E (can_send_data E) (t + secs 5) w;
     Some (if timed_out then (Inl CardBusyTimeout, fault w) else (Inr (), w))
   }"

definition write_dma_chunk :: "env \<Rightarrow> u32 \<Rightarrow> u8 list \<Rightarrow> world \<Rightarrow> unit sd_result step" where
  "write_dma_chunk E block buf w =
     (let w = set_transaction_size E (of_nat BLOCK_SIZE) (of_nat (length buf)) w in
      case dma_buffer (sd w) of
        None \<Rightarrow> Some (Inl DmaUnavailable, w)
      | Some b \<Rightarrow>
          (case try_u32 (bus_addr (buf_info b)) of
             None \<Rightarrow> Some (Inl DmaAddress, w)
           | Some dma_bus_addr \<Rightarrow> do {
               let w = log_ev (EvBufWrite (buf_info b) buf) w;
               (r, w) \<leftarrow> send_cmd_idmac E (write_command block buf) dma_bus_addr w;
               case r of
                 Inl e \<Rightarrow> Some (Inl e, w)
               | Inr _ \<Rightarrow> wait_card_ready_after_write E w
             }))"

definition read_chunk_blocks :: "nat \<Rightarrow> nat" where
  "read_chunk_blocks remaining_blocks =
     (if MIN_MULTI_BLOCK_READ_BLOCKS \<le> remaining_blocks then min remaining_blocks MAX_DMA_BLOCKS
      else 1)"

definition write_chunk_blocks :: "nat \<Rightarrow> nat" where
  "write_chunk_blocks remaining_blocks = min remaining_blocks MAX_DMA_BLOCKS"

text \<open>The block number of the next chunk, advanced only when there is one.\<close>

definition next_block :: "u32 \<Rightarrow> nat \<Rightarrow> u8 list \<Rightarrow> u32 option" where
  "next_block block chunk_blocks remaining =
     (if remaining = [] then Some block else checked_add block (of_nat chunk_blocks))"

partial_function (option) read_loop ::
  "env \<Rightarrow> u32 \<Rightarrow> u8 list \<Rightarrow> world \<Rightarrow> ((unit sd_result \<times> u8 list) \<times> world) option" where
  "read_loop E block buf w =
     (if buf = [] then Some ((Inr (), []), w)
      else
        let chunk_blocks = read_chunk_blocks (length buf div BLOCK_SIZE);
            n = chunk_blocks * BLOCK_SIZE
        in if length buf < n then None
           else Option.bind (read_dma_chunk E block (take n buf) w)
             (\<lambda>((r, chunk), w).
                case r of
                  Inl e \<Rightarrow> Some ((Inl e, chunk @ drop n buf), w)
                | Inr _ \<Rightarrow>
                    (case next_block block chunk_blocks (drop n buf) of
                       None \<Rightarrow> Some ((Inl OutOfRange, chunk @ drop n buf), w)
                     | Some block' \<Rightarrow>
                         Option.bind (read_loop E block' (drop n buf) w)
                           (\<lambda>((r, rest), w). Some ((r, chunk @ rest), w)))))"

definition read_blocks ::
  "env \<Rightarrow> u32 \<Rightarrow> u8 list \<Rightarrow> world \<Rightarrow> (unit sd_result \<times> u8 list) step" where
  "read_blocks E block buf w =
     (case validate_block_buffer (sd w) block (length buf) of
        Inl e \<Rightarrow> Some ((Inl e, buf), w)
      | Inr _ \<Rightarrow> read_loop E block buf w)"

partial_function (option) write_loop ::
  "env \<Rightarrow> u32 \<Rightarrow> u8 list \<Rightarrow> world \<Rightarrow> (unit sd_result \<times> world) option" where
  "write_loop E block buf w =
     (if buf = [] then Some (Inr (), w)
      else
        let chunk_blocks = write_chunk_blocks (length buf div BLOCK_SIZE);
            n = chunk_blocks * BLOCK_SIZE
        in Option.bind (write_dma_chunk E block (take n buf) w)
             (\<lambda>(r, w).
                case r of
                  Inl e \<Rightarrow> Some (Inl e, w)
                | Inr _ \<Rightarrow>
                    (case next_block block chunk_blocks (drop n buf) of
                       None \<Rightarrow> Some (Inl OutOfRange, w)
                     | Some block' \<Rightarrow> write_loop E block' (drop n buf) w)))"

definition write_blocks :: "env \<Rightarrow> u32 \<Rightarrow> u8 list \<Rightarrow> world \<Rightarrow> unit sd_result step" where
  "write_blocks E block buf w =
     (case validate_block_buffer (sd w) block (length buf) of
        Inl e \<Rightarrow> Some (Inl e, w)
      | Inr _ \<Rightarrow> write_loop E block buf w)"

section \<open>Asynchronous reads and writes\<close>

definition read_dma_chunk_async ::
  "env \<Rightarrow> u32 \<Rightarrow> u8 list \<Rightarrow> world \<Rightarrow> (unit sd_result fut \<times> u8 list) step" where
  "read_dma_chunk_async E block buf w =
     (let w = set_transaction_size E (of_nat BLOCK_SIZE) (of_nat (length buf)) w in
      case dma_buffer (sd w) of
        None \<Rightarrow> Some ((Done (Inl DmaUnavailable), buf), w)
      | Some b \<Rightarrow>
          (case try_u32 (bus_addr (buf_info b)) of
             None \<Rightarrow> Some ((Done (Inl DmaAddress), buf), w)
           | Some dma_bus_addr \<Rightarrow> do {
               let dma_buf = dma_contents E (buf_info b) (length buf) w;
               (r, w) \<leftarrow> send_cmd_idmac_async E (read_command block dma_buf) dma_bus_addr w;
               case r of
                 Dropped \<Rightarrow> Some ((Dropped, buf), w)
               | Done (Inl e) \<Rightarrow> Some ((Done (Inl e), buf), w)
               | Done (Inr _) \<Rightarrow> do {
                   let data = dma_contents E (buf_info b) (length buf) w;
                   Some ((Done (Inr ()), data), log_ev (EvBufRead (buf_info b) data) w)
                 }
             }))"

definition card_ready :: "u32 \<Rightarrow> u32 \<Rightarrow> bool" where
  "card_ready card_status controller_status \<longleftrightarrow>
     \<not> has_error card_status \<and> r1_ready_for_data card_status
     \<and> current_state card_status = Transfer
     \<and> \<not> get_flag Status_layout ''data_busy'' controller_status
     \<and> \<not> get_flag Status_layout ''data_state_mc_busy'' controller_status"

text \<open>
  The CMD13 loop; \<open>seen\<close> says that a card status has been seen.  Leaving it at the
  suspension point runs \<open>AsyncWriteBusyGuard::drop\<close>, which faults the driver.
\<close>

partial_function (option) busy_loop ::
  "env \<Rightarrow> u32 \<Rightarrow> nat \<Rightarrow> bool \<Rightarrow> world \<Rightarrow> (unit sd_result fut \<times> world) option" where
  "busy_loop E arg deadline seen w =
     (case (if seen
            then (case monotonic_time E w of (t, w) \<Rightarrow> (deadline \<le> t, w)) else (False, w)) of
        (timed_out, w) \<Rightarrow>
          if timed_out then Some (Done (Inl CardBusyTimeout), fault w)
          else Option.bind (send_cmd_with_deadline E (SendStatus arg) (Some deadline) w)
            (\<lambda>(r, w).
               case r of
                 Inl e \<Rightarrow> Some (Done (Inl e), fault w)
               | Inr (response, _) \<Rightarrow>
                   (case reg_read E STATUS w of (controller_status, w) \<Rightarrow>
                      if card_ready (fst response) controller_status
                      then Some (Done (Inr ()), w)
                      else (case monotonic_time E w of (t, w) \<Rightarrow>
                        if t < deadline
                        then (if cancel_val E (hist w) then Some (Dropped, fault (log_ev EvYield w))
                              else busy_loop E arg deadline True (log_ev EvYield w))
                        else busy_loop E arg deadline True w))))"

definition wait_card_ready_after_write_async :: "env \<Rightarrow> world \<Rightarrow> unit sd_result fut step" where
  "wait_card_ready_after_write_async E w =
     (let w = atomic E w;
          w = w\<lparr>statics := (statics w)\<lparr>ASYNC_WRITE_BUSY_SEQUENCE :=
                ASYNC_WRITE_BUSY_SEQUENCE (statics w) + 1\<rparr>\<rparr>;
          (t, w) = monotonic_time E w
      in busy_loop E (rca_arg w) (t + ASYNC_WRITE_BUSY_TIMEOUT) False w)"

definition write_dma_chunk_async ::
  "env \<Rightarrow> u32 \<Rightarrow> u8 list \<Rightarrow> world \<Rightarrow> unit sd_result fut step" where
  "write_dma_chunk_async E block buf w =
     (let w = set_transaction_size E (of_nat BLOCK_SIZE) (of_nat (length buf)) w in
      case dma_buffer (sd w) of
        None \<Rightarrow> Some (Done (Inl DmaUnavailable), w)
      | Some b \<Rightarrow>
          (let w = log_ev (EvBufWrite (buf_info b) buf) w in
           case try_u32 (bus_addr (buf_info b)) of
             None \<Rightarrow> Some (Done (Inl DmaAddress), w)
           | Some dma_bus_addr \<Rightarrow> do {
               (r, w) \<leftarrow> send_cmd_idmac_async E (write_command block buf) dma_bus_addr w;
               case r of
                 Dropped \<Rightarrow> Some (Dropped, w)
               | Done (Inl e) \<Rightarrow> Some (Done (Inl e), w)
               | Done (Inr _) \<Rightarrow> wait_card_ready_after_write_async E w
             }))"

partial_function (option) read_loop_async ::
  "env \<Rightarrow> u32 \<Rightarrow> u8 list \<Rightarrow> world \<Rightarrow> ((unit sd_result fut \<times> u8 list) \<times> world) option" where
  "read_loop_async E block buf w =
     (if buf = [] then Some ((Done (Inr ()), []), w)
      else
        let chunk_blocks = read_chunk_blocks (length buf div BLOCK_SIZE);
            n = chunk_blocks * BLOCK_SIZE
        in if length buf < n then None
           else Option.bind (read_dma_chunk_async E block (take n buf) w)
             (\<lambda>((r, chunk), w).
                case r of
                  Dropped \<Rightarrow> Some ((Dropped, chunk @ drop n buf), w)
                | Done res \<Rightarrow>
                   (case res of
                      Inl e \<Rightarrow> Some ((Done (Inl e), chunk @ drop n buf), w)
                    | Inr _ \<Rightarrow>
                        (case next_block block chunk_blocks (drop n buf) of
                           None \<Rightarrow> Some ((Done (Inl OutOfRange), chunk @ drop n buf), w)
                         | Some block' \<Rightarrow>
                             Option.bind (read_loop_async E block' (drop n buf) w)
                               (\<lambda>((r, rest), w). Some ((r, chunk @ rest), w))))))"

definition read_blocks_async ::
  "env \<Rightarrow> u32 \<Rightarrow> u8 list \<Rightarrow> world \<Rightarrow> (unit sd_result fut \<times> u8 list) step" where
  "read_blocks_async E block buf w =
     (case validate_block_buffer (sd w) block (length buf) of
        Inl e \<Rightarrow> Some ((Done (Inl e), buf), w)
      | Inr _ \<Rightarrow> read_loop_async E block buf w)"

partial_function (option) write_loop_async ::
  "env \<Rightarrow> u32 \<Rightarrow> u8 list \<Rightarrow> world \<Rightarrow> (unit sd_result fut \<times> world) option" where
  "write_loop_async E block buf w =
     (if buf = [] then Some (Done (Inr ()), w)
      else
        let chunk_blocks = write_chunk_blocks (length buf div BLOCK_SIZE);
            n = chunk_blocks * BLOCK_SIZE
        in Option.bind (write_dma_chunk_async E block (take n buf) w)
             (\<lambda>(r, w).
                case r of
                  Dropped \<Rightarrow> Some (Dropped, w)
                | Done res \<Rightarrow>
                   (case res of
                      Inl e \<Rightarrow> Some (Done (Inl e), w)
                    | Inr _ \<Rightarrow>
                        (case next_block block chunk_blocks (drop n buf) of
                           None \<Rightarrow> Some (Done (Inl OutOfRange), w)
                         | Some block' \<Rightarrow> write_loop_async E block' (drop n buf) w))))"

definition write_blocks_async :: "env \<Rightarrow> u32 \<Rightarrow> u8 list \<Rightarrow> world \<Rightarrow> unit sd_result fut step" where
  "write_blocks_async E block buf w =
     (case validate_block_buffer (sd w) block (length buf) of
        Inl e \<Rightarrow> Some (Done (Inl e), w)
      | Inr _ \<Rightarrow> write_loop_async E block buf w)"

section \<open>The block-device adapter\<close>

text \<open>The variants of \<open>DevError\<close> (crate \<open>axdriver_base\<close>) that the adapter produces.\<close>

datatype DevError = BadState | InvalidParam | Io | NoMemory | ResourceBusy | Unsupported

fun map_error :: "SdMmcError \<Rightarrow> DevError" where
  "map_error UnsupportedCard = Unsupported"
| "map_error InvalidParameter = InvalidParam"
| "map_error OutOfRange = InvalidParam"
| "map_error DmaAllocation = NoMemory"
| "map_error CommandBusy = ResourceBusy"
| "map_error DataBusy = ResourceBusy"
| "map_error DmaUnavailable = BadState"
| "map_error DmaAddress = BadState"
| "map_error DriverFaulted = BadState"
| "map_error RecoveryFailed = BadState"
| "map_error _ = Io"

definition dev_range_ok :: "SdMmc \<Rightarrow> u64 \<Rightarrow> nat \<Rightarrow> bool" where
  "dev_range_ok s block_id len \<longleftrightarrow>
     \<not> (len = 0 \<or> \<not> is_multiple_of len BLOCK_SIZE)
     \<and> (case checked_add block_id (of_nat (len div BLOCK_SIZE)) of
          None \<Rightarrow> False
        | Some end_block \<Rightarrow>
            \<not> (0xFFFFFFFF < block_id \<or> 0xFFFFFFFF + 1 < end_block \<or> num_blocks s < end_block))"

definition dev_read_block ::
  "env \<Rightarrow> u64 \<Rightarrow> u8 list \<Rightarrow> world \<Rightarrow> ((DevError + unit) \<times> u8 list) step" where
  "dev_read_block E block_id buf w =
     (if \<not> dev_range_ok (sd w) block_id (length buf) then Some ((Inl InvalidParam, buf), w)
      else do {
        ((r, buf), w) \<leftarrow> read_blocks E (ucast block_id) buf w;
        Some ((case r of Inl e \<Rightarrow> Inl (map_error e) | Inr _ \<Rightarrow> Inr (), buf), w)
      })"

definition dev_write_block ::
  "env \<Rightarrow> u64 \<Rightarrow> u8 list \<Rightarrow> world \<Rightarrow> (DevError + unit) step" where
  "dev_write_block E block_id buf w =
     (if \<not> dev_range_ok (sd w) block_id (length buf) then Some (Inl InvalidParam, w)
      else do {
        (r, w) \<leftarrow> write_blocks E (ucast block_id) buf w;
        Some (case r of Inl e \<Rightarrow> Inl (map_error e) | Inr _ \<Rightarrow> Inr (), w)
      })"

definition dev_flush :: "world \<Rightarrow> (DevError + unit) \<times> world" where
  "dev_flush w = (Inr (), w)"

section \<open>What every operation keeps\<close>

text \<open>
  The driver's configuration is untouched, faults are never cleared, the memory
  invariant holds and the memory held is the same unless a reset failed.
\<close>

definition keeps :: "world \<Rightarrow> world \<Rightarrow> bool" where
  "keeps w w' \<longleftrightarrow>
     dma_buffer (sd w') = dma_buffer (sd w) \<and> num_blocks (sd w') = num_blocks (sd w)
     \<and> rca (sd w') = rca (sd w)
     \<and> (idmac_faulted (sd w) \<longrightarrow> idmac_faulted (sd w'))
     \<and> (idmac_reset_failed (sd w) \<longrightarrow> idmac_reset_failed (sd w'))
     \<and> (mem_inv w \<longrightarrow> mem_inv w'
          \<and> (live (trace w') = live (trace w) \<or> idmac_reset_failed (sd w')))"

lemma keeps_refl [simp, intro]: "keeps w w"
  by (simp add: keeps_def)

lemma keeps_trans [trans]: "keeps w1 w2 \<Longrightarrow> keeps w2 w3 \<Longrightarrow> keeps w1 w3"
  unfolding keeps_def by metis

lemma keeps_calm: "calm w w' \<Longrightarrow> keeps w w'"
  using mem_inv_calm unfolding keeps_def calm_def by metis

lemma keeps_fault: "keeps w (fault w)"
  using mem_inv_fault by (auto simp: keeps_def fault_def mem_inv_def)

lemma quiet_calm: "quiet w w' \<Longrightarrow> calm w w'"
  by (simp add: calm_def quietD)

lemma keeps_quiet: "quiet w w' \<Longrightarrow> keeps w w'"
  by (rule keeps_calm [OF quiet_calm])

lemma keeps_log: "\<not> mem_ev e \<Longrightarrow> keeps w (log_ev e w)"
  by (rule keeps_calm) (simp add: calm_def live_append_neutral [of "[e]", simplified])

lemma set_transaction_size_keeps: "keeps w (set_transaction_size E b n w)"
proof (rule keeps_calm)
  obtain v where "trace (set_transaction_size E b n w) = [EvWrite BYTCNT n, EvWrite BLKSIZ v] @ trace w"
    using set_transaction_size_frame(2) by force
  then show "calm w (set_transaction_size E b n w)"
    by (simp add: calm_def set_transaction_size_frame(1) live_append_neutral del: append.simps)
qed

lemma set_transaction_size_device: "device d (trace (set_transaction_size E b n w)) = device d (trace w)"
  using set_transaction_size_frame(2) [of E b n w] by auto

lemma refused_keeps: "refused w w' \<Longrightarrow> keeps w w'"
proof -
  assume r: "refused w w'"
  then have "sd w' = sd w" by (simp add: refused_def)
  with refused_mem [OF r] show ?thesis unfolding keeps_def by simp
qed

lemma carried_out_keeps: "carried_out c a w resp w' \<Longrightarrow> keeps w w'"
proof -
  assume c: "carried_out c a w resp w'"
  then have "sd w' = sd w" by (simp add: carried_out_def)
  with carried_out_mem [OF c] show ?thesis unfolding keeps_def by simp
qed

lemma abandoned_sd:
  "abandoned c a w recovered w' \<Longrightarrow> sd w' = (sd w)\<lparr>idmac_faulted := True,
     idmac_reset_failed := (\<not> recovered \<or> idmac_reset_failed (sd w))\<rparr>"
proof -
  assume "abandoned c a w recovered w'"
  then obtain ctx w1 w2 where "prepared c a w ctx w1" "w2 = w1 \<or> started ctx w1 w2"
    and ab: "aborted ctx w2 recovered w'" unfolding abandoned_def by blast
  then have "sd w2 = sd w" using prepared_live unfolding started_def by metis
  with ab show ?thesis by (cases recovered) (simp_all add: aborted_def)
qed

lemma abandoned_keeps: "abandoned c a w recovered w' \<Longrightarrow> keeps w w'"
  using abandoned_mem [of c a w recovered w'] abandoned_sd [of c a w recovered w']
  unfolding keeps_def by (auto split: if_splits)

lemma transfer_keeps: "send_cmd_idmac E c a w = Some (r, w') \<Longrightarrow> keeps w w'"
  by (erule send_cmd_idmac_spec) (auto intro: refused_keeps carried_out_keeps abandoned_keeps)

lemma transfer_async_keeps: "send_cmd_idmac_async E c a w = Some (r, w') \<Longrightarrow> keeps w w'"
  by (erule send_cmd_idmac_async_spec) (auto intro: refused_keeps carried_out_keeps abandoned_keeps)

lemma transfer_dropped_faults:
  "send_cmd_idmac_async E c a w = Some (Dropped, w') \<Longrightarrow> idmac_faulted (sd w')"
  by (erule send_cmd_idmac_async_spec) (auto dest: abandoned_sd)

section \<open>One chunk\<close>

lemma read_command_build:
  "\<exists>cmd. build (read_command block buf) = (cmd, block, Some (XferRead buf))
     \<and> get_field Cmd_layout ''cmd_index'' cmd \<in> {17, 18}"
proof -
  obtain cmd where "build (read_command block buf) = (cmd, block, Some (XferRead buf))"
    by (cases "length buf = BLOCK_SIZE") (auto simp: read_command_def build_def Let_def)
  moreover have "get_field Cmd_layout ''cmd_index'' (fst (build (read_command block buf))) \<in> {17, 18}"
    by (simp add: read_command_def build_index)
  ultimately show ?thesis by simp
qed

lemma write_command_build:
  "\<exists>cmd. build (write_command block buf) = (cmd, block, Some (XferWrite buf))
     \<and> get_field Cmd_layout ''cmd_index'' cmd \<in> {24, 25}"
proof -
  obtain cmd where "build (write_command block buf) = (cmd, block, Some (XferWrite buf))"
    by (cases "length buf = BLOCK_SIZE") (auto simp: write_command_def build_def Let_def)
  moreover have "get_field Cmd_layout ''cmd_index'' (fst (build (write_command block buf))) \<in> {24, 25}"
    by (simp add: write_command_def build_index)
  ultimately show ?thesis by simp
qed

lemma carried_out_read:
  assumes "carried_out (read_command block buf) a w resp w'" "unat a = unat (bus_addr info)"
  shows "disk d w' = disk d w"
    and "coherent E d \<Longrightarrow> dma_contents E info (length buf) w' = get (512 * unat block) (length buf) (disk d w)"
proof -
  let ?n = "length buf" and ?p = "512 * unat block"
  obtain cmd where cmd: "build (read_command block buf) = (cmd, block, Some (XferRead buf))"
    "get_field Cmd_layout ''cmd_index'' cmd \<in> {17, 18}" using read_command_build by blast
  obtain disk0 mem where d: "device d (trace w) = (disk0, mem)" by fastforce
  have "device d (trace w') = run_command cmd block [unat a..<unat a + ?n] (device d (trace w))"
    using carried_out_device(1) [OF assms(1) cmd(1)] by (simp add: xfer_len_def)
  then have w': "device d (trace w') = (disk0, put (unat a) (get ?p ?n disk0) mem)"
    using cmd(2) d scatter_upt [of "unat a" "get ?p ?n disk0" mem] by (auto simp: run_command_def)
  with d show "disk d w' = disk d w" by simp
  assume "coherent E d"
  then have "dma_contents E info ?n w' = get (unat a) ?n (put (unat a) (get ?p ?n disk0) mem)"
    using carried_out_device(2) [OF assms(1) cmd(1)] w' assms(2)
    by (simp add: dma_contents_def map_upt_get [symmetric])
  also have "\<dots> = get ?p ?n disk0" using get_put [of "unat a" "get ?p ?n disk0"] by simp
  finally show "dma_contents E info ?n w' = get ?p ?n (disk d w)" using d by simp
qed

lemma carried_out_write:
  assumes "carried_out (write_command block buf) a (log_ev (EvBufWrite info buf) w) resp w'"
    "unat a = unat (bus_addr info)"
  shows "disk d w' = put (512 * unat block) buf (disk d w)"
proof -
  let ?n = "length buf" and ?p = "512 * unat block"
  obtain cmd where cmd: "build (write_command block buf) = (cmd, block, Some (XferWrite buf))"
    "get_field Cmd_layout ''cmd_index'' cmd \<in> {24, 25}" using write_command_build by blast
  obtain disk0 mem where d: "device d (trace w) = (disk0, mem)" by fastforce
  have "device d (trace w') = run_command cmd block [unat a..<unat a + ?n]
      (disk0, put (unat a) buf mem)"
    using carried_out_device(1) [OF assms(1) cmd(1), of d] d assms(2) by (simp add: xfer_len_def)
  moreover have "map (put (unat a) buf mem) [unat a..<unat a + ?n] = buf"
    using get_put [of "unat a" buf mem] by (simp add: get_def)
  ultimately show ?thesis using cmd(2) d by (auto simp: run_command_def)
qed


lemma read_dma_chunk_spec:
  assumes "read_dma_chunk E block buf w = Some ((r, data), w')"
  shows "keeps w w' \<and> length data = length buf
    \<and> (case r of Inl e \<Rightarrow> data = buf
       | Inr _ \<Rightarrow> disk d w' = disk d w
           \<and> (coherent E d \<longrightarrow> data = get (512 * unat block) (length buf) (disk d w)))"
proof -
  define w1 where "w1 = set_transaction_size E (of_nat BLOCK_SIZE) (of_nat (length buf)) w"
  have k1: "keeps w w1" "disk d w1 = disk d w"
    by (simp_all add: w1_def set_transaction_size_keeps set_transaction_size_device)
  show ?thesis
  proof (cases "\<exists>b a. dma_buffer (sd w1) = Some b \<and> try_u32 (bus_addr (buf_info b)) = Some a")
    case False
    with assms k1 show ?thesis
      by (auto simp: read_dma_chunk_def w1_def [symmetric] split: option.splits)
  next
    case True
    then obtain b a where b: "dma_buffer (sd w1) = Some b" "try_u32 (bus_addr (buf_info b)) = Some a"
      by blast
    let ?buf = "dma_contents E (buf_info b) (length buf) w1"
    have len: "length ?buf = length buf" by (simp add: dma_contents_def)
    from assms b obtain r2 w2 where 2: "send_cmd_idmac E (read_command block ?buf) a w1 = Some (r2, w2)"
      "(r, data) = (case r2 of Inl e \<Rightarrow> (Inl e, buf) | Inr _ \<Rightarrow> (Inr (), dma_contents E (buf_info b) (length buf) w2))"
      "w' = (case r2 of Inl e \<Rightarrow> w2 | Inr _ \<Rightarrow> log_ev (EvBufRead (buf_info b) data) w2)"
      by (auto simp: read_dma_chunk_def w1_def [symmetric] Let_def split: bind_splits sum.splits)
    note k2 = keeps_trans [OF k1(1) transfer_keeps [OF 2(1)]]
    show ?thesis
    proof (cases r2)
      case (Inl e)
      with 2 k2 show ?thesis by simp
    next
      case (Inr resp)
      with 2(1) have c: "carried_out (read_command block ?buf) a w1 resp w2"
        by (auto elim: send_cmd_idmac_spec)
      note rd = carried_out_read [OF c unat_try_u32 [OF b(2)], unfolded len]
      have "keeps w w'" using 2(3) Inr k2 keeps_trans keeps_log [of "EvBufRead (buf_info b) data" w2] by simp
      with Inr 2 rd k1(2) show ?thesis by (auto simp: dma_contents_def)
    qed
  qed
qed

lemma wait_card_ready_spec:
  assumes "wait_card_ready_after_write E w = Some (r, w')"
  shows "keeps w w' \<and> trace w' = trace w \<and> (\<forall>e. r = Inl e \<longrightarrow> idmac_faulted (sd w'))"
proof -
  obtain t w1 where 1: "monotonic_time E w = (t, w1)" by fastforce
  with assms obtain timed_out w2 where
    2: "poll_deadline E (can_send_data E) (t + secs 5) w1 = Some (timed_out, w2)"
    "(r, w') = (if timed_out then (Inl CardBusyTimeout, fault w2) else (Inr (), w2))"
    by (auto simp: wait_card_ready_after_write_def split: bind_splits)
  have q: "quiet w w2" using time_quiet [OF 1] csd.poll_quiet [OF 2(1)] quiet_trans by blast
  then have "keeps w (fault w2)" using keeps_trans [OF keeps_quiet keeps_fault] by blast
  with 2(2) q show ?thesis by (auto simp: keeps_quiet quietD split: if_splits)
qed

lemma write_dma_chunk_spec:
  assumes "write_dma_chunk E block buf w = Some (r, w')"
  shows "keeps w w' \<and> (r = Inr () \<longrightarrow> disk d w' = put (512 * unat block) buf (disk d w))"
proof -
  define w1 where "w1 = set_transaction_size E (of_nat BLOCK_SIZE) (of_nat (length buf)) w"
  have k1: "keeps w w1" "disk d w1 = disk d w"
    by (simp_all add: w1_def set_transaction_size_keeps set_transaction_size_device)
  show ?thesis
  proof (cases "\<exists>b a. dma_buffer (sd w1) = Some b \<and> try_u32 (bus_addr (buf_info b)) = Some a")
    case False
    with assms k1 show ?thesis
      by (auto simp: write_dma_chunk_def w1_def [symmetric] split: option.splits)
  next
    case True
    then obtain b a where b: "dma_buffer (sd w1) = Some b" "try_u32 (bus_addr (buf_info b)) = Some a"
      by blast
    let ?w = "log_ev (EvBufWrite (buf_info b) buf) w1"
    have k: "keeps w ?w" using keeps_trans [OF k1(1) keeps_log] by simp
    from assms b obtain r2 w2 where 2: "send_cmd_idmac E (write_command block buf) a ?w = Some (r2, w2)"
      "case r2 of Inl e \<Rightarrow> r = Inl e \<and> w' = w2 | Inr _ \<Rightarrow> wait_card_ready_after_write E w2 = Some (r, w')"
      by (auto simp: write_dma_chunk_def w1_def [symmetric] Let_def split: bind_splits sum.splits)
    note k2 = keeps_trans [OF k transfer_keeps [OF 2(1)]]
    show ?thesis
    proof (cases r2)
      case (Inl e)
      with 2 k2 show ?thesis by simp
    next
      case (Inr resp)
      with 2(1) have "carried_out (write_command block buf) a ?w resp w2"
        by (auto elim: send_cmd_idmac_spec)
      then have "disk d w2 = put (512 * unat block) buf (disk d w1)"
        using unat_try_u32 [OF b(2)] by (rule carried_out_write)
      moreover have "keeps w2 w'" "trace w' = trace w2" using wait_card_ready_spec 2(2) Inr by auto
      ultimately show ?thesis using k1(2) keeps_trans [OF k2] by simp
    qed
  qed
qed

section \<open>Splitting a request into chunks\<close>

text \<open>The contract of a chunk size: at least one block, at most the buffer, never too many.\<close>

locale chunked =
  fixes chunk :: "nat \<Rightarrow> nat"
  assumes chunk_pos: "0 < m \<Longrightarrow> 0 < chunk m"
    and chunk_le: "0 < m \<Longrightarrow> chunk m \<le> m"
    and chunk_max: "chunk m \<le> MAX_DMA_BLOCKS"
begin

lemma chunk_step:
  assumes "buf \<noteq> []" "BLOCK_SIZE dvd length buf"
  defines "n \<equiv> chunk (length buf div BLOCK_SIZE) * BLOCK_SIZE"
  shows "0 < n" "n \<le> length buf" "n \<le> DMA_BUFFER_SIZE" "BLOCK_SIZE dvd length (drop n buf)"
    "length (drop n buf) < length buf"
    "length buf div BLOCK_SIZE
       = chunk (length buf div BLOCK_SIZE) + length (drop n buf) div BLOCK_SIZE"
proof -
  from assms(2) obtain m where m: "length buf = BLOCK_SIZE * m" by blast
  have "0 < m" "length buf div BLOCK_SIZE = m" using assms(1) m by (cases m; simp add: BLOCK_SIZE_def)+
  then have c: "0 < chunk m" "chunk m \<le> m" "chunk m \<le> MAX_DMA_BLOCKS" "n = chunk m * BLOCK_SIZE"
    using chunk_pos chunk_le chunk_max n_def by simp_all
  then show "0 < n" "n \<le> length buf" "n \<le> DMA_BUFFER_SIZE"
    using m by (simp_all add: BLOCK_SIZE_def DMA_BUFFER_SIZE_def)
  have l: "length (drop n buf) = BLOCK_SIZE * (m - chunk m)"
    using c m by (simp add: right_diff_distrib' mult.commute)
  then show "BLOCK_SIZE dvd length (drop n buf)" by simp
  show "length (drop n buf) < length buf" using \<open>0 < n\<close> assms(1) by simp
  show "length buf div BLOCK_SIZE
      = chunk (length buf div BLOCK_SIZE) + length (drop n buf) div BLOCK_SIZE"
    unfolding l using \<open>length buf div BLOCK_SIZE = m\<close> c by (simp add: BLOCK_SIZE_def)
qed

text \<open>The block number of the next chunk never overflows on a request that fits.\<close>

lemma chunk_next:
  assumes "buf \<noteq> []" "BLOCK_SIZE dvd length buf" "unat block + length buf div BLOCK_SIZE \<le> 2 ^ 32"
  defines "n \<equiv> chunk (length buf div BLOCK_SIZE) * BLOCK_SIZE"
  obtains block' where "next_block block (chunk (length buf div BLOCK_SIZE)) (drop n buf) = Some block'"
    "drop n buf \<noteq> [] \<Longrightarrow> unat block' = unat block + chunk (length buf div BLOCK_SIZE)"
    "unat block' + length (drop n buf) div BLOCK_SIZE \<le> 2 ^ 32"
proof (cases "drop n buf = []")
  case True
  then have "next_block block (chunk (length buf div BLOCK_SIZE)) (drop n buf) = Some block"
    by (simp add: next_block_def)
  with that True assms(3) show thesis by simp
next
  case False
  let ?c = "chunk (length buf div BLOCK_SIZE)"
  note s = chunk_step [OF assms(1,2), folded n_def]
  have "0 < length (drop n buf) div BLOCK_SIZE"
    using s(4) False by (auto simp: BLOCK_SIZE_def dvd_div_eq_0_iff)
  then have lt: "unat block + ?c < 2 ^ 32" using s(6) assms(3) by linarith
  then have "checked_add block (of_nat ?c) \<noteq> None" by (intro checked_add_of_nat) simp
  then obtain block' where b: "checked_add block (of_nat ?c) = Some block'" by blast
  moreover have "unat (of_nat ?c :: u32) = ?c" using lt by (intro unat_of_nat_less) simp
  ultimately have "unat block' = unat block + ?c" using checked_add_Some by metis
  with that b False s(6) assms(3) show thesis by (auto simp: next_block_def)
qed

end

interpretation rch: chunked read_chunk_blocks
  by unfold_locales
    (auto simp: read_chunk_blocks_def MIN_MULTI_BLOCK_READ_BLOCKS_def MAX_DMA_BLOCKS_def)

interpretation wch: chunked write_chunk_blocks
  by unfold_locales (auto simp: write_chunk_blocks_def MAX_DMA_BLOCKS_def)

section \<open>Whole requests\<close>

text \<open>One turn of each loop.\<close>

lemma read_loop_step:
  assumes "read_loop E block buf w = Some ((r, data), w')" "buf \<noteq> []"
  defines "m \<equiv> read_chunk_blocks (length buf div BLOCK_SIZE)"
  obtains r1 chunk w1 where "read_dma_chunk E block (take (m * BLOCK_SIZE) buf) w = Some ((r1, chunk), w1)"
    "case r1 of
       Inl e \<Rightarrow> r = Inl e \<and> data = chunk @ drop (m * BLOCK_SIZE) buf \<and> w' = w1
     | Inr _ \<Rightarrow>
         (case next_block block m (drop (m * BLOCK_SIZE) buf) of
            None \<Rightarrow> r = Inl OutOfRange \<and> data = chunk @ drop (m * BLOCK_SIZE) buf \<and> w' = w1
          | Some block' \<Rightarrow> \<exists>rest. read_loop E block' (drop (m * BLOCK_SIZE) buf) w1 = Some ((r, rest), w')
              \<and> data = chunk @ rest)"
  using assms(1,2) that unfolding m_def
  by (subst (asm) read_loop.simps)
    (auto simp: Let_def split: if_splits bind_splits sum.splits option.splits)

lemma write_loop_step:
  assumes "write_loop E block buf w = Some (r, w')" "buf \<noteq> []"
  defines "m \<equiv> write_chunk_blocks (length buf div BLOCK_SIZE)"
  obtains r1 w1 where "write_dma_chunk E block (take (m * BLOCK_SIZE) buf) w = Some (r1, w1)"
    "case r1 of
       Inl e \<Rightarrow> r = Inl e \<and> w' = w1
     | Inr _ \<Rightarrow>
         (case next_block block m (drop (m * BLOCK_SIZE) buf) of
            None \<Rightarrow> r = Inl OutOfRange \<and> w' = w1
          | Some block' \<Rightarrow> write_loop E block' (drop (m * BLOCK_SIZE) buf) w1 = Some (r, w'))"
  using assms(1,2) that unfolding m_def
  by (subst (asm) write_loop.simps)
    (auto simp: Let_def split: if_splits bind_splits sum.splits option.splits)

text \<open>
  What the next chunk adds to the bytes read and stored so far.
\<close>

lemma get_chunk:
  assumes "drop n buf \<noteq> [] \<longrightarrow> 512 * unat block' = 512 * unat (block :: u32) + n" "n \<le> length buf"
  shows "get (512 * unat block) (length (take n buf)) f @ get (512 * unat (block' :: u32)) (length (drop n buf)) f
     = get (512 * unat block) (length buf) f"
  using assms get_append [of "512 * unat block" n "length buf - n" f]
  by (cases "drop n buf = []") (auto simp: get_def)

lemma put_chunk:
  assumes "drop n buf \<noteq> [] \<longrightarrow> 512 * unat block' = 512 * unat (block :: u32) + n" "n \<le> length buf"
  shows "put (512 * unat (block' :: u32)) (drop n buf) (put (512 * unat block) (take n buf) f)
     = put (512 * unat block) buf f"
  using assms put_append [of "512 * unat block" "take n buf" "drop n buf" f]
  by (cases "drop n buf = []") auto

lemma read_loop_spec:
  assumes "read_loop E block buf w = Some ((r, data), w')" "BLOCK_SIZE dvd length buf"
    "unat block + length buf div BLOCK_SIZE \<le> 2 ^ 32"
  shows "keeps w w' \<and> length data = length buf
    \<and> (r = Inr () \<longrightarrow> disk d w' = disk d w
         \<and> (coherent E d \<longrightarrow> data = get (512 * unat block) (length buf) (disk d w)))"
  using assms
proof (induction "length buf" arbitrary: block buf w data rule: less_induct)
  case less
  show ?case
  proof (cases "buf = []")
    case True
    with less.prems(1) show ?thesis by (subst (asm) read_loop.simps) (simp add: get_def)
  next
    case False
    let ?m = "read_chunk_blocks (length buf div BLOCK_SIZE)" and ?n = "read_chunk_blocks (length buf div BLOCK_SIZE) * BLOCK_SIZE"
    from less.prems(1) False obtain r1 chunk w1 where
      1: "read_dma_chunk E block (take ?n buf) w = Some ((r1, chunk), w1)"
      and rest: "case r1 of
         Inl e \<Rightarrow> r = Inl e \<and> data = chunk @ drop ?n buf \<and> w' = w1
       | Inr _ \<Rightarrow> (case next_block block ?m (drop ?n buf) of
            None \<Rightarrow> r = Inl OutOfRange \<and> data = chunk @ drop ?n buf \<and> w' = w1
          | Some block' \<Rightarrow> \<exists>rest. read_loop E block' (drop ?n buf) w1 = Some ((r, rest), w')
              \<and> data = chunk @ rest)"
      by (rule read_loop_step)
    note st = rch.chunk_step [OF False less.prems(2)]
    note c = read_dma_chunk_spec [OF 1, of d]
    obtain block' where b: "next_block block ?m (drop ?n buf) = Some block'"
      "drop ?n buf \<noteq> [] \<Longrightarrow> unat block' = unat block + ?m"
      "unat block' + length (drop ?n buf) div BLOCK_SIZE \<le> 2 ^ 32"
      using rch.chunk_next [OF False less.prems(2,3)] by blast
    show ?thesis
    proof (cases r1)
      case (Inl e)
      with rest c st(2) show ?thesis by auto
    next
      case (Inr u)
      with rest b(1) obtain tail where t: "read_loop E block' (drop ?n buf) w1 = Some ((r, tail), w')"
        "data = chunk @ tail" by auto
      note IH = less.hyps [OF st(5) t(1) st(4) b(3)]
      have "drop ?n buf \<noteq> [] \<longrightarrow> 512 * unat block' = 512 * unat block + ?n"
        using b(2) by (simp add: BLOCK_SIZE_def)
      note g = get_chunk [OF this st(2), of "disk d w"]
      have "keeps w w'" using c IH keeps_trans by blast
      moreover have "length data = length buf" using t(2) c IH st(2) by simp
      ultimately show ?thesis using c IH Inr t(2) g by auto
    qed
  qed
qed

lemma write_loop_spec:
  assumes "write_loop E block buf w = Some (r, w')" "BLOCK_SIZE dvd length buf"
    "unat block + length buf div BLOCK_SIZE \<le> 2 ^ 32"
  shows "keeps w w' \<and> (r = Inr () \<longrightarrow> disk d w' = put (512 * unat block) buf (disk d w))"
  using assms
proof (induction "length buf" arbitrary: block buf w rule: less_induct)
  case less
  show ?case
  proof (cases "buf = []")
    case True
    with less.prems(1) show ?thesis by (subst (asm) write_loop.simps) simp
  next
    case False
    let ?m = "write_chunk_blocks (length buf div BLOCK_SIZE)" and ?n = "write_chunk_blocks (length buf div BLOCK_SIZE) * BLOCK_SIZE"
    from less.prems(1) False obtain r1 w1 where
      1: "write_dma_chunk E block (take ?n buf) w = Some (r1, w1)"
      and rest: "case r1 of
         Inl e \<Rightarrow> r = Inl e \<and> w' = w1
       | Inr _ \<Rightarrow> (case next_block block ?m (drop ?n buf) of
            None \<Rightarrow> r = Inl OutOfRange \<and> w' = w1
          | Some block' \<Rightarrow> write_loop E block' (drop ?n buf) w1 = Some (r, w'))"
      by (rule write_loop_step)
    note st = wch.chunk_step [OF False less.prems(2)]
    note c = write_dma_chunk_spec [OF 1, of d]
    obtain block' where b: "next_block block ?m (drop ?n buf) = Some block'"
      "drop ?n buf \<noteq> [] \<Longrightarrow> unat block' = unat block + ?m"
      "unat block' + length (drop ?n buf) div BLOCK_SIZE \<le> 2 ^ 32"
      using wch.chunk_next [OF False less.prems(2,3)] by blast
    show ?thesis
    proof (cases r1)
      case (Inl e)
      with rest c show ?thesis by auto
    next
      case (Inr u)
      with rest b(1) have t: "write_loop E block' (drop ?n buf) w1 = Some (r, w')" by auto
      note IH = less.hyps [OF st(5) t st(4) b(3)]
      have "drop ?n buf \<noteq> [] \<longrightarrow> 512 * unat block' = 512 * unat block + ?n"
        using b(2) by (simp add: BLOCK_SIZE_def)
      note p = put_chunk [OF this st(2), of "disk d w"]
      have "keeps w w'" using c IH keeps_trans by blast
      then show ?thesis using c IH Inr p by auto
    qed
  qed
qed

text \<open>The end of a request as the driver computes it in 64 bits.\<close>

lemma end_block:
  fixes b :: u64
  assumes "unat b < 2 ^ 32" "len < 2 ^ 64"
  shows "checked_add b (of_nat (len div BLOCK_SIZE)) = Some (b + of_nat (len div BLOCK_SIZE))"
    and "unat (b + of_nat (len div BLOCK_SIZE)) = unat b + len div BLOCK_SIZE"
proof -
  have k: "len div BLOCK_SIZE < 2 ^ 55" using assms(2) by (simp add: BLOCK_SIZE_def)
  then have u: "unat (of_nat (len div BLOCK_SIZE) :: u64) = len div BLOCK_SIZE"
    by (intro unat_of_nat_less) simp
  have s: "unat b + len div BLOCK_SIZE < 2 ^ 64" using k assms(1) by simp
  then show "checked_add b (of_nat (len div BLOCK_SIZE)) = Some (b + of_nat (len div BLOCK_SIZE))"
    using u by (intro checked_add_fits) simp
  show "unat (b + of_nat (len div BLOCK_SIZE)) = unat b + len div BLOCK_SIZE"
    using s u by (subst unat_add_less) simp_all
qed

lemma validate_ok:
  assumes "len < 2 ^ 64"
  shows "validate_block_buffer s block len = Inr n \<longleftrightarrow>
     0 < len \<and> BLOCK_SIZE dvd len \<and> n = len div BLOCK_SIZE
     \<and> unat block + len div BLOCK_SIZE \<le> min (unat (num_blocks s)) (2 ^ 32)"
proof -
  let ?e = "(ucast block :: u64) + of_nat (len div BLOCK_SIZE)"
  have "unat block < 2 ^ LENGTH(32)" by (rule unsigned_less)
  then have b: "unat (ucast block :: u64) = unat block" "unat block < 2 ^ 32"
    by (simp_all add: unsigned_ucast_eq take_bit_nat_eq_self)
  note e = end_block [of "ucast block", OF _ assms, unfolded b(1), OF b(2)]
  have c: "num_blocks s < ?e \<longleftrightarrow> unat (num_blocks s) < unat block + len div BLOCK_SIZE"
    "0xFFFFFFFF + 1 < ?e \<longleftrightarrow> 2 ^ 32 < unat block + len div BLOCK_SIZE"
    unfolding word_less_nat_alt e(2) by simp_all
  show ?thesis
    unfolding validate_block_buffer_def Let_def e(1) option.case c
    by (auto simp: is_multiple_of_iff BLOCK_SIZE_def)
qed

lemma validate_error:
  "validate_block_buffer s block len = Inl e \<Longrightarrow> e = InvalidParameter \<or> e = OutOfRange"
  by (auto simp: validate_block_buffer_def Let_def split: if_splits option.splits)

lemma read_blocks_spec:
  assumes "read_blocks E block buf w = Some ((r, data), w')" "length buf < 2 ^ 64"
  shows "keeps w w' \<and> length data = length buf
    \<and> (r = Inr () \<longrightarrow> disk d w' = disk d w
         \<and> (coherent E d \<longrightarrow> data = get (512 * unat block) (length buf) (disk d w)))"
proof (cases "validate_block_buffer (sd w) block (length buf)")
  case (Inl e)
  with assms(1) show ?thesis by (auto simp: read_blocks_def)
next
  case (Inr n)
  with assms show ?thesis
    by (intro read_loop_spec) (auto simp: read_blocks_def validate_ok)
qed

lemma write_blocks_spec:
  assumes "write_blocks E block buf w = Some (r, w')" "length buf < 2 ^ 64"
  shows "keeps w w' \<and> (r = Inr () \<longrightarrow> disk d w' = put (512 * unat block) buf (disk d w))"
proof (cases "validate_block_buffer (sd w) block (length buf)")
  case (Inl e)
  with assms(1) show ?thesis by (auto simp: write_blocks_def)
next
  case (Inr n)
  with assms show ?thesis
    by (intro write_loop_spec) (auto simp: write_blocks_def validate_ok)
qed

section \<open>Requests return\<close>

lemma read_chunk_returns: "clock_progress E \<Longrightarrow> read_dma_chunk E block buf w \<noteq> None"
  unfolding read_dma_chunk_def Let_def
  by (auto simp: send_cmd_idmac_returns split: bind_splits prod.splits option.splits sum.splits
      iff del: not_None_eq)

lemma write_chunk_returns: "clock_progress E \<Longrightarrow> write_dma_chunk E block buf w \<noteq> None"
  unfolding write_dma_chunk_def wait_card_ready_after_write_def Let_def
  by (auto simp: send_cmd_idmac_returns csd.poll_returns split: bind_splits prod.splits option.splits sum.splits
      iff del: not_None_eq)

lemma read_loop_returns:
  assumes "clock_progress E" "BLOCK_SIZE dvd length buf"
  shows "read_loop E block buf w \<noteq> None"
  using assms(2)
proof (induction "length buf" arbitrary: block buf w rule: less_induct)
  case less
  let ?m = "read_chunk_blocks (length buf div BLOCK_SIZE)" and ?n = "read_chunk_blocks (length buf div BLOCK_SIZE) * BLOCK_SIZE"
  show ?case
  proof (cases "buf = []")
    case False
    note st = rch.chunk_step [OF False less.prems]
    show ?thesis
      by (subst read_loop.simps)
        (auto simp: Let_def False st(2) not_less read_chunk_returns [OF assms(1)] less.hyps [OF st(5,4)]
          split: bind_splits prod.splits option.splits sum.splits iff del: not_None_eq simp del: length_drop)
  qed (subst read_loop.simps, simp)
qed

lemma write_loop_returns:
  assumes "clock_progress E" "BLOCK_SIZE dvd length buf"
  shows "write_loop E block buf w \<noteq> None"
  using assms(2)
proof (induction "length buf" arbitrary: block buf w rule: less_induct)
  case less
  show ?case
  proof (cases "buf = []")
    case False
    note st = wch.chunk_step [OF False less.prems]
    show ?thesis
      by (subst write_loop.simps)
        (auto simp: Let_def False write_chunk_returns [OF assms(1)] less.hyps [OF st(5,4)]
          split: bind_splits prod.splits option.splits sum.splits iff del: not_None_eq simp del: length_drop)
  qed (subst write_loop.simps, simp)
qed

lemma blocks_return:
  assumes "clock_progress E" "length buf < 2 ^ 64"
  shows "read_blocks E block buf w \<noteq> None" "write_blocks E block buf w \<noteq> None"
  using read_loop_returns [OF assms(1)] write_loop_returns [OF assms(1)] validate_ok [OF assms(2)]
  by (auto simp: read_blocks_def write_blocks_def split: sum.splits iff del: not_None_eq)

section \<open>Asynchronous requests\<close>

text \<open>Asking the card for its status touches neither the card's bytes nor memory.\<close>

lemma send_status_build: "\<exists>cmd. build (SendStatus arg) = (cmd, arg, None) \<and> get_field Cmd_layout ''cmd_index'' cmd = 13"
proof -
  obtain cmd where "build (SendStatus arg) = (cmd, arg, None)" by (simp add: build_def Let_def)
  moreover have "get_field Cmd_layout ''cmd_index'' (fst (build (SendStatus arg))) = 13"
    by (simp add: build_index)
  ultimately show ?thesis by simp
qed

lemma send_status_spec:
  assumes "send_cmd_with_deadline E (SendStatus arg) dl w = Some (r, w')"
  shows "keeps w w' \<and> device d (trace w') = device d (trace w)"
proof -
  obtain cmd where b: "build (SendStatus arg) = (cmd, arg, None)" "get_field Cmd_layout ''cmd_index'' cmd = 13"
    using send_status_build by blast
  from data_free_command [OF b(1) assms]
  have t: "sd w' = sd w" "trace w' = trace w \<or> trace w' = [EvWrite CMD cmd, EvWrite CMDARG arg] @ trace w"
    by (auto split: if_splits)
  then have "calm w w'"
    using live_append_neutral [of "[EvWrite CMD cmd, EvWrite CMDARG arg]" "trace w"]
    by (auto simp: calm_def)
  moreover have "device d (trace w') = device d (trace w)"
    using t(2) b(2) by (cases "device d (trace w)") (auto simp: run_command_def)
  ultimately show ?thesis by (simp add: keeps_calm)
qed

text \<open>What leaving the wait early or with an error means: the driver is faulted.\<close>

definition ends_well :: "'a sd_result fut \<Rightarrow> bool" where
  "ends_well r = (case r of Done (Inr _) \<Rightarrow> True | _ \<Rightarrow> False)"

lemma ends_well_simps [simp]:
  "ends_well (Done (Inr x))" "\<not> ends_well (Done (Inl e))" "\<not> ends_well Dropped"
  by (simp_all add: ends_well_def)

lemma busy_loop_spec:
  assumes "busy_loop E arg dl seen w = Some (r, w')"
  shows "keeps w w' \<and> device d (trace w') = device d (trace w) \<and> (ends_well r \<or> idmac_faulted (sd w'))"
proof -
  have "keeps w (snd (r, w')) \<and> device d (trace (snd (r, w'))) = device d (trace w)
      \<and> (ends_well (fst (r, w')) \<or> idmac_faulted (sd (snd (r, w'))))"
  proof (rule busy_loop.raw_induct [OF _ assms, where P = "\<lambda>E arg dl seen w y. keeps w (snd y)
      \<and> device d (trace (snd y)) = device d (trace w) \<and> (ends_well (fst y) \<or> idmac_faulted (sd (snd y)))"])
    fix f E arg dl seen w y
    assume IH: "\<And>E arg dl seen w y. f E arg dl seen w = Some y \<Longrightarrow> keeps w (snd y)
        \<and> device d (trace (snd y)) = device d (trace w) \<and> (ends_well (fst y) \<or> idmac_faulted (sd (snd y)))"
      and eq: "(case (if seen then (case monotonic_time E w of (t, w) \<Rightarrow> (dl \<le> t, w)) else (False, w)) of
        (timed_out, w) \<Rightarrow>
          if timed_out then Some (Done (Inl CardBusyTimeout), fault w)
          else Option.bind (send_cmd_with_deadline E (SendStatus arg) (Some dl) w)
            (\<lambda>(r, w). case r of
                 Inl e \<Rightarrow> Some (Done (Inl e), fault w)
               | Inr (response, _) \<Rightarrow>
                   (case reg_read E STATUS w of (controller_status, w) \<Rightarrow>
                      if card_ready (fst response) controller_status then Some (Done (Inr ()), w)
                      else (case monotonic_time E w of (t, w) \<Rightarrow>
                        if t < dl
                        then (if cancel_val E (hist w) then Some (Dropped, fault (log_ev EvYield w))
                              else f E arg dl True (log_ev EvYield w))
                        else f E arg dl True w)))) = Some y"
    let ?P = "\<lambda>w'. keeps w w' \<and> device d (trace w') = device d (trace w)"
    have fault: "?P v \<Longrightarrow> ?P (fault v)" for v by (metis keeps_trans keeps_fault fault_simps(2))
    have quiet: "?P v \<Longrightarrow> quiet v v' \<Longrightarrow> ?P v'" for v v' by (metis keeps_trans keeps_quiet quiet_trace)
    have tail: "keeps w (snd y) \<and> device d (trace (snd y)) = device d (trace w)
        \<and> (ends_well (fst y) \<or> idmac_faulted (sd (snd y)))"
      if "?P v" "f E arg dl True v = Some y" for v using IH [OF that(2)] that(1) by (metis keeps_trans)
    obtain b w1 where 1: "(if seen then (case monotonic_time E w of (t, w) \<Rightarrow> (dl \<le> t, w)) else (False, w)) = (b, w1)"
      by fastforce
    have "quiet w w1" using 1 by (auto split: if_splits prod.splits dest: time_quiet)
    then have p1: "?P w1" by (rule quiet [rotated]) simp
    show "keeps w (snd y) \<and> device d (trace (snd y)) = device d (trace w)
        \<and> (ends_well (fst y) \<or> idmac_faulted (sd (snd y)))"
    proof (cases b)
      case True
      with eq 1 fault [OF p1] show ?thesis by auto
    next
      case False
      with eq 1 obtain r2 w2 where 2: "send_cmd_with_deadline E (SendStatus arg) (Some dl) w1 = Some (r2, w2)"
        by (auto split: bind_splits)
      have p2: "?P w2" using p1 send_status_spec [OF 2, of d] by (metis keeps_trans)
      show ?thesis
      proof (cases r2)
        case (Inl e)
        with eq 1 False 2 fault [OF p2] show ?thesis by auto
      next
        case (Inr x)
        obtain response data where x: "x = (response, data)" by fastforce
        obtain s w3 where 3: "reg_read E STATUS w2 = (s, w3)" by fastforce
        obtain t w4 where 4: "monotonic_time E w3 = (t, w4)" by fastforce
        have p3: "?P w3" by (rule quiet [OF p2 reg_read_quiet [OF 3]])
        have p4: "?P w4" by (rule quiet [OF p3 time_quiet [OF 4]])
        have p5: "?P (log_ev EvYield w4)" by (rule quiet [OF p4]) (simp add: quiet_log_ev)
        have "(if card_ready (fst response) s then Some (Done (Inr ()), w3)
            else if t < dl then if cancel_val E (hist w4) then Some (Dropped, fault (log_ev EvYield w4))
                 else f E arg dl True (log_ev EvYield w4)
            else f E arg dl True w4) = Some y"
          using eq 1 False 2 Inr x 3 4 by (simp cong: if_cong)
        then consider "y = (Done (Inr ()), w3)" | "y = (Dropped, fault (log_ev EvYield w4))"
          | "f E arg dl True (log_ev EvYield w4) = Some y" | "f E arg dl True w4 = Some y"
          by (metis option.inject)
        then show ?thesis
        proof cases
          case 1
          then show ?thesis using p3 by simp
        next
          case 2
          then show ?thesis using fault [OF p5] by (simp only: fst_conv snd_conv) simp
        next
          case 3
          then show ?thesis by (rule tail [OF p5])
        next
          case 4
          then show ?thesis by (rule tail [OF p4])
        qed
      qed
    qed
  qed
  then show ?thesis by simp
qed

lemma wait_card_ready_async_spec:
  assumes "wait_card_ready_after_write_async E w = Some (r, w')"
  shows "keeps w w' \<and> device d (trace w') = device d (trace w) \<and> (ends_well r \<or> idmac_faulted (sd w'))"
proof -
  let ?w = "(atomic E w)\<lparr>statics := (statics (atomic E w))\<lparr>ASYNC_WRITE_BUSY_SEQUENCE :=
                ASYNC_WRITE_BUSY_SEQUENCE (statics (atomic E w)) + 1\<rparr>\<rparr>"
  obtain t w1 where 1: "monotonic_time E ?w = (t, w1)" by fastforce
  have "quiet (atomic E w) ?w" by (simp add: quiet_def)
  then have "quiet w ?w" using quiet_trans [OF atomic_quiet [OF quiet_refl]] by blast
  then have q: "quiet w w1" by (rule quiet_trans [OF _ time_quiet [OF 1]])
  from assms 1 have "busy_loop E (rca_arg w1) (t + ASYNC_WRITE_BUSY_TIMEOUT) False w1 = Some (r, w')"
    by (simp add: wait_card_ready_after_write_async_def Let_def)
  note b = busy_loop_spec [OF this, of d]
  have "keeps w w'" using keeps_trans [OF keeps_quiet [OF q]] b by blast
  with b q show ?thesis by (simp add: quietD)
qed

lemma read_dma_chunk_async_spec:
  assumes "read_dma_chunk_async E block buf w = Some ((r, data), w')"
  shows "keeps w w' \<and> length data = length buf \<and> (r = Dropped \<longrightarrow> idmac_faulted (sd w'))
    \<and> (if ends_well r
       then disk d w' = disk d w
         \<and> (coherent E d \<longrightarrow> data = get (512 * unat block) (length buf) (disk d w))
       else data = buf)"
proof -
  define w1 where "w1 = set_transaction_size E (of_nat BLOCK_SIZE) (of_nat (length buf)) w"
  have k1: "keeps w w1" "disk d w1 = disk d w"
    by (simp_all add: w1_def set_transaction_size_keeps set_transaction_size_device)
  show ?thesis
  proof (cases "\<exists>b a. dma_buffer (sd w1) = Some b \<and> try_u32 (bus_addr (buf_info b)) = Some a")
    case False
    with assms k1 show ?thesis
      by (auto simp: read_dma_chunk_async_def w1_def [symmetric] split: option.splits)
  next
    case True
    then obtain b a where b: "dma_buffer (sd w1) = Some b" "try_u32 (bus_addr (buf_info b)) = Some a"
      by blast
    let ?buf = "dma_contents E (buf_info b) (length buf) w1"
    have len: "length ?buf = length buf" by (simp add: dma_contents_def)
    from assms b obtain r2 w2 where 2: "send_cmd_idmac_async E (read_command block ?buf) a w1 = Some (r2, w2)"
      "if ends_well r2 then r = Done (Inr ()) \<and> data = dma_contents E (buf_info b) (length buf) w2
         \<and> w' = log_ev (EvBufRead (buf_info b) data) w2
       else data = buf \<and> w' = w2 \<and> \<not> ends_well r \<and> (r = Dropped \<longrightarrow> r2 = Dropped)"
      by (auto simp: read_dma_chunk_async_def w1_def [symmetric] Let_def
          split: bind_splits sum.splits fut.splits)
    note k2 = keeps_trans [OF k1(1) transfer_async_keeps [OF 2(1)]]
    show ?thesis
    proof (cases "ends_well r2")
      case False
      with 2 k2 show ?thesis by (auto dest: transfer_dropped_faults)
    next
      case True
      with 2(1) obtain resp where c: "carried_out (read_command block ?buf) a w1 resp w2"
        by (auto elim: send_cmd_idmac_async_spec)
      note rd = carried_out_read [OF c unat_try_u32 [OF b(2)], unfolded len]
      have "keeps w w'" using 2(2) True k2 keeps_trans keeps_log [of "EvBufRead (buf_info b) data" w2] by simp
      with True 2 rd k1(2) show ?thesis by (auto simp: dma_contents_def)
    qed
  qed
qed

lemma write_dma_chunk_async_spec:
  assumes "write_dma_chunk_async E block buf w = Some (r, w')"
  shows "keeps w w' \<and> (r = Dropped \<longrightarrow> idmac_faulted (sd w'))
    \<and> (ends_well r \<longrightarrow> disk d w' = put (512 * unat block) buf (disk d w))"
proof -
  define w1 where "w1 = set_transaction_size E (of_nat BLOCK_SIZE) (of_nat (length buf)) w"
  have k1: "keeps w w1" "disk d w1 = disk d w"
    by (simp_all add: w1_def set_transaction_size_keeps set_transaction_size_device)
  have k: "keeps w (log_ev (EvBufWrite i buf) w1)" for i using keeps_trans [OF k1(1) keeps_log] by simp
  show ?thesis
  proof (cases "\<exists>b a. dma_buffer (sd w1) = Some b \<and> try_u32 (bus_addr (buf_info b)) = Some a")
    case False
    with assms k1 k show ?thesis
      by (auto simp: write_dma_chunk_async_def w1_def [symmetric] Let_def split: option.splits)
  next
    case True
    then obtain b a where b: "dma_buffer (sd w1) = Some b" "try_u32 (bus_addr (buf_info b)) = Some a"
      by blast
    let ?w = "log_ev (EvBufWrite (buf_info b) buf) w1"
    from assms b obtain r2 w2 where 2: "send_cmd_idmac_async E (write_command block buf) a ?w = Some (r2, w2)"
      "if ends_well r2 then wait_card_ready_after_write_async E w2 = Some (r, w')
       else w' = w2 \<and> \<not> ends_well r \<and> (r = Dropped \<longrightarrow> r2 = Dropped)"
      by (auto simp: write_dma_chunk_async_def w1_def [symmetric] Let_def
          split: bind_splits sum.splits fut.splits)
    note k2 = keeps_trans [OF k transfer_async_keeps [OF 2(1)]]
    show ?thesis
    proof (cases "ends_well r2")
      case False
      with 2 k2 show ?thesis by (auto dest: transfer_dropped_faults)
    next
      case True
      with 2(1) obtain resp where "carried_out (write_command block buf) a ?w resp w2"
        by (auto elim: send_cmd_idmac_async_spec)
      then have "disk d w2 = put (512 * unat block) buf (disk d w1)"
        using unat_try_u32 [OF b(2)] by (rule carried_out_write)
      moreover have "keeps w2 w' \<and> device d (trace w') = device d (trace w2)
          \<and> (ends_well r \<or> idmac_faulted (sd w'))"
        using wait_card_ready_async_spec 2(2) True by auto
      ultimately show ?thesis using k1(2) keeps_trans [OF k2] by auto
    qed
  qed
qed

lemma read_loop_async_step:
  assumes "read_loop_async E block buf w = Some ((r, data), w')" "buf \<noteq> []"
  defines "m \<equiv> read_chunk_blocks (length buf div BLOCK_SIZE)"
  obtains r1 chunk w1 where "read_dma_chunk_async E block (take (m * BLOCK_SIZE) buf) w = Some ((r1, chunk), w1)"
    "if ends_well r1 then
         (case next_block block m (drop (m * BLOCK_SIZE) buf) of
            None \<Rightarrow> r = Done (Inl OutOfRange) \<and> data = chunk @ drop (m * BLOCK_SIZE) buf \<and> w' = w1
          | Some block' \<Rightarrow> \<exists>rest. read_loop_async E block' (drop (m * BLOCK_SIZE) buf) w1 = Some ((r, rest), w')
              \<and> data = chunk @ rest)
     else \<not> ends_well r \<and> (r = Dropped \<longrightarrow> r1 = Dropped) \<and> data = chunk @ drop (m * BLOCK_SIZE) buf \<and> w' = w1"
  using assms(1,2) that unfolding m_def
  by (subst (asm) read_loop_async.simps)
    (auto simp: Let_def split: if_splits bind_splits sum.splits fut.splits option.splits)

lemma write_loop_async_step:
  assumes "write_loop_async E block buf w = Some (r, w')" "buf \<noteq> []"
  defines "m \<equiv> write_chunk_blocks (length buf div BLOCK_SIZE)"
  obtains r1 w1 where "write_dma_chunk_async E block (take (m * BLOCK_SIZE) buf) w = Some (r1, w1)"
    "if ends_well r1 then
         (case next_block block m (drop (m * BLOCK_SIZE) buf) of
            None \<Rightarrow> r = Done (Inl OutOfRange) \<and> w' = w1
          | Some block' \<Rightarrow> write_loop_async E block' (drop (m * BLOCK_SIZE) buf) w1 = Some (r, w'))
     else \<not> ends_well r \<and> (r = Dropped \<longrightarrow> r1 = Dropped) \<and> w' = w1"
  using assms(1,2) that unfolding m_def
  by (subst (asm) write_loop_async.simps)
    (auto simp: Let_def split: if_splits bind_splits sum.splits fut.splits option.splits)

lemma read_loop_async_spec:
  assumes "read_loop_async E block buf w = Some ((r, data), w')" "BLOCK_SIZE dvd length buf"
    "unat block + length buf div BLOCK_SIZE \<le> 2 ^ 32"
  shows "keeps w w' \<and> length data = length buf \<and> (r = Dropped \<longrightarrow> idmac_faulted (sd w'))
    \<and> (ends_well r \<longrightarrow> disk d w' = disk d w
         \<and> (coherent E d \<longrightarrow> data = get (512 * unat block) (length buf) (disk d w)))"
  using assms
proof (induction "length buf" arbitrary: block buf w data rule: less_induct)
  case less
  show ?case
  proof (cases "buf = []")
    case True
    with less.prems(1) show ?thesis by (subst (asm) read_loop_async.simps) (auto simp: get_def)
  next
    case False
    let ?m = "read_chunk_blocks (length buf div BLOCK_SIZE)" and ?n = "read_chunk_blocks (length buf div BLOCK_SIZE) * BLOCK_SIZE"
    from less.prems(1) False obtain r1 chunk w1 where
      1: "read_dma_chunk_async E block (take ?n buf) w = Some ((r1, chunk), w1)"
      and rest: "if ends_well r1 then
         (case next_block block ?m (drop ?n buf) of
            None \<Rightarrow> r = Done (Inl OutOfRange) \<and> data = chunk @ drop ?n buf \<and> w' = w1
          | Some block' \<Rightarrow> \<exists>rest. read_loop_async E block' (drop ?n buf) w1 = Some ((r, rest), w')
              \<and> data = chunk @ rest)
       else \<not> ends_well r \<and> (r = Dropped \<longrightarrow> r1 = Dropped) \<and> data = chunk @ drop ?n buf \<and> w' = w1"
      by (rule read_loop_async_step)
    note st = rch.chunk_step [OF False less.prems(2)]
    note c = read_dma_chunk_async_spec [OF 1, of d]
    obtain block' where b: "next_block block ?m (drop ?n buf) = Some block'"
      "drop ?n buf \<noteq> [] \<Longrightarrow> unat block' = unat block + ?m"
      "unat block' + length (drop ?n buf) div BLOCK_SIZE \<le> 2 ^ 32"
      using rch.chunk_next [OF False less.prems(2,3)] by blast
    show ?thesis
    proof (cases "ends_well r1")
      case False
      with rest c st(2) show ?thesis by auto
    next
      case True
      with rest b(1) obtain tail where t: "read_loop_async E block' (drop ?n buf) w1 = Some ((r, tail), w')"
        "data = chunk @ tail" by auto
      note IH = less.hyps [OF st(5) t(1) st(4) b(3)]
      have "drop ?n buf \<noteq> [] \<longrightarrow> 512 * unat block' = 512 * unat block + ?n"
        using b(2) by (simp add: BLOCK_SIZE_def)
      note g = get_chunk [OF this st(2), of "disk d w"]
      have "keeps w w'" using c IH keeps_trans by blast
      moreover have "length data = length buf" using t(2) c IH st(2) by simp
      ultimately show ?thesis using c IH True t(2) g by auto
    qed
  qed
qed

lemma write_loop_async_spec:
  assumes "write_loop_async E block buf w = Some (r, w')" "BLOCK_SIZE dvd length buf"
    "unat block + length buf div BLOCK_SIZE \<le> 2 ^ 32"
  shows "keeps w w' \<and> (r = Dropped \<longrightarrow> idmac_faulted (sd w'))
    \<and> (ends_well r \<longrightarrow> disk d w' = put (512 * unat block) buf (disk d w))"
  using assms
proof (induction "length buf" arbitrary: block buf w rule: less_induct)
  case less
  show ?case
  proof (cases "buf = []")
    case True
    with less.prems(1) show ?thesis by (subst (asm) write_loop_async.simps) auto
  next
    case False
    let ?m = "write_chunk_blocks (length buf div BLOCK_SIZE)" and ?n = "write_chunk_blocks (length buf div BLOCK_SIZE) * BLOCK_SIZE"
    from less.prems(1) False obtain r1 w1 where
      1: "write_dma_chunk_async E block (take ?n buf) w = Some (r1, w1)"
      and rest: "if ends_well r1 then
         (case next_block block ?m (drop ?n buf) of
            None \<Rightarrow> r = Done (Inl OutOfRange) \<and> w' = w1
          | Some block' \<Rightarrow> write_loop_async E block' (drop ?n buf) w1 = Some (r, w'))
       else \<not> ends_well r \<and> (r = Dropped \<longrightarrow> r1 = Dropped) \<and> w' = w1"
      by (rule write_loop_async_step)
    note st = wch.chunk_step [OF False less.prems(2)]
    note c = write_dma_chunk_async_spec [OF 1, of d]
    obtain block' where b: "next_block block ?m (drop ?n buf) = Some block'"
      "drop ?n buf \<noteq> [] \<Longrightarrow> unat block' = unat block + ?m"
      "unat block' + length (drop ?n buf) div BLOCK_SIZE \<le> 2 ^ 32"
      using wch.chunk_next [OF False less.prems(2,3)] by blast
    show ?thesis
    proof (cases "ends_well r1")
      case False
      with rest c show ?thesis by auto
    next
      case True
      with rest b(1) have t: "write_loop_async E block' (drop ?n buf) w1 = Some (r, w')" by auto
      note IH = less.hyps [OF st(5) t st(4) b(3)]
      have "drop ?n buf \<noteq> [] \<longrightarrow> 512 * unat block' = 512 * unat block + ?n"
        using b(2) by (simp add: BLOCK_SIZE_def)
      note p = put_chunk [OF this st(2), of "disk d w"]
      have "keeps w w'" using c IH keeps_trans by blast
      then show ?thesis using c IH True p by auto
    qed
  qed
qed

lemma read_blocks_async_spec:
  assumes "read_blocks_async E block buf w = Some ((r, data), w')" "length buf < 2 ^ 64"
  shows "keeps w w' \<and> length data = length buf \<and> (r = Dropped \<longrightarrow> idmac_faulted (sd w'))
    \<and> (ends_well r \<longrightarrow> disk d w' = disk d w
         \<and> (coherent E d \<longrightarrow> data = get (512 * unat block) (length buf) (disk d w)))"
proof (cases "validate_block_buffer (sd w) block (length buf)")
  case (Inl e)
  with assms(1) show ?thesis by (auto simp: read_blocks_async_def)
next
  case (Inr n)
  with assms show ?thesis
    by (intro read_loop_async_spec) (auto simp: read_blocks_async_def validate_ok)
qed

lemma write_blocks_async_spec:
  assumes "write_blocks_async E block buf w = Some (r, w')" "length buf < 2 ^ 64"
  shows "keeps w w' \<and> (r = Dropped \<longrightarrow> idmac_faulted (sd w'))
    \<and> (ends_well r \<longrightarrow> disk d w' = put (512 * unat block) buf (disk d w))"
proof (cases "validate_block_buffer (sd w) block (length buf)")
  case (Inl e)
  with assms(1) show ?thesis by (auto simp: write_blocks_async_def)
next
  case (Inr n)
  with assms show ?thesis
    by (intro write_loop_async_spec) (auto simp: write_blocks_async_def validate_ok)
qed

section \<open>Asynchronous requests return\<close>

lemma reg_write_length: "length (hist w) \<le> length (hist (reg_write E r v w))"
  using quiet_length [OF quiet_preempt, of w E] by (simp add: reg_write_def raw_write_def)

lemma submit_length:
  assumes "send_cmd_submit E cmd arg d w = Some (r, w')" "\<not> get_flag Cmd_layout ''data_expected'' cmd"
  shows "length (hist w) \<le> length (hist w')"
proof -
  let ?w0 = "spin_can_send_cmd E d 0 w"
  obtain ready w1 where 1: "can_send_cmd E ?w0 = (ready, w1)" by fastforce
  have l1: "length (hist w) \<le> length (hist w1)"
    using quiet_length [OF spin_can_send_cmd_quiet [of w E d 0]] quiet_length [OF can_send_cmd_quiet [OF 1]]
    by simp
  obtain x w2 where 2: "clear_rintsts E w1 = (x, w2)" by fastforce
  let ?w3 = "reg_write E CMD cmd (reg_write E CMDARG arg w2)"
  obtain taken w4 where 4: "can_send_cmd E (spin_can_send_cmd E d 0 ?w3) = (taken, w4)" by fastforce
  have "length (hist w1) \<le> length (hist w2)" by (rule quiet_length [OF clear_rintsts_quiet [OF 2]])
  also have "\<dots> \<le> length (hist ?w3)" using reg_write_length le_trans by blast
  also have "\<dots> \<le> length (hist w4)"
    using quiet_length [OF spin_can_send_cmd_quiet [of ?w3 E d 0]]
      quiet_length [OF can_send_cmd_quiet [OF 4]] by simp
  also have "\<dots> \<le> length (hist (snd (clear_rintsts E w4)))"
    by (metis clear_rintsts_quiet prod.collapse quiet_length)
  finally show ?thesis
    using assms 1 2 4 l1 \<open>length (hist w1) \<le> length (hist w2)\<close>
      \<open>length (hist w2) \<le> length (hist ?w3)\<close> \<open>length (hist ?w3) \<le> length (hist w4)\<close>
    by (auto simp: send_cmd_submit_def Let_def split: if_splits)
qed

lemma status_writeback_quiet: "quiet w w' \<Longrightarrow> quiet w (reg_write E RINTSTS v w')"
  by (rule status_write_quiet) simp_all

lemma complete_quiet: "send_cmd_complete E rc d w = Some (r, w') \<Longrightarrow> quiet w w'"
  apply (auto simp: send_cmd_complete_def Let_def split: prod.splits if_splits bind_splits
      dest!: reg_read_quiet resp_read_quiet time_quiet cfin.poll_quiet
      intro!: status_writeback_quiet quiet_refl)
  by (metis (no_types) clear_rintsts_quiet prod.collapse quiet_trans)+

lemma busy_quiet: "send_cmd_data E busy d None w = Some (r, w') \<Longrightarrow> quiet w w'"
  by (auto simp: send_cmd_data_def pio_transfer_def split: prod.splits if_splits bind_splits
      dest!: time_quiet csd.poll_quiet intro: quiet_trans)

lemma result_quiet: "send_cmd_result E busy r1 app data w = (r, w') \<Longrightarrow> quiet w w'"
  by (auto simp: send_cmd_result_def Let_def split: prod.splits if_splits sum.splits
      dest!: resp_read_quiet clear_rintsts_quiet intro: quiet_trans)

lemma data_free_length:
  assumes "build c = (cmd, arg, None)" "send_cmd_with_deadline E c d w = Some (r, w')"
  shows "length (hist w) \<le> length (hist w')"
proof -
  from assms(1) have nd: "\<not> get_flag Cmd_layout ''data_expected'' cmd"
    using build_data_expected by blast
  from assms obtain r1 w1 where sub: "send_cmd_submit E cmd arg d w = Some (r1, w1)"
    by (auto simp: send_cmd_with_deadline_def split: bind_splits)
  have "quiet w1 w'"
    using assms sub
    by (auto simp: send_cmd_with_deadline_def split: bind_splits sum.splits
        dest!: complete_quiet busy_quiet result_quiet intro: quiet_trans [OF _ quiet_trans])
  with submit_length [OF sub nd] quiet_length show ?thesis using le_trans by blast
qed

lemma busy_loop_returns:
  assumes "clock_progress E"
  shows "busy_loop E arg d seen w \<noteq> None"
proof -
  from assms obtain n where n: "n \<le> length h \<Longrightarrow> d < time_val E h" for h
    unfolding clock_progress_def by (metis Suc_le_lessD)
  obtain cmd where b: "build (SendStatus arg) = (cmd, arg, None)" using send_status_build by blast
  text \<open>A turn ends the loop or goes on at a longer history.\<close>
  have turn: "Option.bind (send_cmd_with_deadline E (SendStatus arg) (Some d) w)
      (\<lambda>(r, w). case r of
            Inl e \<Rightarrow> Some (Done (Inl e), fault w)
          | Inr (response, _) \<Rightarrow>
              (case reg_read E STATUS w of (s, w) \<Rightarrow>
                 if card_ready (fst response) s then Some (Done (Inr ()), w)
                 else (case monotonic_time E w of (t, w) \<Rightarrow>
                   if t < d
                   then (if cancel_val E (hist w) then Some (Dropped, fault (log_ev EvYield w))
                         else busy_loop E arg d True (log_ev EvYield w))
                   else busy_loop E arg d True w))) \<noteq> None"
    if IH: "\<And>w'. length (hist w) < length (hist w') \<Longrightarrow> busy_loop E arg d True w' \<noteq> None" for w
  proof -
    obtain r2 w2 where 2: "send_cmd_with_deadline E (SendStatus arg) (Some d) w = Some (r2, w2)"
      using data_free_returns [OF b assms] by fastforce
    obtain s w3 where 3: "reg_read E STATUS w2 = (s, w3)" by fastforce
    obtain t w4 where 4: "monotonic_time E w3 = (t, w4)" by fastforce
    have "length (hist w) \<le> length (hist w3)"
      using data_free_length [OF b 2] quiet_length [OF reg_read_quiet [OF 3]] by simp
    also have "\<dots> < length (hist w4)"
      using 4 quiet_length [OF quiet_preempt, of w3 E] by (auto simp: monotonic_time_def Let_def)
    finally have l: "length (hist w) < length (hist w4)" .
    then have "busy_loop E arg d True w4 \<noteq> None" "busy_loop E arg d True (log_ev EvYield w4) \<noteq> None"
      using IH by simp_all
    with 2 3 4 show ?thesis by (auto split: sum.splits prod.splits iff del: not_None_eq)
  qed
  have seen: "busy_loop E arg d True w \<noteq> None" for w
  proof (induction "n - length (hist w)" arbitrary: w rule: less_induct)
    case less
    obtain t w1 where 1: "monotonic_time E w = (t, w1)" by fastforce
    have t: "t = time_val E (hist (preempt E w))" "length (hist w1) = Suc (length (hist (preempt E w)))"
      using 1 by (auto simp: monotonic_time_def Let_def)
    have l1: "length (hist w) \<le> length (hist (preempt E w))" using quiet_preempt quiet_length by blast
    show ?case
    proof (cases "d \<le> t")
      case True
      with 1 show ?thesis by (subst busy_loop.simps) simp
    next
      case False
      with t n have "\<not> n \<le> length (hist (preempt E w))" by fastforce
      then have "busy_loop E arg d True w' \<noteq> None" if "length (hist w1) < length (hist w')" for w'
        using less that t l1 by simp
      then have ih: "\<And>w'. length (hist w1) < length (hist w') \<Longrightarrow> busy_loop E arg d True w' \<noteq> None"
        by blast
      from turn [of w1, OF ih] False 1 show ?thesis
        by (subst busy_loop.simps) (simp del: not_None_eq)
    qed
  qed
  show ?thesis
  proof (cases seen)
    case False
    from turn [of w, OF seen] False show ?thesis by (subst busy_loop.simps) (simp del: not_None_eq)
  qed (use seen in simp)
qed

end
