(* ===== verification/Sd_Irq.thy ===== *)
theory Sd_Irq
  imports Sd_Transfer
begin

text \<open>
  The interrupt handler and the waiting thread share the two status registers and the
  completion snapshot (\<open>dma_irq_handler\<close>, \<open>IdmacCompletion\<close> and
  \<open>idmac_completion_status\<close> in \<open>simple-sdmmc-extended/src/sdmmc.rs\<close>).  The handler
  acknowledges bits in the registers and records them in the snapshot; the thread looks at
  both.  This theory shows that no event falls between the two.
\<close>

unbundle bit_operations_syntax

section \<open>Status bits are sticky\<close>

text \<open>
  The documented behaviour of the two status registers: a bit stays set until a one is
  written to it.
\<close>

definition sticky :: "env \<Rightarrow> bool" where
  "sticky E \<longleftrightarrow> (\<forall>h e r n. r \<in> {RINTSTS, IDSTS} \<and> bit (reg_val E h r) n
     \<and> (\<forall>v. e = EvWrite r v \<longrightarrow> \<not> bit v n) \<longrightarrow> bit (reg_val E (e # h) r) n)"

text \<open>
  A bit is visible if the register shows it or the interrupt handler has recorded it for
  the current transfer.
\<close>

definition visible_rintsts :: "env \<Rightarrow> world \<Rightarrow> nat \<Rightarrow> bool" where
  "visible_rintsts E w n \<longleftrightarrow> bit (reg_val E (hist w) RINTSTS) n
     \<or> snapshot_generation (completion w) = generation (completion w) \<and> bit (rintsts_bits (completion w)) n"

definition visible_idsts :: "env \<Rightarrow> world \<Rightarrow> nat \<Rightarrow> bool" where
  "visible_idsts E w n \<longleftrightarrow> bit (reg_val E (hist w) IDSTS) n
     \<or> snapshot_generation (completion w) = generation (completion w) \<and> bit (idsts_bits (completion w)) n"

text \<open>Nothing visible is lost from one state to the next.\<close>

definition retains :: "env \<Rightarrow> world \<Rightarrow> world \<Rightarrow> bool" where
  "retains E w w' \<longleftrightarrow>
     generation (completion w') = generation (completion w)
     \<and> (snapshot_generation (completion w) = generation (completion w) \<longrightarrow>
          snapshot_generation (completion w') = generation (completion w')
          \<and> (\<forall>n. bit (rintsts_bits (completion w)) n \<longrightarrow> bit (rintsts_bits (completion w')) n)
          \<and> (\<forall>n. bit (idsts_bits (completion w)) n \<longrightarrow> bit (idsts_bits (completion w')) n))
     \<and> (\<forall>n. visible_rintsts E w n \<longrightarrow> visible_rintsts E w' n)
     \<and> (\<forall>n. visible_idsts E w n \<longrightarrow> visible_idsts E w' n)"

lemma retains_refl [simp]: "retains E w w"
  by (simp add: retains_def)

lemma retains_trans: "retains E w1 w2 \<Longrightarrow> retains E w2 w3 \<Longrightarrow> retains E w1 w3"
  unfolding retains_def by metis

lemma retains_log:
  assumes "sticky E" "\<And>r v. e = EvWrite r v \<Longrightarrow> r \<notin> {RINTSTS, IDSTS}"
  shows "retains E w (log_ev e w)"
proof -
  have "bit (reg_val E (e # hist w) r) n" if "bit (reg_val E (hist w) r) n" "r \<in> {RINTSTS, IDSTS}" for r n
    using assms that unfolding sticky_def by blast
  then show ?thesis unfolding retains_def visible_rintsts_def visible_idsts_def by auto
qed

text \<open>The handler records what it acknowledges.\<close>

lemma retains_handler:
  assumes "sticky E" "generation (completion w) \<noteq> 0"
  shows "retains E w (dma_irq_handler E w)"
proof (cases "SDMMC_REGS_BASE (statics w) = 0")
  case False
  let ?r = "reg_val E (hist w) RINTSTS"
  let ?i = "reg_val E (EvRead RINTSTS ?r # hist w) IDSTS"
  let ?g = "generation (completion w)"
  let ?w' = "dma_irq_handler E w"
  have c: "completion ?w' = (completion w)\<lparr>rintsts_bits := rintsts_bits (completion w) OR ?r,
      idsts_bits := idsts_bits (completion w) OR ?i, snapshot_generation := ?g\<rparr>"
    using False assms(2)
    by (simp add: dma_irq_handler_def raw_read_def raw_write_def Let_def record_irq_def upd_completion_def)
  have "bit (reg_val E (hist w) IDSTS) n \<Longrightarrow> bit ?i n" for n
    using assms(1) by (auto simp: sticky_def)
  then show ?thesis
    unfolding retains_def visible_rintsts_def visible_idsts_def c
    by (auto simp: bit_or_iff)
qed (simp add: dma_irq_handler_def)

lemma retains_handlers:
  assumes "sticky E" "generation (completion w) \<noteq> 0"
  shows "retains E w ((dma_irq_handler E ^^ k) w)"
proof (induction k)
  case (Suc k)
  then have "generation (completion ((dma_irq_handler E ^^ k) w)) \<noteq> 0"
    using assms(2) by (simp add: retains_def)
  from retains_trans [OF Suc retains_handler [OF assms(1) this]] show ?case by simp
qed simp

lemma retains_preempt:
  "sticky E \<Longrightarrow> generation (completion w) \<noteq> 0 \<Longrightarrow> retains E w (preempt E w)"
  by (simp add: preempt_def retains_handlers)

lemma retains_access:
  assumes "sticky E" "generation (completion w) \<noteq> 0"
  shows "reg_read E r w = (v, w') \<Longrightarrow> retains E w w'"
    and "monotonic_time E w = (t, w') \<Longrightarrow> retains E w w'"
    and "wall_time E w = (t, w') \<Longrightarrow> retains E w w'"
    and "retains E w (atomic E w)"
  using retains_trans [OF retains_preempt [OF assms] retains_log [OF assms(1)]]
  by (auto simp: reg_read_def raw_read_def monotonic_time_def wall_time_def atomic_def Let_def)

lemma retains_generation: "retains E w w' \<Longrightarrow> generation (completion w') = generation (completion w)"
  by (simp add: retains_def)

section \<open>The thread sees what is visible\<close>

lemma snapshot_sees:
  assumes "sticky E" "generation (completion w) = g" "g \<noteq> 0" "snapshot_bits E g w = (s, w')"
  shows "retains E w w'"
    and "snapshot_generation (completion w) = g \<Longrightarrow> \<exists>r i. s = Some (r, i)
      \<and> (\<forall>n. bit (rintsts_bits (completion w)) n \<longrightarrow> bit r n)
      \<and> (\<forall>n. bit (idsts_bits (completion w)) n \<longrightarrow> bit i n)"
proof -
  define w1 where "w1 = atomic E w"
  define w2 where "w2 = atomic E w1"
  define w3 where "w3 = atomic E w2"
  define w4 where "w4 = atomic E w3"
  note a = retains_access(4) [OF assms(1)]
  have 1: "retains E w w1" "generation (completion w1) = g"
    using a [of w] assms(2,3) retains_generation by (auto simp: w1_def)
  have 2: "retains E w1 w2" "generation (completion w2) = g"
    using a [of w1] 1(2) assms(3) retains_generation by (auto simp: w2_def)
  have 3: "retains E w2 w3" "generation (completion w3) = g"
    using a [of w2] 2(2) assms(3) retains_generation by (auto simp: w3_def)
  have 4: "retains E w3 w4" "generation (completion w4) = g"
    using a [of w3] 3(2) assms(3) retains_generation by (auto simp: w4_def)
  have s: "(s, w') = (if snapshot_generation (completion w1) \<noteq> g then (None, w1)
      else if snapshot_generation (completion w4) = g
      then (Some (rintsts_bits (completion w2), idsts_bits (completion w3)), w4) else (None, w4))"
    using assms(4) unfolding snapshot_bits_def Let_def w1_def w2_def w3_def w4_def by simp
  have r2: "retains E w w2" by (rule retains_trans [OF 1(1) 2(1)])
  have r3: "retains E w w3" by (rule retains_trans [OF r2 3(1)])
  have r4: "retains E w w4" by (rule retains_trans [OF r3 4(1)])
  with s 1 show "retains E w w'" by (auto split: if_splits)
  assume "snapshot_generation (completion w) = g"
  with s 1 r2 r3 r4 2(2) 3(2) 4(2) assms(2)
  show "\<exists>r i. s = Some (r, i) \<and> (\<forall>n. bit (rintsts_bits (completion w)) n \<longrightarrow> bit r n)
      \<and> (\<forall>n. bit (idsts_bits (completion w)) n \<longrightarrow> bit i n)"
    unfolding retains_def by (auto split: if_splits)
qed

lemma status_sees:
  assumes "sticky E" "generation (completion w) = g" "g \<noteq> 0"
    and "idmac_completion_status E g w = ((r, i), w')"
  shows "retains E w w'"
    and "visible_rintsts E w n \<Longrightarrow> bit r n" and "visible_idsts E w n \<Longrightarrow> bit i n"
proof -
  define w0 where "w0 = preempt E w"
  have r0: "retains E w w0" using retains_preempt [OF assms(1)] assms(2,3) by (simp add: w0_def)
  have g0: "generation (completion w0) = g" using retains_generation [OF r0] assms(2) by simp
  let ?r = "reg_val E (hist w0) RINTSTS"
  define w1 where "w1 = log_ev (EvRead RINTSTS ?r) w0"
  have r1: "retains E w0 w1" unfolding w1_def by (rule retains_log [OF assms(1)]) simp
  have g1: "generation (completion w1) = g" using retains_generation [OF r1] g0 by simp
  define w2 where "w2 = preempt E w1"
  have r2: "retains E w1 w2" using retains_preempt [OF assms(1)] g1 assms(3) by (simp add: w2_def)
  have g2: "generation (completion w2) = g" using retains_generation [OF r2] g1 by simp
  let ?i = "reg_val E (hist w2) IDSTS"
  define w3 where "w3 = log_ev (EvRead IDSTS ?i) w2"
  have r3: "retains E w2 w3" unfolding w3_def by (rule retains_log [OF assms(1)]) simp
  have g3: "generation (completion w3) = g" using retains_generation [OF r3] g2 by simp
  obtain s w4 where 4: "snapshot_bits E g w3 = (s, w4)" by fastforce
  have eq: "r = ?r OR (case s of None \<Rightarrow> 0 | Some p \<Rightarrow> fst p)" "w' = w4"
    "i = ?i OR (case s of None \<Rightarrow> 0 | Some p \<Rightarrow> snd p)"
    using assms(4) 4
    by (auto simp: idmac_completion_status_def reg_read_def raw_read_def Let_def
        w0_def [symmetric] w1_def [symmetric] w2_def [symmetric] w3_def [symmetric] split: option.splits)
  note s = snapshot_sees [OF assms(1) g3 assms(3) 4]
  note r02 = retains_trans [OF r1 r2]
  note r03 = retains_trans [OF r02 r3]
  show "retains E w w'" using retains_trans [OF r0 retains_trans [OF r03 s(1)]] eq(2) by simp
  show "bit r n" if "visible_rintsts E w n"
  proof -
    from that r0 have "visible_rintsts E w0 n" by (simp add: retains_def)
    then consider "bit ?r n" | "snapshot_generation (completion w0) = g" "bit (rintsts_bits (completion w0)) n"
      using g0 by (auto simp: visible_rintsts_def)
    then show ?thesis
    proof cases
      case 2
      with r03 g0 g3 have "snapshot_generation (completion w3) = g" "bit (rintsts_bits (completion w3)) n"
        by (auto simp: retains_def)
      with s(2) eq(1) show ?thesis by (auto simp: bit_or_iff)
    qed (simp add: eq(1) bit_or_iff)
  qed
  show "bit i n" if "visible_idsts E w n"
  proof -
    from that r0 r02 have "visible_idsts E w2 n" by (simp add: retains_def)
    then consider "bit ?i n" | "snapshot_generation (completion w2) = g" "bit (idsts_bits (completion w2)) n"
      using g2 by (auto simp: visible_idsts_def)
    then show ?thesis
    proof cases
      case 2
      with r3 g2 g3 have "snapshot_generation (completion w3) = g" "bit (idsts_bits (completion w3)) n"
        by (auto simp: retains_def)
      with s(2) eq(3) show ?thesis by (auto simp: bit_or_iff)
    qed (simp add: eq(3) bit_or_iff)
  qed
qed


lemma terminal_events_mono:
  assumes "terminal_events ctx r i" "\<And>n. bit r n \<Longrightarrow> bit r' n" "\<And>n. bit i n \<Longrightarrow> bit i' n"
  shows "terminal_events ctx r' i'"
  using assms by (auto simp: terminal_events_def RIntSts_flags IdSts_flags)

lemma terminal_seen:
  assumes "sticky E" "generation (completion w) = ctx_generation ctx" "ctx_generation ctx \<noteq> 0"
    and "terminal_events ctx r i" "\<And>n. bit r n \<Longrightarrow> visible_rintsts E w n"
    "\<And>n. bit i n \<Longrightarrow> visible_idsts E w n"
  shows "\<exists>w'. idmac_terminal_events_or_error E ctx w = (True, w')"
proof -
  obtain r' i' w1 where 1: "idmac_completion_status E (ctx_generation ctx) w = ((r', i'), w1)"
    by (metis prod.collapse)
  note s = status_sees [OF assms(1-3) 1]
  have "terminal_events ctx r' i'"
    using terminal_events_mono [OF assms(4)] s(2,3) assms(5,6) by blast
  with 1 show ?thesis by (auto simp: idmac_terminal_events_or_error_def split: prod.splits)
qed

section \<open>Properties\<close>

text \<open>
  C2: no completion is lost between the interrupt handler and the waiting thread.  Status
  bits are sticky until acknowledged.  If the events that end a transfer have occurred,
  each either still in its register or recorded by the handler for this transfer, then
  however many interrupts are served before the thread looks, it finds the transfer
  ended: the synchronous wait does not time out and the asynchronous wait does not
  suspend.  In particular acknowledging a bit in the handler never hides it.
\<close>

theorem completion_not_lost:
  assumes "sticky E" "generation (completion w) = ctx_generation ctx" "ctx_generation ctx \<noteq> 0"
    and "terminal_events ctx r i" "\<forall>n. bit r n \<longrightarrow> visible_rintsts E w n"
    "\<forall>n. bit i n \<longrightarrow> visible_idsts E w n"
  shows "\<exists>w1 w2. poll_deadline E (idmac_terminal_events_or_error E ctx) deadline
        ((dma_irq_handler E ^^ k) w) = Some (False, w1)
      \<and> wait_queue_loop E (idmac_terminal_events_or_error E ctx) deadline
        ((dma_irq_handler E ^^ k) w) = Some (Done False, w2)"
proof -
  let ?w = "(dma_irq_handler E ^^ k) w"
  have r: "retains E w ?w" using retains_handlers assms(1-3) by metis
  then have "generation (completion ?w) = ctx_generation ctx" using assms(2) by (simp add: retains_def)
  moreover have "bit r n \<Longrightarrow> visible_rintsts E ?w n" "bit i n \<Longrightarrow> visible_idsts E ?w n" for n
    using r assms(5,6) by (simp_all add: retains_def)
  ultimately obtain w1 where "idmac_terminal_events_or_error E ctx ?w = (True, w1)"
    using terminal_seen [OF assms(1) _ assms(3,4)] by blast
  then show ?thesis by (simp add: poll_deadline.simps wait_queue_loop.simps)
qed

definition waiting_world :: world where
  "waiting_world = idle_world\<lparr>statics := (statics idle_world)\<lparr>SDMMC_REGS_BASE := 0x16020000,
     IDMAC_COMPLETION := IdmacCompletion_new\<lparr>generation := 1\<rparr>\<rparr>\<rparr>"

theorem completion_not_lost_witness:
  "\<exists>w1 w2. poll_deadline (sim_env (\<lambda>_. 0)) (idmac_terminal_events_or_error (sim_env (\<lambda>_. 0))
        ((context_for 0 0 True 512 sim_info)\<lparr>ctx_generation := 1\<rparr>)) 0
        ((dma_irq_handler (sim_env (\<lambda>_. 0)) ^^ 2) waiting_world) = Some (False, w1)"
proof -
  let ?E = "sim_env (\<lambda>_. 0)" and ?ctx = "(context_for 0 0 True 512 sim_info)\<lparr>ctx_generation := 1\<rparr>"
  have "sticky ?E" by (auto simp: sticky_def)
  moreover have "generation (completion waiting_world) = ctx_generation ?ctx" "ctx_generation ?ctx \<noteq> 0"
    by (simp_all add: waiting_world_def)
  moreover have "terminal_events ?ctx 0x400C 0x103" by (rule sim_terminal_events)
  moreover have "\<forall>n. bit (0x400C :: u32) n \<longrightarrow> visible_rintsts ?E waiting_world n"
    "\<forall>n. bit (0x103 :: u32) n \<longrightarrow> visible_idsts ?E waiting_world n"
    by (simp_all add: visible_rintsts_def visible_idsts_def)
  ultimately show ?thesis using completion_not_lost by blast
qed

end
