(* ===== verification/Sd_Run.thy ===== *)
theory Sd_Run
  imports Sd_Block Sd_Irq
begin

text \<open>
  The driver over its whole life: construction, any sequence of synchronous and
  asynchronous requests, and destruction.  The properties of requests stand at the end:
  what a read returns and a write stores, that every request ends, that DMA memory is
  neither leaked nor freed while the engine may use it, and that the driver stops for
  good after an error it cannot explain.
\<close>

unbundle bit_operations_syntax

section \<open>Asynchronous requests return\<close>

lemma read_chunk_async_returns:
  assumes "clock_progress E" "wall_progress E"
  shows "read_dma_chunk_async E block buf w \<noteq> None"
  unfolding read_dma_chunk_async_def Let_def
  by (auto simp: send_cmd_idmac_async_returns [OF assms] split: bind_splits prod.splits option.splits
      sum.splits fut.splits iff del: not_None_eq)

lemma write_chunk_async_returns:
  assumes "clock_progress E" "wall_progress E"
  shows "write_dma_chunk_async E block buf w \<noteq> None"
  unfolding write_dma_chunk_async_def wait_card_ready_after_write_async_def Let_def
  by (auto simp: send_cmd_idmac_async_returns [OF assms] busy_loop_returns [OF assms(1)]
      split: bind_splits prod.splits option.splits sum.splits fut.splits iff del: not_None_eq)

lemma read_loop_async_returns:
  assumes "clock_progress E" "wall_progress E" "BLOCK_SIZE dvd length buf"
  shows "read_loop_async E block buf w \<noteq> None"
  using assms(3)
proof (induction "length buf" arbitrary: block buf w rule: less_induct)
  case less
  show ?case
  proof (cases "buf = []")
    case False
    note st = rch.chunk_step [OF False less.prems]
    show ?thesis
      by (subst read_loop_async.simps)
        (auto simp: Let_def False st(2) not_less read_chunk_async_returns [OF assms(1,2)] less.hyps [OF st(5,4)]
          split: bind_splits prod.splits option.splits sum.splits fut.splits
          iff del: not_None_eq simp del: length_drop)
  qed (subst read_loop_async.simps, simp)
qed

lemma write_loop_async_returns:
  assumes "clock_progress E" "wall_progress E" "BLOCK_SIZE dvd length buf"
  shows "write_loop_async E block buf w \<noteq> None"
  using assms(3)
proof (induction "length buf" arbitrary: block buf w rule: less_induct)
  case less
  show ?case
  proof (cases "buf = []")
    case False
    note st = wch.chunk_step [OF False less.prems]
    show ?thesis
      by (subst write_loop_async.simps)
        (auto simp: Let_def False write_chunk_async_returns [OF assms(1,2)] less.hyps [OF st(5,4)]
          split: bind_splits prod.splits option.splits sum.splits fut.splits
          iff del: not_None_eq simp del: length_drop)
  qed (subst write_loop_async.simps, simp)
qed

lemma blocks_async_return:
  assumes "clock_progress E" "wall_progress E" "length buf < 2 ^ 64"
  shows "read_blocks_async E block buf w \<noteq> None" "write_blocks_async E block buf w \<noteq> None"
  using read_loop_async_returns [OF assms(1,2)] write_loop_async_returns [OF assms(1,2)]
    validate_ok [OF assms(3)]
  by (auto simp: read_blocks_async_def write_blocks_async_def split: sum.splits iff del: not_None_eq)

lemma disable_returns: "clock_progress E \<Longrightarrow> disable_idmac_after_enable_failure E w \<noteq> None"
  unfolding disable_idmac_after_enable_failure_def Let_def
  by (auto simp: reset_idmac_returns split: bind_splits prod.splits if_splits iff del: not_None_eq)

lemma try_enable_returns: "clock_progress E \<Longrightarrow> try_enable_idmac E n w \<noteq> None"
  unfolding try_enable_idmac_def allocate_dma_buffer_def enable_after_alloc_def Let_def
  by (auto simp: reset_idmac_returns disable_returns split: bind_splits prod.splits option.splits if_splits
      iff del: not_None_eq)

section \<open>A life of the driver\<close>

text \<open>Any sequence of requests, each synchronous or asynchronous, dropped or not.\<close>

inductive requests :: "env \<Rightarrow> world \<Rightarrow> world \<Rightarrow> bool" for E where
  no_request: "requests E w w"
| read_request: "requests E w w1 \<Longrightarrow> read_blocks E b buf w1 = Some (x, w2) \<Longrightarrow> length buf < 2 ^ 64
    \<Longrightarrow> requests E w w2"
| write_request: "requests E w w1 \<Longrightarrow> write_blocks E b buf w1 = Some (r, w2) \<Longrightarrow> length buf < 2 ^ 64
    \<Longrightarrow> requests E w w2"
| read_async_request: "requests E w w1 \<Longrightarrow> read_blocks_async E b buf w1 = Some (y, w2)
    \<Longrightarrow> length buf < 2 ^ 64 \<Longrightarrow> requests E w w2"
| write_async_request: "requests E w w1 \<Longrightarrow> write_blocks_async E b buf w1 = Some (f, w2)
    \<Longrightarrow> length buf < 2 ^ 64 \<Longrightarrow> requests E w w2"

lemma requests_keeps: "requests E w w' \<Longrightarrow> keeps w w'"
proof (induction rule: requests.induct)
  case (read_request w w1 b buf x w2)
  then show ?case using read_blocks_spec [of E b buf w1 "fst x" "snd x" w2] keeps_trans by auto
next
  case (write_request w w1 b buf r w2)
  then show ?case using write_blocks_spec keeps_trans by blast
next
  case (read_async_request w w1 b buf y w2)
  then show ?case using read_blocks_async_spec [of E b buf w1 "fst y" "snd y" w2] keeps_trans by auto
next
  case (write_async_request w w1 b buf f w2)
  then show ?case using write_blocks_async_spec keeps_trans by blast
qed simp

text \<open>A faulted driver writes no command any more.\<close>

lemma faulted_transfer:
  "idmac_faulted (sd w) \<Longrightarrow> send_cmd_idmac E c a w = Some (Inl DriverFaulted, w)"
  "idmac_faulted (sd w) \<Longrightarrow> send_cmd_idmac_async E c a w = Some (Done (Inl DriverFaulted), w)"
  by (simp_all add: send_cmd_idmac_def send_cmd_idmac_async_def prepare_idmac_transfer_def)

lemma submissions_size: "submissions (set_transaction_size E b n w) = submissions w"
  using set_transaction_size_frame(2) [of E b n w] by (auto simp: submissions_def)

lemma submissions_buf: "submissions (log_ev (EvBufWrite i bs) w) = submissions w"
  by (simp add: submissions_def)

lemma faulted_chunk:
  assumes "idmac_faulted (sd w)"
  shows "read_dma_chunk E b buf w = Some ((r, data), w') \<Longrightarrow> (\<exists>e. r = Inl e) \<and> submissions w' = submissions w"
    and "write_dma_chunk E b buf w = Some (s, w') \<Longrightarrow> (\<exists>e. s = Inl e) \<and> submissions w' = submissions w"
    and "read_dma_chunk_async E b buf w = Some ((q, data), w') \<Longrightarrow>
      (\<exists>e. q = Done (Inl e)) \<and> submissions w' = submissions w"
    and "write_dma_chunk_async E b buf w = Some (p, w') \<Longrightarrow>
      (\<exists>e. p = Done (Inl e)) \<and> submissions w' = submissions w"
  using assms
  by (auto simp: read_dma_chunk_def write_dma_chunk_def read_dma_chunk_async_def write_dma_chunk_async_def
      Let_def faulted_transfer set_transaction_size_frame submissions_size submissions_buf
      split: option.splits)

lemma faulted_loop:
  assumes "idmac_faulted (sd w)"
  shows "read_loop E b buf w = Some ((r, data), w') \<Longrightarrow> submissions w' = submissions w"
    and "write_loop E b buf w = Some (s, w') \<Longrightarrow> submissions w' = submissions w"
    and "read_loop_async E b buf w = Some ((q, data), w') \<Longrightarrow> submissions w' = submissions w"
    and "write_loop_async E b buf w = Some (p, w') \<Longrightarrow> submissions w' = submissions w"
proof -
  assume *: "read_loop E b buf w = Some ((r, data), w')"
  show "submissions w' = submissions w"
  proof (cases "buf = []")
    case True
    with * show ?thesis by (subst (asm) read_loop.simps) simp
  next
    case False
    from * False show ?thesis
      by (rule read_loop_step) (auto dest!: faulted_chunk(1) [OF assms])
  qed
next
  assume *: "write_loop E b buf w = Some (s, w')"
  show "submissions w' = submissions w"
  proof (cases "buf = []")
    case True
    with * show ?thesis by (subst (asm) write_loop.simps) simp
  next
    case False
    from * False show ?thesis
      by (rule write_loop_step) (auto dest!: faulted_chunk(2) [OF assms])
  qed
next
  assume *: "read_loop_async E b buf w = Some ((q, data), w')"
  show "submissions w' = submissions w"
  proof (cases "buf = []")
    case True
    with * show ?thesis by (subst (asm) read_loop_async.simps) simp
  next
    case False
    from * False show ?thesis
      by (rule read_loop_async_step) (auto dest!: faulted_chunk(3) [OF assms])
  qed
next
  assume *: "write_loop_async E b buf w = Some (p, w')"
  show "submissions w' = submissions w"
  proof (cases "buf = []")
    case True
    with * show ?thesis by (subst (asm) write_loop_async.simps) simp
  next
    case False
    from * False show ?thesis
      by (rule write_loop_async_step) (auto dest!: faulted_chunk(4) [OF assms])
  qed
qed

lemma faulted_request:
  assumes "idmac_faulted (sd w)"
  shows "read_blocks E b buf w = Some (x, w') \<Longrightarrow> submissions w' = submissions w"
    and "write_blocks E b buf w = Some (s, w') \<Longrightarrow> submissions w' = submissions w"
    and "read_blocks_async E b buf w = Some (y, w') \<Longrightarrow> submissions w' = submissions w"
    and "write_blocks_async E b buf w = Some (p, w') \<Longrightarrow> submissions w' = submissions w"
  using faulted_loop(1) [OF assms, of E b buf "fst x" "snd x"] faulted_loop(2) [OF assms]
    faulted_loop(3) [OF assms, of E b buf "fst y" "snd y"] faulted_loop(4) [OF assms]
  by (auto simp: read_blocks_def write_blocks_def read_blocks_async_def write_blocks_async_def
      split: sum.splits)

lemma requests_faulted:
  "requests E w w' \<Longrightarrow> idmac_faulted (sd w) \<Longrightarrow> submissions w' = submissions w"
proof (induction rule: requests.induct)
  case (read_request w w1 b buf x w2)
  then have "idmac_faulted (sd w1)" using requests_keeps by (auto simp: keeps_def)
  with read_request show ?case using faulted_request(1) by metis
next
  case (write_request w w1 b buf r w2)
  then have "idmac_faulted (sd w1)" using requests_keeps by (auto simp: keeps_def)
  with write_request show ?case using faulted_request(2) by metis
next
  case (read_async_request w w1 b buf y w2)
  then have "idmac_faulted (sd w1)" using requests_keeps by (auto simp: keeps_def)
  with read_async_request show ?case using faulted_request(3) by metis
next
  case (write_async_request w w1 b buf f w2)
  then have "idmac_faulted (sd w1)" using requests_keeps by (auto simp: keeps_def)
  with write_async_request show ?case using faulted_request(4) by metis
qed simp

section \<open>Runs on the simulated controller\<close>

definition sim_buffer :: DMAInfo where
  "sim_buffer = \<lparr>cpu_addr = 0x80200000, bus_addr = 0x40200000, page_allocated = True\<rparr>"

text \<open>A driver that has been constructed, with a card of 1024 blocks.\<close>

definition ready_world :: world where
  "ready_world = idle_world\<lparr>
     sd := (sd idle_world)\<lparr>num_blocks := 1024, rca := 1, ocr_ccs := True,
       dma_buffer := Some \<lparr>buf_info = sim_buffer, buf_size = DMA_BUFFER_SIZE\<rparr>\<rparr>,
     hist := [EvAlloc (DMA_BUFFER_SIZE, align_value Bits32) (Some sim_buffer)]\<rparr>"

lemma ready_world_sd [simp]:
  "num_blocks (sd ready_world) = 1024"
  "dma_buffer (sd ready_world) = Some \<lparr>buf_info = sim_buffer, buf_size = DMA_BUFFER_SIZE\<rparr>"
  "\<not> idmac_faulted (sd ready_world)" "\<not> idmac_reset_failed (sd ready_world)"
  by (simp_all add: ready_world_def idle_world_def)

lemma sim_new: "\<exists>w. SdMmc_new (sim_env m) base idle_world = Some (Inr (), w)"
proof -
  obtain w1 where 1: "init (sim_env m) (idle_world\<lparr>sd := SdMmc_empty\<rparr>) = Some (Inr (), w1)"
    using sim_init by blast
  obtain w2 where "try_enable_idmac (sim_env m) DMA_BUFFER_SIZE
      ((atomic (sim_env m) w1)\<lparr>statics := (statics (atomic (sim_env m) w1))\<lparr>SDMMC_REGS_BASE := base\<rparr>\<rparr>)
      = Some ((), w2)"
    using try_enable_returns [OF sim_clock_progress] by fastforce
  with 1 show ?thesis by (simp add: SdMmc_new_def Let_def)
qed

lemma sim_bus: "unat (bus_addr sim_buffer) = 0x40200000" "try_u32 (bus_addr sim_buffer) = Some 0x40200000"
  by (simp_all add: sim_buffer_def try_u32_def)

lemma sim_chunk_transfer:
  assumes "build c = (cmd, arg, Some x)" "has_r1_response c" "\<not> idmac_faulted (sd w)"
    "0 < xfer_len x" "xfer_len x \<le> DMA_BUFFER_SIZE"
  shows "\<exists>w'. send_cmd_idmac (sim_env m) c 0x40200000 w = Some (Inr (sim_resp cmd), w') \<and> sd w' = sd w"
proof -
  have "get_flag Cmd_layout ''data_expected'' cmd" using build_data_expected [OF assms(1)] by simp
  moreover have "unat (0x40200000 :: u32) + xfer_len x \<le> 2 ^ 32"
    using assms(5) by (simp add: DMA_BUFFER_SIZE_def MAX_DMA_BLOCKS_def)
  ultimately show ?thesis using sim_transfer [OF assms(1) _ assms(2-5)] by blast
qed

lemma sim_read_chunk:
  assumes "\<not> idmac_faulted (sd w)" "dma_buffer (sd w) = Some \<lparr>buf_info = sim_buffer, buf_size = n\<rparr>"
    "0 < length buf" "length buf \<le> DMA_BUFFER_SIZE"
  shows "\<exists>data w'. read_dma_chunk (sim_env m) block buf w = Some ((Inr (), data), w') \<and> sd w' = sd w"
proof -
  let ?w = "set_transaction_size (sim_env m) (of_nat BLOCK_SIZE) (of_nat (length buf)) w"
  let ?buf = "dma_contents (sim_env m) sim_buffer (length buf) ?w"
  obtain cmd where c: "build (read_command block ?buf) = (cmd, block, Some (XferRead ?buf))"
    using read_command_build by blast
  have "has_r1_response (read_command block ?buf)" by (simp add: read_command_def)
  then obtain w' where "send_cmd_idmac (sim_env m) (read_command block ?buf) 0x40200000 ?w
      = Some (Inr (sim_resp cmd), w')" "sd w' = sd ?w"
    using sim_chunk_transfer [OF c, of ?w m] assms
    by (auto simp: xfer_len_def dma_contents_def set_transaction_size_frame(1))
  then show ?thesis
    using assms by (simp add: read_dma_chunk_def Let_def set_transaction_size_frame(1) sim_bus)
qed

lemma sim_write_chunk:
  assumes "\<not> idmac_faulted (sd w)" "dma_buffer (sd w) = Some \<lparr>buf_info = sim_buffer, buf_size = n\<rparr>"
    "0 < length buf" "length buf \<le> DMA_BUFFER_SIZE"
  shows "\<exists>w'. write_dma_chunk (sim_env m) block buf w = Some (Inr (), w') \<and> sd w' = sd w"
proof -
  let ?w = "log_ev (EvBufWrite sim_buffer buf)
      (set_transaction_size (sim_env m) (of_nat BLOCK_SIZE) (of_nat (length buf)) w)"
  obtain cmd where c: "build (write_command block buf) = (cmd, block, Some (XferWrite buf))"
    using write_command_build by blast
  have "has_r1_response (write_command block buf)" by (simp add: write_command_def)
  then obtain w1 where w1: "send_cmd_idmac (sim_env m) (write_command block buf) 0x40200000 ?w
      = Some (Inr (sim_resp cmd), w1)" "sd w1 = sd ?w"
    using sim_chunk_transfer [OF c, of ?w m] assms by (auto simp: xfer_len_def set_transaction_size_frame(1))
  have "\<exists>w'. wait_card_ready_after_write (sim_env m) w1 = Some (Inr (), w') \<and> sd w' = sd w1"
    by (simp add: wait_card_ready_after_write_def sim_access sim_cond sim_poll)
  with w1 show ?thesis
    using assms by (simp add: write_dma_chunk_def Let_def set_transaction_size_frame(1) sim_bus)
qed

lemma sim_read:
  assumes "\<not> idmac_faulted (sd w)" "dma_buffer (sd w) = Some \<lparr>buf_info = sim_buffer, buf_size = n\<rparr>"
    "length buf = 512" "unat block < unat (num_blocks (sd w))"
  shows "\<exists>data w'. read_blocks (sim_env m) block buf w = Some ((Inr (), data), w') \<and> sd w' = sd w"
proof -
  obtain data w' where r: "read_dma_chunk (sim_env m) block buf w = Some ((Inr (), data), w')" "sd w' = sd w"
    using sim_read_chunk [of w n buf m block] assms by (auto simp: DMA_BUFFER_SIZE_def MAX_DMA_BLOCKS_def)
  have "unat block < 2 ^ LENGTH(32)" by (rule unsigned_less)
  with assms have "validate_block_buffer (sd w) block (length buf) = Inr 1"
    by (subst validate_ok) (simp_all add: BLOCK_SIZE_def)
  moreover have "read_loop (sim_env m) block buf w = Some ((Inr (), data), w')"
    using r assms by (subst read_loop.simps) (auto simp: Let_def read_chunk_blocks_def BLOCK_SIZE_def
        MIN_MULTI_BLOCK_READ_BLOCKS_def next_block_def read_loop.simps)
  ultimately show ?thesis using r(2) by (simp add: read_blocks_def)
qed

lemma sim_write:
  assumes "\<not> idmac_faulted (sd w)" "dma_buffer (sd w) = Some \<lparr>buf_info = sim_buffer, buf_size = n\<rparr>"
    "length buf = 512" "unat block < unat (num_blocks (sd w))"
  shows "\<exists>w'. write_blocks (sim_env m) block buf w = Some (Inr (), w') \<and> sd w' = sd w"
proof -
  obtain w' where r: "write_dma_chunk (sim_env m) block buf w = Some (Inr (), w')" "sd w' = sd w"
    using sim_write_chunk [of w n buf m block] assms by (auto simp: DMA_BUFFER_SIZE_def MAX_DMA_BLOCKS_def)
  have "unat block < 2 ^ LENGTH(32)" by (rule unsigned_less)
  with assms have "validate_block_buffer (sd w) block (length buf) = Inr 1"
    by (subst validate_ok) (simp_all add: BLOCK_SIZE_def)
  moreover have "write_loop (sim_env m) block buf w = Some (Inr (), w')"
    using r assms by (subst write_loop.simps) (auto simp: Let_def write_chunk_blocks_def BLOCK_SIZE_def
        MAX_DMA_BLOCKS_def next_block_def write_loop.simps)
  ultimately show ?thesis using r(2) by (simp add: write_blocks_def)
qed

lemma sim_wall_progress: "wall_progress (sim_env m)"
  by (auto simp: wall_progress_def)


section \<open>Properties\<close>

text \<open>
  C1: a successful synchronous read returns the card's bytes.  If DMA memory is coherent
  (once the engine has released the descriptors the processor sees what the engine
  wrote), the buffer afterwards holds exactly the bytes of the blocks asked for, in
  order, whatever the length of the request and however it was split into chunks, and
  the card's contents are unchanged.
\<close>

theorem read_blocks_correct:
  assumes "read_blocks E block buf w = Some ((Inr (), data), w')" "coherent E d" "length buf < 2 ^ 64"
  shows "data = get (512 * unat block) (length buf) (disk d w) \<and> disk d w' = disk d w"
  using read_blocks_spec [OF assms(1,3), of d] assms(2) by simp

theorem read_blocks_correct_witness:
  "\<exists>data w'. read_blocks (sim_env (\<lambda>i. of_nat i)) 3 (replicate 512 0) ready_world = Some ((Inr (), data), w')
     \<and> data = get (512 * 3) 512 (disk (\<lambda>i. of_nat i) ready_world)"
proof -
  obtain data w' where "read_blocks (sim_env (\<lambda>i. of_nat i)) 3 (replicate 512 0) ready_world
      = Some ((Inr (), data), w')"
    using sim_read [of ready_world DMA_BUFFER_SIZE "replicate 512 0" 3 "\<lambda>i. of_nat i"] by auto
  with read_blocks_correct [OF this sim_coherent] show ?thesis by simp
qed

text \<open>
  C7: a successful synchronous write stores exactly the caller's bytes at the blocks asked
  for and changes nothing else on the card: the driver refines an array of bytes.
\<close>

theorem write_blocks_refines_store:
  assumes "write_blocks E block buf w = Some (Inr (), w')" "length buf < 2 ^ 64"
  shows "disk d w' = put (512 * unat block) buf (disk d w)"
  using write_blocks_spec [OF assms, of d] by simp

theorem write_blocks_refines_store_witness:
  "\<exists>w'. write_blocks (sim_env (\<lambda>_. 0)) 7 (replicate 512 1) ready_world = Some (Inr (), w')
     \<and> disk (\<lambda>_. 0) w' = put (512 * 7) (replicate 512 1) (disk (\<lambda>_. 0) ready_world)"
proof -
  obtain w' where "write_blocks (sim_env (\<lambda>_. 0)) 7 (replicate 512 1) ready_world = Some (Inr (), w')"
    using sim_write [of ready_world DMA_BUFFER_SIZE "replicate 512 1" 7] by auto
  with write_blocks_refines_store [OF this, of "\<lambda>_. 0"] show ?thesis by simp
qed

text \<open>
  C8: what is written is read back: a successful read of the same range returns the bytes
  written, from any later state in which the card still holds what the write left on it,
  such as the one after any number of successful reads.
\<close>

theorem write_read_round_trip:
  assumes "write_blocks E block buf w = Some (Inr (), w1)" "disk d w2 = disk d w1"
    and "read_blocks E block old w2 = Some ((Inr (), data), w3)" "length old = length buf"
    and "coherent E d" "length buf < 2 ^ 64"
  shows "data = buf"
proof -
  have "disk d w1 = put (512 * unat block) buf (disk d w)"
    using write_blocks_spec [OF assms(1,6), of d] by simp
  moreover have "data = get (512 * unat block) (length buf) (disk d w2)"
    using read_blocks_spec [OF assms(3), of d] assms(4-6) by simp
  ultimately show ?thesis using assms(2) by simp
qed

theorem write_read_round_trip_witness:
  "\<exists>w1 data w2. write_blocks (sim_env (\<lambda>_. 0)) 7 (replicate 512 1) ready_world = Some (Inr (), w1)
     \<and> read_blocks (sim_env (\<lambda>_. 0)) 7 (replicate 512 0) w1 = Some ((Inr (), data), w2)
     \<and> data = replicate 512 1"
proof -
  let ?E = "sim_env (\<lambda>_. 0)"
  obtain w1 where 1: "write_blocks ?E 7 (replicate 512 1) ready_world = Some (Inr (), w1)"
    "sd w1 = sd ready_world"
    using sim_write [of ready_world DMA_BUFFER_SIZE "replicate 512 1" 7] by auto
  obtain data w2 where 2: "read_blocks ?E 7 (replicate 512 0) w1 = Some ((Inr (), data), w2)"
    using sim_read [of w1 DMA_BUFFER_SIZE "replicate 512 0" 7 "\<lambda>_. 0"] 1(2) by auto
  have "data = replicate 512 1"
    by (rule write_read_round_trip [OF 1(1) refl 2 _ sim_coherent]) simp_all
  with 1 2 show ?thesis by blast
qed

text \<open>
  C3: DMA memory over the driver's life.  Whatever the requests and their outcomes, the
  memory the driver holds is its bounce buffer and, only after a failed engine reset,
  descriptor tables the engine may still use; nothing is freed twice.  Unless a reset
  failed, dropping the driver frees everything.
\<close>

theorem driver_memory_safe:
  assumes "SdMmc_new E base w0 = Some (Inr (), w)" "live (trace w0) = Some []" "requests E w w'"
  shows "(\<exists>kept. live (trace w') = Some (kept @ buffer_live (sd w'))
        \<and> (kept \<noteq> [] \<longrightarrow> idmac_reset_failed (sd w')))
    \<and> (\<not> idmac_reset_failed (sd w') \<longrightarrow>
        live (trace w') = live (trace w) \<and> live (trace (SdMmc_drop w')) = Some [])"
proof -
  have "mem_inv w" using SdMmc_new_inv [OF assms(1,2)] by simp
  with requests_keeps [OF assms(3)] have m: "mem_inv w'"
    "live (trace w') = live (trace w) \<or> idmac_reset_failed (sd w')" by (simp_all add: keeps_def)
  with release_dma_buffer_inv(1) [OF m(1)] show ?thesis
    by (auto simp: SdMmc_drop_def) (auto simp: mem_inv_def)
qed

theorem driver_memory_safe_witness:
  "\<exists>w w'. SdMmc_new (sim_env (\<lambda>_. 0)) 0x16020000 idle_world = Some (Inr (), w)
     \<and> requests (sim_env (\<lambda>_. 0)) w w'
     \<and> (\<not> idmac_reset_failed (sd w') \<longrightarrow> live (trace (SdMmc_drop w')) = Some [])"
proof -
  let ?E = "sim_env (\<lambda>_. 0)"
  obtain w where w: "SdMmc_new ?E 0x16020000 idle_world = Some (Inr (), w)" using sim_new by blast
  obtain x w' where "read_blocks ?E 3 (replicate 512 0) w = Some (x, w')"
    using blocks_return(1) [OF sim_clock_progress, of "replicate 512 0" "\<lambda>_. 0" 3 w] by fastforce
  then have r: "requests ?E w w'" by (rule read_request [OF no_request]) simp
  from driver_memory_safe [OF w _ r] w r show ?thesis by auto
qed

text \<open>
  C6: the driver fails stop.  If a transfer ends in an error after its command was
  submitted, or its future is dropped, the driver is faulted; an error before that
  leaves the driver unchanged and no command written.  A faulted driver stays faulted,
  answers every transfer with \<open>DriverFaulted\<close> and never writes a command again, whatever
  requests follow.
\<close>

theorem driver_fails_stop:
  "(\<forall>e w'. send_cmd_idmac E c a w = Some (Inl e, w')
       \<or> send_cmd_idmac_async E c a w = Some (Done (Inl e), w') \<longrightarrow>
       idmac_faulted (sd w') \<or> sd w' = sd w \<and> submissions w' = submissions w)
   \<and> (\<forall>w'. send_cmd_idmac_async E c a w = Some (Dropped, w') \<longrightarrow> idmac_faulted (sd w'))
   \<and> (idmac_faulted (sd w) \<longrightarrow>
       send_cmd_idmac E c a w = Some (Inl DriverFaulted, w)
       \<and> (\<forall>w'. requests E w w' \<longrightarrow> idmac_faulted (sd w') \<and> submissions w' = submissions w))"
proof -
  have r: "refused w w' \<Longrightarrow> sd w' = sd w \<and> submissions w' = submissions w" for w'
    using refused_submissions by (auto simp: refused_def)
  have s: "idmac_faulted (sd w') \<or> sd w' = sd w \<and> submissions w' = submissions w"
    if "send_cmd_idmac E c a w = Some (Inl e, w')" for e w'
    using that r by (auto elim!: send_cmd_idmac_spec dest: abandoned_sd)
  have t: "idmac_faulted (sd w') \<or> sd w' = sd w \<and> submissions w' = submissions w"
    if "send_cmd_idmac_async E c a w = Some (Done (Inl e), w')" for e w'
    using that r by (auto elim!: send_cmd_idmac_async_spec dest: abandoned_sd)
  show ?thesis
    using s t transfer_dropped_faults requests_faulted requests_keeps faulted_transfer(1)
    by (auto simp: keeps_def)
qed

theorem driver_fails_stop_witness:
  "send_cmd_idmac idle_env (ReadSingleBlock 0 (replicate 512 0)) 0 (fault idle_world)
     = Some (Inl DriverFaulted, fault idle_world)"
  using driver_fails_stop [of idle_env "ReadSingleBlock 0 (replicate 512 0)" 0 "fault idle_world"]
  by simp

text \<open>
  C23: every request ends.  When the clocks advance, a synchronous and an asynchronous read
  or write of any length return, whatever the controller, the card and the interrupts
  do; no loop of the driver waits for hardware without a deadline.
\<close>

theorem requests_return:
  assumes "clock_progress E" "length buf < 2 ^ 64"
  shows "read_blocks E block buf w \<noteq> None \<and> write_blocks E block buf w \<noteq> None
    \<and> (wall_progress E \<longrightarrow>
        read_blocks_async E block buf w \<noteq> None \<and> write_blocks_async E block buf w \<noteq> None)"
  using blocks_return [OF assms] blocks_async_return [OF assms(1) _ assms(2)] by blast

theorem requests_return_witness:
  "read_blocks idle_env 0 (replicate 4096 0) ready_world \<noteq> None
     \<and> write_blocks idle_env 0 (replicate 4096 0) ready_world \<noteq> None"
  using requests_return [OF idle_clock_progress, of "replicate 4096 0" 0 ready_world] by simp

text \<open>
  C25: the driver accepts a request exactly when the buffer is a positive whole number of
  512-byte blocks and the blocks lie on the card and within the 32-bit block numbers; no
  intermediate value overflows.
\<close>

theorem validate_block_buffer_exact:
  assumes "len < 2 ^ 64"
  shows "validate_block_buffer s block len =
     (if len = 0 \<or> \<not> 512 dvd len then Inl InvalidParameter
      else if unat block + len div 512 \<le> min (unat (num_blocks s)) (2 ^ 32) then Inr (len div 512)
      else Inl OutOfRange)"
proof (cases "len = 0 \<or> \<not> 512 dvd len")
  case True
  then show ?thesis by (auto simp: validate_block_buffer_def is_multiple_of_iff BLOCK_SIZE_def)
next
  case False
  then show ?thesis
    using validate_ok [OF assms, of s block "len div 512"] validate_error [of s block len]
    by (cases "validate_block_buffer s block len")
      (auto simp: validate_block_buffer_def is_multiple_of_iff BLOCK_SIZE_def Let_def
        split: option.splits if_splits)
qed

theorem validate_block_buffer_exact_witness:
  "validate_block_buffer (sd ready_world) 1023 512 = Inr 1
     \<and> validate_block_buffer (sd ready_world) 1023 1024 = Inl OutOfRange"
  using validate_block_buffer_exact [of 512 "sd ready_world" 1023]
    validate_block_buffer_exact [of 1024 "sd ready_world" 1023] by simp

section \<open>The block-device adapter\<close>






end
