(* ===== verification/Ord_Map.thy ===== *)
theory Ord_Map
  imports Sd_Prelude
begin

text \<open>
  Rust's \<open>BTreeMap\<close> as the kernel uses it: an association list in strictly ascending key
  order, so that iteration has the order of the tree.  The interface the clients rely on
  is the locale \<open>ordered_map\<close>, interpreted on these definitions.
\<close>

type_synonym ('k, 'v) btree_map = "('k \<times> 'v) list"

definition bt_empty :: "('k, 'v) btree_map" where
  "bt_empty = []"

definition bt_get :: "('k, 'v) btree_map \<Rightarrow> 'k \<Rightarrow> 'v option" where
  "bt_get m = map_of m"

fun bt_insert :: "'k::linorder \<Rightarrow> 'v \<Rightarrow> ('k, 'v) btree_map \<Rightarrow> ('k, 'v) btree_map" where
  "bt_insert k v [] = [(k, v)]"
| "bt_insert k v ((a, b) # m) =
     (if k < a then (k, v) # (a, b) # m
      else if k = a then (k, v) # m
      else (a, b) # bt_insert k v m)"

definition bt_remove :: "'k \<Rightarrow> ('k, 'v) btree_map \<Rightarrow> ('k, 'v) btree_map" where
  "bt_remove k m = filter (\<lambda>(a, _). a \<noteq> k) m"

definition bt_retain :: "('k \<Rightarrow> 'v \<Rightarrow> bool) \<Rightarrow> ('k, 'v) btree_map \<Rightarrow> ('k, 'v) btree_map" where
  "bt_retain P m = filter (\<lambda>(a, b). P a b) m"

definition bt_invar :: "('k::linorder, 'v) btree_map \<Rightarrow> bool" where
  "bt_invar m \<longleftrightarrow> sorted_wrt (<) (map fst m)"

section \<open>The interface\<close>

locale ordered_map =
  fixes empty :: 'm
    and get :: "'m \<Rightarrow> 'k::linorder \<Rightarrow> 'v option"
    and insert :: "'k \<Rightarrow> 'v \<Rightarrow> 'm \<Rightarrow> 'm"
    and remove :: "'k \<Rightarrow> 'm \<Rightarrow> 'm"
    and entries :: "'m \<Rightarrow> ('k \<times> 'v) list"
    and invar :: "'m \<Rightarrow> bool"
  assumes invar_empty: "invar empty"
    and invar_insert: "invar m \<Longrightarrow> invar (insert k v m)"
    and invar_remove: "invar m \<Longrightarrow> invar (remove k m)"
    and get_empty: "get empty = Map.empty"
    and get_insert: "invar m \<Longrightarrow> get (insert k v m) = (get m)(k \<mapsto> v)"
    and get_remove: "invar m \<Longrightarrow> get (remove k m) = (get m)(k := None)"
    and get_entries: "invar m \<Longrightarrow> get m k = Some v \<longleftrightarrow> (k, v) \<in> set (entries m)"
    and entries_sorted: "invar m \<Longrightarrow> sorted_wrt (<) (map fst (entries m))"
begin

lemma entries_distinct: "invar m \<Longrightarrow> distinct (map fst (entries m))"
  using entries_sorted strict_sorted_iff by blast

lemma entry_unique: "invar m \<Longrightarrow> (k, v) \<in> set (entries m) \<Longrightarrow> (k, v') \<in> set (entries m) \<Longrightarrow> v = v'"
  using get_entries [of m k v] get_entries [of m k v'] by simp

text \<open>A loop over the entries that stops at the first match stops at the least matching key.\<close>

lemma find_least:
  assumes "invar m" "find P (entries m) = Some (k, v)"
  shows "get m k = Some v" "P (k, v)" "\<And>k' v'. get m k' = Some v' \<Longrightarrow> P (k', v') \<Longrightarrow> k \<le> k'"
proof -
  from assms(2) obtain i where i: "i < length (entries m)" "P (entries m ! i)" "(k, v) = entries m ! i"
    "\<And>j. j < i \<Longrightarrow> \<not> P (entries m ! j)"
    by (auto simp: find_Some_iff)
  then show "get m k = Some v" "P (k, v)" using get_entries [OF assms(1)] by (auto simp: in_set_conv_nth)
  fix k' v' assume g: "get m k' = Some v'" "P (k', v')"
  then obtain j where j: "j < length (entries m)" "entries m ! j = (k', v')"
    using get_entries [OF assms(1)] by (auto simp: in_set_conv_nth)
  with g(2) i(4) have "i \<le> j" by (metis not_le)
  then show "k \<le> k'"
    using sorted_wrt_nth_less [OF entries_sorted [OF assms(1)], of i j] i(3) j
    by (cases "i = j") (auto simp: prod_eq_iff)
qed

lemma find_none:
  assumes "invar m" "find P (entries m) = None" "get m k = Some v"
  shows "\<not> P (k, v)"
  using assms get_entries [OF assms(1)] by (auto simp: find_None_iff)

end

section \<open>The laws\<close>

lemma bt_invar_Nil [simp]: "bt_invar []"
  by (simp add: bt_invar_def)

lemma bt_invar_Cons: "bt_invar ((a, b) # m) \<longleftrightarrow> bt_invar m \<and> (\<forall>k \<in> fst ` set m. a < k)"
  by (auto simp: bt_invar_def)

lemma fst_set_bt_insert: "fst ` set (bt_insert k v m) = insert k (fst ` set m)"
  by (induction k v m rule: bt_insert.induct) auto

lemma bt_invar_insert: "bt_invar m \<Longrightarrow> bt_invar (bt_insert k v m)"
  by (induction k v m rule: bt_insert.induct) (force simp: bt_invar_Cons fst_set_bt_insert)+

lemma bt_get_insert: "bt_get (bt_insert k v m) = (bt_get m)(k \<mapsto> v)"
  by (induction k v m rule: bt_insert.induct) (auto simp: bt_get_def fun_eq_iff)

lemma bt_invar_retain: "bt_invar m \<Longrightarrow> bt_invar (bt_retain P m)"
  by (induction m) (auto simp: bt_invar_Cons bt_retain_def)

lemma set_bt_retain: "set (bt_retain P m) = {(k, v). (k, v) \<in> set m \<and> P k v}"
  by (auto simp: bt_retain_def)

lemma length_bt_retain: "length (bt_retain P m) \<le> length m"
  by (simp add: bt_retain_def)

lemma distinct_snd_bt_retain: "distinct (map snd m) \<Longrightarrow> distinct (map snd (bt_retain P m))"
  by (simp add: bt_retain_def distinct_map_filter)

lemma bt_remove_retain: "bt_remove k = bt_retain (\<lambda>a _. a \<noteq> k)"
  by (simp add: bt_remove_def bt_retain_def fun_eq_iff)

lemma bt_get_remove: "bt_get (bt_remove k m) = (bt_get m)(k := None)"
  by (induction m) (auto simp: bt_get_def bt_remove_def fun_eq_iff)

lemma bt_get_entries: "bt_invar m \<Longrightarrow> bt_get m k = Some v \<longleftrightarrow> (k, v) \<in> set m"
  by (simp add: bt_get_def bt_invar_def strict_sorted_iff map_of_eq_Some_iff)

lemma bt_get_retain: "bt_invar m \<Longrightarrow>
    bt_get (bt_retain P m) k = (case bt_get m k of None \<Rightarrow> None | Some v \<Rightarrow> if P k v then Some v else None)"
proof (induction m)
  case (Cons p m)
  then show ?case
    by (cases p) (auto simp: bt_get_def bt_retain_def bt_invar_Cons map_of_eq_None_iff
        split: option.splits dest!: map_of_SomeD)
qed (simp add: bt_get_def bt_retain_def)

interpretation bt: ordered_map bt_empty bt_get bt_insert bt_remove "\<lambda>m. m" bt_invar
  by unfold_locales
    (simp_all add: bt_empty_def bt_invar_insert bt_remove_retain bt_invar_retain bt_get_insert
      bt_get_remove [unfolded bt_remove_retain] bt_get_entries, simp_all add: bt_get_def bt_invar_def)

end
