(* ===== verification/Ipc.thy ===== *)
theory Ipc
  imports Ord_Map
begin

text \<open>
  The part the System V IPC facilities share (\<open>kernel/src/syscall/ipc/mod.rs\<close>): the
  identifier counter, the command and permission constants and the permission check, with
  the errors of the system calls, the credentials they read (\<open>syscall/sys.rs\<close>) and the
  user memory they reach through \<open>starry_vm\<close>, which is a parameter.

  An \<open>i32\<close> or \<open>i64\<close> is an \<open>int\<close>; where the code can leave its range the wrap-around is
  written out.  Unsigned values are words.
\<close>

section \<open>Constants\<close>

definition IPC_PRIVATE :: int where "IPC_PRIVATE = 0"
definition IPC_CREAT :: int where "IPC_CREAT = 0x200"
definition IPC_EXCL :: int where "IPC_EXCL = 0x400"
definition IPC_RMID :: int where "IPC_RMID = 0"
definition IPC_SET :: int where "IPC_SET = 1"
definition IPC_STAT :: int where "IPC_STAT = 2"
definition IPC_INFO :: int where "IPC_INFO = 3"
definition MSG_STAT :: int where "MSG_STAT = 11"
definition MSG_INFO :: int where "MSG_INFO = 12"

definition USER_READ :: u32 where "USER_READ = 0x100"
definition USER_WRITE :: u32 where "USER_WRITE = 0x80"
definition GROUP_READ :: u32 where "GROUP_READ = 0x20"
definition GROUP_WRITE :: u32 where "GROUP_WRITE = 0x10"
definition OTHER_READ :: u32 where "OTHER_READ = 4"
definition OTHER_WRITE :: u32 where "OTHER_WRITE = 2"

lemmas ipc_consts = IPC_PRIVATE_def IPC_CREAT_def IPC_EXCL_def IPC_RMID_def IPC_SET_def
  IPC_STAT_def IPC_INFO_def MSG_STAT_def MSG_INFO_def
lemmas ipc_modes = USER_READ_def USER_WRITE_def GROUP_READ_def GROUP_WRITE_def
  OTHER_READ_def OTHER_WRITE_def

datatype ax_error =
    ENOENT | EAGAIN | EACCES | EEXIST | EINVAL | ENOSPC | EPERM | E2BIG | ENOMSG | EIDRM
  | InvalidInput | NoMemory | BadAddress

type_synonym 'a ax_result = "ax_error + 'a"

section \<open>Identifiers\<close>

definition next_ipc_id :: "int \<Rightarrow> int \<times> int" where
  "next_ipc_id c = (c, (c + 1 + 2 ^ 31) mod 2 ^ 32 - 2 ^ 31)"

section \<open>Permissions\<close>

record IpcPerm =
  key :: int
  uid :: u32
  gid :: u32
  cuid :: u32
  cgid :: u32
  mode :: u32
  seq :: u16
  pad :: u16
  unused0 :: u64
  unused1 :: u64

definition has_ipc_permission :: "IpcPerm \<Rightarrow> u32 \<Rightarrow> u32 \<Rightarrow> bool \<Rightarrow> bool" where
  "has_ipc_permission perm current_uid current_gid is_write =
     (if current_uid = 0 then True
      else if uid perm = current_uid then
        mode perm AND (if is_write then USER_WRITE else USER_READ) \<noteq> 0
      else if gid perm = current_gid then
        mode perm AND (if is_write then GROUP_WRITE else GROUP_READ) \<noteq> 0
      else mode perm AND (if is_write then OTHER_WRITE else OTHER_READ) \<noteq> 0)"

definition sys_getuid :: "u64 ax_result" where
  "sys_getuid = Inr 0"

definition sys_getgid :: "u64 ax_result" where
  "sys_getgid = Inr 0"

text \<open>What a system call reads of its caller: the two identities and the process.\<close>

record caller =
  current_uid :: u32
  current_gid :: u32
  current_pid :: u32

definition current_caller :: "u32 \<Rightarrow> caller ax_result" where
  "current_caller pid =
     res_bind sys_getuid (\<lambda>u. res_bind sys_getgid (\<lambda>g.
       Inr \<lparr> current_uid = ucast u, current_gid = ucast g, current_pid = pid \<rparr>))"

section \<open>Laws\<close>

lemma next_ipc_id_range: "- (2 ^ 31) \<le> snd (next_ipc_id c) \<and> snd (next_ipc_id c) < 2 ^ 31"
  using pos_mod_bound [of "2 ^ 32" "c + 1 + 2 ^ 31"] pos_mod_sign [of "2 ^ 32" "c + 1 + 2 ^ 31"]
  by (simp add: next_ipc_id_def)

lemma next_ipc_id_plain: "0 \<le> c \<Longrightarrow> c < 2 ^ 31 - 1 \<Longrightarrow> next_ipc_id c = (c, c + 1)"
  by (simp add: next_ipc_id_def)

lemma and_push_bit_1: "(m AND push_bit n 1 \<noteq> 0) = bit m n" if "n < LENGTH('a)" for m :: "'a::len word"
proof -
  have "bit (m AND push_bit n 1) k = (bit m n \<and> k = n)" for k
    using that by (auto simp: bit_simps)
  then show ?thesis by (auto simp: word_neq_0_iff)
qed

lemma mode_bit:
  "(m AND USER_READ \<noteq> 0) = bit m 8" "(m AND USER_WRITE \<noteq> 0) = bit m 7"
  "(m AND GROUP_READ \<noteq> 0) = bit m 5" "(m AND GROUP_WRITE \<noteq> 0) = bit m 4"
  "(m AND OTHER_READ \<noteq> 0) = bit m 2" "(m AND OTHER_WRITE \<noteq> 0) = bit m 1"
  using and_push_bit_1 [of 8 m] and_push_bit_1 [of 7 m] and_push_bit_1 [of 5 m]
    and_push_bit_1 [of 4 m] and_push_bit_1 [of 2 m] and_push_bit_1 [of 1 m]
  by (simp_all add: ipc_modes push_bit_eq_mult)

text \<open>The class of the caller selects three bits of the mode, the access one of them.\<close>

definition perm_class :: "IpcPerm \<Rightarrow> u32 \<Rightarrow> u32 \<Rightarrow> nat" where
  "perm_class p u g = (if uid p = u then 2 else if gid p = g then 1 else 0)"

lemma has_ipc_permission_iff:
  "has_ipc_permission p u g w \<longleftrightarrow>
     u = 0 \<or> bit (mode p) (3 * perm_class p u g + (if w then 1 else 2))"
  by (auto simp: has_ipc_permission_def perm_class_def mode_bit
      simp del: word_neq_0_iff)

end
