(* ===== verification/Msg_Queue.thy ===== *)
theory Msg_Queue
  imports Ipc
begin

text \<open>
  One System V message queue (\<open>MessageQueue\<close> of \<open>kernel/src/syscall/ipc/msg.rs\<close>): the
  messages of each type in a \<open>BTreeMap\<close> from types to vectors, with the byte and message
  counters.  The lemmas show the well-formedness invariant, that the operations implement
  one first-in first-out queue per type, and which message each search selects.
\<close>

section \<open>Data\<close>

definition MSGMNI :: nat where "MSGMNI = 32000"
definition MSGMNB :: nat where "MSGMNB = 16384"
definition MSGMAX :: nat where "MSGMAX = 8192"

record msqid_ds =
  msg_perm :: IpcPerm
  msg_stime :: u64
  msg_rtime :: u64
  msg_ctime :: u64
  msg_cbytes :: u64
  msg_qnum :: u64
  msg_qbytes :: u64
  msg_lspid :: u32
  msg_lrpid :: u32

record Message =
  mtype :: int
  data :: "u8 list"

record MessageQueue =
  ds :: msqid_ds
  messages :: "(int, Message list) btree_map"
  total_bytes :: u64
  mark_removed :: bool

definition msqid_ds_new :: "int \<Rightarrow> u32 \<Rightarrow> u32 \<Rightarrow> u32 \<Rightarrow> u32 \<Rightarrow> u64 \<Rightarrow> msqid_ds" where
  "msqid_ds_new k m pid u g now =
     \<lparr> msg_perm = \<lparr> key = k, uid = u, gid = g, cuid = u, cgid = g, mode = m,
                   seq = 0, pad = 0, unused0 = 0, unused1 = 0 \<rparr>,
       msg_stime = 0, msg_rtime = 0, msg_ctime = now,
       msg_cbytes = 0, msg_qnum = 0, msg_qbytes = of_nat MSGMNB,
       msg_lspid = pid, msg_lrpid = pid \<rparr>"

definition MessageQueue_new :: "int \<Rightarrow> u32 \<Rightarrow> u32 \<Rightarrow> u32 \<Rightarrow> u32 \<Rightarrow> u64 \<Rightarrow> MessageQueue" where
  "MessageQueue_new k m pid u g now =
     \<lparr> ds = msqid_ds_new k m pid u g now, messages = bt_empty, total_bytes = 0, mark_removed = False \<rparr>"

section \<open>Operations\<close>

definition or_default :: "'a list option \<Rightarrow> 'a list" where
  "or_default x = (case x of None \<Rightarrow> [] | Some l \<Rightarrow> l)"

definition first :: "'a list \<Rightarrow> 'a option" where
  "first l = (case l of [] \<Rightarrow> None | x # _ \<Rightarrow> Some x)"

definition enqueue_message :: "int \<Rightarrow> u8 list \<Rightarrow> MessageQueue \<Rightarrow> unit ax_result \<times> MessageQueue" where
  "enqueue_message t d q =
     (let data_len = of_nat (length d) in
      if total_bytes q + data_len > msg_qbytes (ds q) then (Inl ENOSPC, q)
      else
        (let message = \<lparr> mtype = t, data = d \<rparr>;
             q = q\<lparr> messages := bt_insert t (or_default (bt_get (messages q) t) @ [message]) (messages q) \<rparr>;
             q = q\<lparr> total_bytes := total_bytes q + data_len \<rparr>;
             q = q\<lparr> ds := (ds q)\<lparr> msg_cbytes := msg_cbytes (ds q) + data_len \<rparr>\<rparr>
         in (Inr (), q\<lparr> ds := (ds q)\<lparr> msg_qnum := msg_qnum (ds q) + 1 \<rparr>\<rparr>)))"

fun find_first :: "(int, Message list) btree_map \<Rightarrow> (int \<times> u8 list) option" where
  "find_first [] = None"
| "find_first ((t, msgs) # m) =
     (case first msgs of Some message \<Rightarrow> Some (t, data message) | None \<Rightarrow> find_first m)"

definition find_first_message :: "MessageQueue \<Rightarrow> (int \<times> u8 list) option" where
  "find_first_message q = find_first (messages q)"

definition find_message_by_type :: "int \<Rightarrow> MessageQueue \<Rightarrow> (int \<times> u8 list) option" where
  "find_message_by_type msgtyp q =
     map_option (\<lambda>msg. (msgtyp, data msg)) (Option.bind (bt_get (messages q) msgtyp) first)"

fun find_not_equal :: "int \<Rightarrow> (int, Message list) btree_map \<Rightarrow> (int \<times> u8 list) option" where
  "find_not_equal msgtyp [] = None"
| "find_not_equal msgtyp ((t, msgs) # m) =
     (case first msgs of
        Some message \<Rightarrow> if t \<noteq> msgtyp then Some (t, data message) else find_not_equal msgtyp m
      | None \<Rightarrow> find_not_equal msgtyp m)"

definition find_message_not_equal :: "int \<Rightarrow> MessageQueue \<Rightarrow> (int \<times> u8 list) option" where
  "find_message_not_equal msgtyp q = find_not_equal msgtyp (messages q)"

fun less_equal_candidate :: "int \<Rightarrow> int option \<Rightarrow> (int, Message list) btree_map \<Rightarrow> int option" where
  "less_equal_candidate abs_typ candidate [] = candidate"
| "less_equal_candidate abs_typ candidate ((t, msgs) # m) =
     less_equal_candidate abs_typ
       (if t \<le> abs_typ \<and> msgs \<noteq> [] \<and> (case candidate of None \<Rightarrow> True | Some c \<Rightarrow> t < c)
        then Some t else candidate) m"

definition find_message_less_equal :: "int \<Rightarrow> MessageQueue \<Rightarrow> (int \<times> u8 list) option" where
  "find_message_less_equal abs_typ q =
     (case less_equal_candidate abs_typ None (messages q) of
        Some t \<Rightarrow> map_option (\<lambda>msg. (t, data msg)) (Option.bind (bt_get (messages q) t) first)
      | None \<Rightarrow> None)"

definition get_total_message_count :: "MessageQueue \<Rightarrow> nat" where
  "get_total_message_count q = sum_list (map (length \<circ> snd) (messages q))"

fun message_at :: "nat \<Rightarrow> nat \<Rightarrow> (int, Message list) btree_map \<Rightarrow> Message option" where
  "message_at index current_index [] = None"
| "message_at index current_index ((_, msgs) # m) =
     (if index < current_index + length msgs then
        (if index - current_index < length msgs then Some (msgs ! (index - current_index)) else None)
      else message_at index (current_index + length msgs) m)"

definition get_message_by_index :: "nat \<Rightarrow> MessageQueue \<Rightarrow> Message option" where
  "get_message_by_index index q = message_at index 0 (messages q)"

definition vec_remove :: "nat \<Rightarrow> 'a list \<Rightarrow> 'a list" where
  "vec_remove i l = take i l @ drop (Suc i) l"

definition remove_message_by_type_and_index ::
    "int \<Rightarrow> nat \<Rightarrow> MessageQueue \<Rightarrow> Message ax_result \<times> MessageQueue" where
  "remove_message_by_type_and_index t index q =
     (case bt_get (messages q) t of
        Some msgs \<Rightarrow>
          if index < length msgs then
            (let removed_msg = msgs ! index;
                 rest = vec_remove index msgs;
                 data_len = of_nat (length (data removed_msg));
                 q = q\<lparr> messages := bt_insert t rest (messages q) \<rparr>;
                 q = q\<lparr> total_bytes := total_bytes q - data_len \<rparr>;
                 q = q\<lparr> ds := (ds q)\<lparr> msg_cbytes := msg_cbytes (ds q) - data_len \<rparr>\<rparr>;
                 q = q\<lparr> ds := (ds q)\<lparr> msg_qnum := msg_qnum (ds q) - 1 \<rparr>\<rparr>;
                 q = (if rest = [] then q\<lparr> messages := bt_remove t (messages q) \<rparr> else q)
             in (Inr removed_msg, q))
          else (Inl ENOMSG, q)
      | None \<Rightarrow> (Inl ENOMSG, q))"

section \<open>The abstract queue and the invariant\<close>

text \<open>The specification of a queue is the sequence of messages waiting under each type.\<close>

definition waiting :: "MessageQueue \<Rightarrow> int \<Rightarrow> u8 list list" where
  "waiting q t = map data (or_default (bt_get (messages q) t))"

definition all_messages :: "MessageQueue \<Rightarrow> Message list" where
  "all_messages q = concat (map snd (messages q))"

definition queue_bytes :: "MessageQueue \<Rightarrow> nat" where
  "queue_bytes q = sum_list (map (length \<circ> data) (all_messages q))"

definition mq_invar :: "MessageQueue \<Rightarrow> bool" where
  "mq_invar q \<longleftrightarrow>
     bt_invar (messages q)
     \<and> (\<forall>(t, msgs) \<in> set (messages q). msgs \<noteq> [] \<and> (\<forall>m \<in> set msgs. mtype m = t))
     \<and> total_bytes q = of_nat (queue_bytes q)
     \<and> msg_cbytes (ds q) = of_nat (queue_bytes q)
     \<and> msg_qnum (ds q) = of_nat (length (all_messages q))"

section \<open>Generic facts on maps of sequences\<close>

lemma or_default_simps [simp]: "or_default None = []" "or_default (Some l) = l"
  by (simp_all add: or_default_def)

lemma first_simps [simp]: "first [] = None" "first (x # xs) = Some x"
  by (simp_all add: first_def)

lemma first_None [simp]: "first l = None \<longleftrightarrow> l = []"
  by (cases l) auto

lemma first_Some: "first l = Some x \<longleftrightarrow> (\<exists>l'. l = x # l')"
  by (cases l) auto

lemma set_bt_insert: "bt_invar m \<Longrightarrow> set (bt_insert k v m) = insert (k, v) {p \<in> set m. fst p \<noteq> k}"
proof (induction k v m rule: bt_insert.induct)
  case (2 k v a b m)
  then show ?case by (force simp: bt_invar_Cons)
qed simp

text \<open>Summing a homomorphism over the concatenated entries, before and after an update.\<close>

lemma concat_bt_insert:
  fixes f :: "'v \<Rightarrow> nat"
  assumes "bt_invar m"
  shows "sum_list (map f (concat (map snd (bt_insert k l m)))) + sum_list (map f (or_default (bt_get m k)))
       = sum_list (map f l) + sum_list (map f (concat (map snd m)))"
  using assms
proof (induction k l m rule: bt_insert.induct)
  case (1 k l)
  then show ?case by (simp add: bt_get_def)
next
  case (2 k l a b m)
  have "map_of m k = None" if "k < a"
    using 2(2) that by (force simp: bt_invar_Cons map_of_eq_None_iff)
  with 2 show ?case by (auto simp: bt_invar_Cons bt_get_def)
qed

lemma concat_bt_remove_Nil:
  assumes "bt_invar m" "bt_get m k = Some []"
  shows "concat (map snd (bt_remove k m)) = concat (map snd m)"
  using assms
proof (induction m)
  case (Cons p m)
  have rest: "bt_remove k m = m" if "k \<notin> fst ` set m"
    using that by (force simp: bt_remove_def filter_id_conv)
  show ?case
  proof (cases "fst p = k")
    case True
    with Cons(2) have "k \<notin> fst ` set m" by (cases p) (auto simp: bt_invar_Cons)
    with True Cons(3) rest show ?thesis by (cases p) (simp add: bt_get_def bt_remove_def)
  next
    case False
    with Cons show ?thesis by (cases p) (simp add: bt_get_def bt_remove_def bt_invar_Cons)
  qed
qed (simp add: bt_get_def)

section \<open>Invariant\<close>

lemma mq_invarD:
  assumes "mq_invar q"
  shows "bt_invar (messages q)" "total_bytes q = of_nat (queue_bytes q)"
    "msg_cbytes (ds q) = of_nat (queue_bytes q)"
    "msg_qnum (ds q) = of_nat (length (all_messages q))"
  using assms by (simp_all add: mq_invar_def)

lemma mq_invar_get:
  assumes "mq_invar q" "bt_get (messages q) t = Some msgs"
  shows "msgs \<noteq> []" "\<And>m. m \<in> set msgs \<Longrightarrow> mtype m = t"
  using assms by (auto simp: mq_invar_def bt_get_entries)

lemma mq_invar_new: "mq_invar (MessageQueue_new k m pid u g now)"
  by (simp add: mq_invar_def MessageQueue_new_def msqid_ds_new_def bt_empty_def queue_bytes_def
      all_messages_def)

lemma waiting_new: "waiting (MessageQueue_new k m pid u g now) t = []"
  by (simp add: waiting_def MessageQueue_new_def bt_empty_def bt_get_def)

text \<open>Replacing the sequence of one type, the common step of both updates.\<close>

lemma length_concat_insert:
  assumes "bt_invar m"
  shows "length (concat (map snd (bt_insert k l m))) + length (or_default (bt_get m k))
       = length l + length (concat (map snd m))"
proof -
  have one: "sum_list (map (\<lambda>_. 1) l) = length l" for l :: "'c list" by (induction l) auto
  show ?thesis using concat_bt_insert [OF assms, of "\<lambda>_. 1" k l] by (simp only: one)
qed

lemma counts_insert:
  assumes "bt_invar (messages q)"
  shows "queue_bytes (q\<lparr>messages := bt_insert t l (messages q)\<rparr>)
           + sum_list (map (length \<circ> data) (or_default (bt_get (messages q) t)))
         = sum_list (map (length \<circ> data) l) + queue_bytes q"
    and "length (all_messages (q\<lparr>messages := bt_insert t l (messages q)\<rparr>))
           + length (or_default (bt_get (messages q) t))
         = length l + length (all_messages q)"
  using concat_bt_insert [OF assms, of "length \<circ> data" t l] length_concat_insert [OF assms, of t l]
  by (simp_all add: queue_bytes_def all_messages_def)

lemma queue_bytes_cong: "messages q = messages q' \<Longrightarrow> queue_bytes q = queue_bytes q'"
  by (simp add: queue_bytes_def all_messages_def)

lemma all_messages_cong: "messages q = messages q' \<Longrightarrow> all_messages q = all_messages q'"
  by (simp add: all_messages_def)

lemma enqueue_message_cases:
  assumes "enqueue_message t d q = (r, q')"
  obtains (full) "r = Inl ENOSPC" "q' = q" "msg_qbytes (ds q) < total_bytes q + of_nat (length d)"
  | (ok) "r = Inr ()" "total_bytes q + of_nat (length d) \<le> msg_qbytes (ds q)"
    "q' = q\<lparr> messages := bt_insert t (or_default (bt_get (messages q) t) @ [\<lparr> mtype = t, data = d \<rparr>]) (messages q),
             total_bytes := total_bytes q + of_nat (length d),
             ds := (ds q)\<lparr> msg_cbytes := msg_cbytes (ds q) + of_nat (length d),
                           msg_qnum := msg_qnum (ds q) + 1 \<rparr> \<rparr>"
  using assms by (auto simp: enqueue_message_def Let_def split: if_splits)

lemma mq_invarI:
  assumes "bt_invar (messages q)"
    "\<And>t msgs. (t, msgs) \<in> set (messages q) \<Longrightarrow> msgs \<noteq> [] \<and> (\<forall>m \<in> set msgs. mtype m = t)"
    "total_bytes q = of_nat (queue_bytes q)" "msg_cbytes (ds q) = of_nat (queue_bytes q)"
    "msg_qnum (ds q) = of_nat (length (all_messages q))"
  shows "mq_invar q"
  using assms by (auto simp: mq_invar_def)

lemma enqueue_message_counts:
  assumes "mq_invar q" "enqueue_message t d q = (Inr (), q')"
  shows "queue_bytes q' = queue_bytes q + length d" "length (all_messages q') = Suc (length (all_messages q))"
proof -
  note c = counts_insert [OF mq_invarD(1) [OF assms(1)], of t
      "or_default (bt_get (messages q) t) @ [\<lparr> mtype = t, data = d \<rparr>]"]
  from assms(2) have "messages q' = bt_insert t (or_default (bt_get (messages q) t) @ [\<lparr> mtype = t, data = d \<rparr>]) (messages q)"
    by (cases rule: enqueue_message_cases) simp_all
  with c show "queue_bytes q' = queue_bytes q + length d" "length (all_messages q') = Suc (length (all_messages q))"
    by (simp_all add: queue_bytes_def all_messages_def)
qed

lemma enqueue_message_invar:
  assumes "mq_invar q" "enqueue_message t d q = (r, q')"
  shows "mq_invar q'"
  using assms(2)
proof (cases rule: enqueue_message_cases)
  case ok
  note c = enqueue_message_counts [OF assms(1) assms(2) [unfolded ok(1)]]
  note i = mq_invarD [OF assms(1)]
  show ?thesis
  proof (rule mq_invarI)
    fix t' msgs assume "(t', msgs) \<in> set (messages q')"
    then show "msgs \<noteq> [] \<and> (\<forall>m \<in> set msgs. mtype m = t')"
      using mq_invar_get [OF assms(1)]
      by (cases "bt_get (messages q) t") (auto simp: ok(3) set_bt_insert [OF i(1)] bt_get_entries [OF i(1)])
  qed (simp_all add: c, simp_all add: ok(3) i bt_invar_insert)
qed (use assms in simp)

lemma enqueue_message_waiting:
  assumes "enqueue_message t d q = (Inr (), q')"
  shows "waiting q' = (waiting q)(t := waiting q t @ [d])"
  using assms by (cases rule: enqueue_message_cases) (auto simp: waiting_def bt_get_insert fun_eq_iff)

lemma remove_message_cases:
  assumes "remove_message_by_type_and_index t i q = (r, q')"
  obtains (none) "r = Inl ENOMSG" "q' = q" "length (or_default (bt_get (messages q) t)) \<le> i"
  | (ok) msgs rest where "bt_get (messages q) t = Some msgs" "i < length msgs" "r = Inr (msgs ! i)"
    "rest = vec_remove i msgs"
    "q' = q\<lparr> messages := (if rest = [] then bt_remove t else (\<lambda>m. m)) (bt_insert t rest (messages q)),
             total_bytes := total_bytes q - of_nat (length (data (msgs ! i))),
             ds := (ds q)\<lparr> msg_cbytes := msg_cbytes (ds q) - of_nat (length (data (msgs ! i))),
                           msg_qnum := msg_qnum (ds q) - 1 \<rparr> \<rparr>"
  using assms
  by (auto simp: remove_message_by_type_and_index_def Let_def split: option.splits if_splits)

lemma sum_vec_remove:
  "i < length l \<Longrightarrow> sum_list (map f (vec_remove i l)) + f (l ! i) = sum_list (map f l)" for f :: "'a \<Rightarrow> nat"
  using arg_cong [OF id_take_nth_drop, of i l "\<lambda>l. sum_list (map f l)"] by (simp add: vec_remove_def)

lemma length_vec_remove: "i < length l \<Longrightarrow> Suc (length (vec_remove i l)) = length l"
  by (simp add: vec_remove_def min_def)

lemma set_vec_remove: "set (vec_remove i l) \<subseteq> set l"
  using set_take_subset set_drop_subset by (fastforce simp: vec_remove_def)

lemma counts_remove:
  assumes inv: "mq_invar q" and rm: "remove_message_by_type_and_index t i q = (Inr m, q')"
  shows "queue_bytes q' + length (data m) = queue_bytes q"
    "Suc (length (all_messages q')) = length (all_messages q)"
proof -
  note b = mq_invarD(1) [OF inv]
  from rm have "queue_bytes q' + length (data m) = queue_bytes q \<and>
    Suc (length (all_messages q')) = length (all_messages q)"
  proof (cases rule: remove_message_cases)
    case (ok msgs rest)
    have "all_messages q' = all_messages (q\<lparr>messages := bt_insert t rest (messages q)\<rparr>)"
      by (simp add: ok(5) all_messages_def concat_bt_remove_Nil [OF bt_invar_insert [OF b]] bt_get_insert)
    then show ?thesis
      using counts_insert [OF b, of t rest] ok(1-4) sum_vec_remove [OF ok(2), of "length \<circ> data"]
        length_vec_remove [OF ok(2)]
      by (simp add: queue_bytes_def)
  qed simp
  then show "queue_bytes q' + length (data m) = queue_bytes q"
    "Suc (length (all_messages q')) = length (all_messages q)" by simp_all
qed

lemma remove_message_invar:
  assumes inv: "mq_invar q" and rm: "remove_message_by_type_and_index t i q = (r, q')"
  shows "mq_invar q'"
  using rm
proof (cases rule: remove_message_cases)
  case (ok msgs rest)
  note b = mq_invarD [OF inv]
  note c = counts_remove [OF inv rm [unfolded ok(3)]]
  show ?thesis
  proof (rule mq_invarI)
    fix t' msgs' assume "(t', msgs') \<in> set (messages q')"
    then have "(t' = t \<and> msgs' = rest \<and> rest \<noteq> []) \<or> (t', msgs') \<in> set (messages q)"
      by (auto simp: ok(5) set_bt_insert [OF b(1)] bt_remove_def split: if_splits)
    then show "msgs' \<noteq> [] \<and> (\<forall>m \<in> set msgs'. mtype m = t')"
      using mq_invar_get [OF inv] ok(1,4) set_vec_remove [of i msgs] by (auto simp: bt_get_entries [OF b(1)])
  next
    show "bt_invar (messages q')"
      by (simp add: ok(5) b bt_invar_insert bt_remove_retain bt_invar_retain)
  next
    have "total_bytes q' = total_bytes q - of_nat (length (data (msgs ! i)))"
      "msg_cbytes (ds q') = msg_cbytes (ds q) - of_nat (length (data (msgs ! i)))"
      "msg_qnum (ds q') = msg_qnum (ds q) - 1"
      by (simp_all add: ok(5))
    then show "total_bytes q' = of_nat (queue_bytes q')" "msg_cbytes (ds q') = of_nat (queue_bytes q')"
      "msg_qnum (ds q') = of_nat (length (all_messages q'))"
      by (simp_all add: b flip: c)
  qed
qed (use inv in simp)

lemma remove_message_waiting:
  assumes "mq_invar q" "remove_message_by_type_and_index t i q = (Inr m, q')"
  shows "i < length (waiting q t)" "data m = waiting q t ! i" "mtype m = t"
    "waiting q' = (waiting q)(t := vec_remove i (waiting q t))"
proof -
  have "i < length (waiting q t) \<and> data m = waiting q t ! i \<and> mtype m = t \<and>
      waiting q' = (waiting q)(t := vec_remove i (waiting q t))"
    using assms(2)
  proof (cases rule: remove_message_cases)
    case (ok msgs rest)
    then show ?thesis
      using mq_invar_get(2) [OF assms(1) ok(1), of m]
      by (auto simp: waiting_def bt_get_insert bt_get_remove fun_eq_iff vec_remove_def take_map drop_map)
  qed simp
  then show "i < length (waiting q t)" "data m = waiting q t ! i" "mtype m = t"
    "waiting q' = (waiting q)(t := vec_remove i (waiting q t))" by simp_all
qed

lemma remove_message_ok:
  assumes "i < length (waiting q t)"
  shows "\<exists>m q'. remove_message_by_type_and_index t i q = (Inr m, q')"
  using assms by (auto simp: waiting_def remove_message_by_type_and_index_def Let_def or_default_def
      split: option.splits)

section \<open>Which message a search selects\<close>

text \<open>
  A search for the types satisfying \<open>P\<close> finds the oldest message of the least such type
  that has one, and nothing only when none has.
\<close>

definition selects :: "(int \<Rightarrow> bool) \<Rightarrow> (int \<Rightarrow> u8 list list) \<Rightarrow> (int \<times> u8 list) option \<Rightarrow> bool" where
  "selects P w r =
     (case r of
        None \<Rightarrow> \<forall>t. P t \<longrightarrow> w t = []
      | Some (t, d) \<Rightarrow> P t \<and> w t \<noteq> [] \<and> d = hd (w t) \<and> (\<forall>t'. P t' \<and> w t' \<noteq> [] \<longrightarrow> t \<le> t'))"

lemma waiting_get: "bt_get (messages q) t = Some msgs \<Longrightarrow> waiting q t = map data msgs"
  by (simp add: waiting_def)

lemma waiting_nonempty: "waiting q t \<noteq> [] \<longleftrightarrow> (\<exists>m ms. bt_get (messages q) t = Some (m # ms))"
  by (cases "bt_get (messages q) t") (auto simp: waiting_def neq_Nil_conv)

abbreviation oldest :: "int \<times> Message list \<Rightarrow> int \<times> u8 list" where
  "oldest \<equiv> \<lambda>(t, msgs). (t, data (hd msgs))"

lemma selects_find:
  assumes "bt_invar (messages q)"
  shows "selects P (waiting q) (map_option oldest (find (\<lambda>(t, msgs). P t \<and> msgs \<noteq> []) (messages q)))"
proof (cases "find (\<lambda>(t, msgs). P t \<and> msgs \<noteq> []) (messages q)")
  case None
  then show ?thesis using bt.find_none [OF assms None] waiting_nonempty by (fastforce simp: selects_def)
next
  case (Some e)
  obtain t msgs where e: "e = (t, msgs)" by (cases e)
  note l = bt.find_least [OF assms Some [unfolded e]]
  have "t \<le> t'" if "P t'" "waiting q t' \<noteq> []" for t'
  proof -
    from that(2) obtain ms where g: "bt_get (messages q) t' = Some ms" "ms \<noteq> []" by (auto simp: waiting_nonempty)
    show ?thesis by (rule l(3) [OF g(1)]) (use that g in simp)
  qed
  then show ?thesis using l(1,2) by (auto simp: selects_def Some e waiting_get hd_map)
qed

lemma find_first_eq: "find_first m = map_option oldest (find (\<lambda>(t, msgs). True \<and> msgs \<noteq> []) m)"
  by (induction m) (auto simp: first_def split: list.splits)

lemma find_not_equal_eq:
  "find_not_equal x m = map_option oldest (find (\<lambda>(t, msgs). t \<noteq> x \<and> msgs \<noteq> []) m)"
  by (induction m) (auto simp: first_def split: list.splits)

lemma less_equal_candidate_Some:
  "\<forall>t \<in> fst ` set m. c \<le> t \<Longrightarrow> less_equal_candidate a (Some c) m = Some c"
  by (induction m) auto

lemma less_equal_candidate_eq:
  "bt_invar m \<Longrightarrow> less_equal_candidate a None m = map_option fst (find (\<lambda>(t, msgs). t \<le> a \<and> msgs \<noteq> []) m)"
proof (induction m)
  case (Cons p m)
  then show ?case
    by (cases p) (auto simp: bt_invar_Cons intro!: less_equal_candidate_Some less_imp_le)
qed simp

lemma find_first_message_selects: "mq_invar q \<Longrightarrow> selects (\<lambda>_. True) (waiting q) (find_first_message q)"
  unfolding find_first_message_def find_first_eq by (rule selects_find [OF mq_invarD(1)])

lemma find_message_not_equal_selects:
  "mq_invar q \<Longrightarrow> selects (\<lambda>t. t \<noteq> x) (waiting q) (find_message_not_equal x q)"
  unfolding find_message_not_equal_def find_not_equal_eq by (rule selects_find [OF mq_invarD(1)])

lemma find_message_by_type_selects: "selects (\<lambda>t. t = x) (waiting q) (find_message_by_type x q)"
  by (cases "bt_get (messages q) x"; cases "the (bt_get (messages q) x)")
    (auto simp: find_message_by_type_def selects_def waiting_def)

lemma find_message_less_equal_selects:
  assumes "mq_invar q"
  shows "selects (\<lambda>t. t \<le> a) (waiting q) (find_message_less_equal a q)"
proof -
  note b = mq_invarD(1) [OF assms]
  let ?f = "find (\<lambda>(t, msgs). t \<le> a \<and> msgs \<noteq> []) (messages q)"
  have "find_message_less_equal a q = map_option oldest ?f"
  proof (cases ?f)
    case None
    then show ?thesis by (simp add: find_message_less_equal_def less_equal_candidate_eq [OF b])
  next
    case (Some e)
    obtain t msgs where e: "e = (t, msgs)" by (cases e)
    note l = bt.find_least [OF b Some [unfolded e]]
    then show ?thesis
      by (cases msgs) (auto simp: find_message_less_equal_def less_equal_candidate_eq [OF b] Some e)
  qed
  then show ?thesis using selects_find [OF b, of "\<lambda>t. t \<le> a"] by simp
qed

lemma selectsD:
  assumes "selects P w (Some (t, d))"
  shows "P t" "w t = d # tl (w t)" "\<And>t'. P t' \<Longrightarrow> w t' \<noteq> [] \<Longrightarrow> t \<le> t'"
  using assms by (auto simp: selects_def)

section \<open>Messages by position\<close>

lemma get_total_message_count_eq: "get_total_message_count q = length (all_messages q)"
  by (simp add: get_total_message_count_def all_messages_def length_concat comp_def)

lemma message_at_eq:
  "c \<le> i \<Longrightarrow> message_at i c m =
     (let l = concat (map snd m) in if i - c < length l then Some (l ! (i - c)) else None)"
proof (induction i c m rule: message_at.induct)
  case (2 i c t msgs m)
  then show ?case by (auto simp: Let_def nth_append not_less diff_diff_left)
qed simp

lemma get_message_by_index_eq:
  "get_message_by_index i q = (if i < length (all_messages q) then Some (all_messages q ! i) else None)"
  by (simp add: get_message_by_index_def message_at_eq all_messages_def Let_def)

lemma all_messages_waiting:
  assumes "mq_invar q" "m \<in> set (all_messages q)"
  shows "data m \<in> set (waiting q (mtype m))"
proof -
  from assms(2) obtain t msgs where e: "(t, msgs) \<in> set (messages q)" "m \<in> set msgs"
    by (auto simp: all_messages_def)
  then have "bt_get (messages q) t = Some msgs" using bt_get_entries [OF mq_invarD(1) [OF assms(1)]] by simp
  with e mq_invar_get(2) [OF assms(1) this] show ?thesis by (auto simp: waiting_get)
qed

end
