(* ===== verification/Msg_Sys.thy ===== *)
theory Msg_Sys
  imports Msg_Queue
begin

text \<open>
  The message queue manager and the four system calls of
  \<open>kernel/src/syscall/ipc/msg.rs\<close>.  A queue is shared by reference: an \<open>Arc\<close> is an index
  into \<open>arcs\<close>, and a system call that looked a queue up keeps its \<open>Arc\<close> while others change
  the manager.  A system call is a sequence of sections, one for each time it holds the
  manager's lock or the queue's; \<open>start\<close> runs the first and \<open>resume\<close> the next one.
\<close>

section \<open>State\<close>

record MsgManager =
  key_msqid :: "(int, int) btree_map"
  msqid_queues :: "(int, nat) btree_map"

record msg_state =
  IPC_ID :: int
  MSG_MANAGER :: MsgManager
  arcs :: "MessageQueue list"

record MsgInfo =
  msgpool :: int
  msgmap :: int
  msgmax :: int
  msgmnb :: int
  msgmni :: int
  msgssz :: int
  msgtql :: int
  msgseg :: int

text \<open>
  User memory as a section sees it, and the clock it reads.  \<open>starry_vm\<close> answers a read with
  a value or a fault, and decides for each write whether it faults.
\<close>

datatype user_write =
    Write_mtype u64 int
  | Write_bytes u64 "u8 list"
  | Write_info u64 MsgInfo
  | Write_ds u64 msqid_ds

record msg_env =
  vm_read_mtype :: "u64 \<Rightarrow> int ax_result"
  vm_load :: "u64 \<Rightarrow> nat \<Rightarrow> u8 list ax_result"
  vm_read_ds :: "u64 \<Rightarrow> msqid_ds ax_result"
  vm_fault :: "user_write \<Rightarrow> ax_error option"
  monotonic_time_nanos :: u64

definition mtext_ptr :: "u64 \<Rightarrow> u64" where
  "mtext_ptr msgp = msgp + 8"

section \<open>Manager\<close>

definition MsgManager_new :: MsgManager where
  "MsgManager_new = \<lparr> key_msqid = bt_empty, msqid_queues = bt_empty \<rparr>"

definition iter_msg_queues :: "MsgManager \<Rightarrow> (int \<times> nat) list" where
  "iter_msg_queues m = msqid_queues m"

definition iter_active_queues :: "msg_state \<Rightarrow> (int \<times> nat) list" where
  "iter_active_queues s =
     filter (\<lambda>(_, a). \<not> mark_removed (arcs s ! a)) (iter_msg_queues (MSG_MANAGER s))"

definition get_msqid_by_key :: "int \<Rightarrow> MsgManager \<Rightarrow> int option" where
  "get_msqid_by_key k m = bt_get (key_msqid m) k"

definition get_queue_by_msqid :: "int \<Rightarrow> MsgManager \<Rightarrow> nat option" where
  "get_queue_by_msqid msqid m = bt_get (msqid_queues m) msqid"

definition insert_key_msqid :: "int \<Rightarrow> int \<Rightarrow> MsgManager \<Rightarrow> MsgManager" where
  "insert_key_msqid k msqid m = m\<lparr> key_msqid := bt_insert k msqid (key_msqid m) \<rparr>"

definition insert_msqid_queues :: "int \<Rightarrow> nat \<Rightarrow> MsgManager \<Rightarrow> MsgManager" where
  "insert_msqid_queues msqid a m = m\<lparr> msqid_queues := bt_insert msqid a (msqid_queues m) \<rparr>"

definition queue_count :: "MsgManager \<Rightarrow> nat" where
  "queue_count m = length (msqid_queues m)"

definition remove_msqid :: "int \<Rightarrow> MsgManager \<Rightarrow> MsgManager" where
  "remove_msqid msqid m =
     m\<lparr> key_msqid := bt_retain (\<lambda>_ v. v \<noteq> msqid) (key_msqid m),
        msqid_queues := bt_remove msqid (msqid_queues m) \<rparr>"

definition manager_total_bytes :: "msg_state \<Rightarrow> u64" where
  "manager_total_bytes s = sum_list (map (\<lambda>(_, a). total_bytes (arcs s ! a)) (iter_active_queues s))"

section \<open>Flags\<close>

definition IPC_NOWAIT :: int where "IPC_NOWAIT = 0x800"
definition MSG_NOERROR :: int where "MSG_NOERROR = 0x1000"
definition MSG_COPY :: int where "MSG_COPY = 0x2000"
definition MSG_EXCEPT :: int where "MSG_EXCEPT = 0x400"

lemmas msg_flags = IPC_NOWAIT_def MSG_NOERROR_def MSG_COPY_def MSG_EXCEPT_def

definition flags_contain :: "int \<Rightarrow> int \<Rightarrow> bool" where
  "flags_contain flags f \<longleftrightarrow> flags AND f = f"

definition MsgRcvFlags_from_bits_truncate :: "int \<Rightarrow> int" where
  "MsgRcvFlags_from_bits_truncate b = b AND (IPC_NOWAIT OR MSG_NOERROR OR MSG_COPY OR MSG_EXCEPT)"

definition MsgSndFlags_from_bits_truncate :: "int \<Rightarrow> int" where
  "MsgSndFlags_from_bits_truncate b = b AND IPC_NOWAIT"

section \<open>msgget\<close>

definition new_queue :: "msg_env \<Rightarrow> caller \<Rightarrow> int \<Rightarrow> int \<Rightarrow> MessageQueue" where
  "new_queue e c k msgflg =
     MessageQueue_new k (word_of_int (msgflg AND 0x1FF)) (current_pid c) (current_uid c) (current_gid c)
       (monotonic_time_nanos e)"

definition sys_msgget :: "msg_env \<Rightarrow> caller \<Rightarrow> int \<Rightarrow> int \<Rightarrow> msg_state \<Rightarrow> int ax_result \<times> msg_state" where
  "sys_msgget e c k msgflg s =
     (let m = MSG_MANAGER s in
      if queue_count m \<ge> MSGMNI then (Inl ENOSPC, s)
      else if k = IPC_PRIVATE then
        (let (msqid, next) = next_ipc_id (IPC_ID s)
         in (Inr msqid, s\<lparr> IPC_ID := next, arcs := arcs s @ [new_queue e c k msgflg],
                           MSG_MANAGER := insert_msqid_queues msqid (length (arcs s)) m \<rparr>))
      else
        (case get_msqid_by_key k m of
           Some msqid \<Rightarrow>
             (case get_queue_by_msqid msqid m of
                None \<Rightarrow> (Inl ENOENT, s)
              | Some a \<Rightarrow>
                  (let q = arcs s ! a in
                   if \<not> has_ipc_permission (msg_perm (ds q)) (current_uid c) (current_gid c) False
                   then (Inl EACCES, s)
                   else if mark_removed q then (Inl EIDRM, s)
                   else if msgflg AND IPC_EXCL \<noteq> 0 \<and> msgflg AND IPC_CREAT \<noteq> 0 then (Inl EEXIST, s)
                   else (Inr msqid, s)))
         | None \<Rightarrow>
             if msgflg AND IPC_CREAT = 0 then (Inl ENOENT, s)
             else
               (let (msqid, next) = next_ipc_id (IPC_ID s)
                in (Inr msqid, s\<lparr> IPC_ID := next, arcs := arcs s @ [new_queue e c k msgflg],
                      MSG_MANAGER := insert_msqid_queues msqid (length (arcs s)) (insert_key_msqid k msqid m) \<rparr>))))"

section \<open>msgsnd\<close>

text \<open>The section under the lock of the queue.\<close>

definition msgsnd_locked ::
    "msg_env \<Rightarrow> caller \<Rightarrow> u64 \<Rightarrow> u64 \<Rightarrow> int \<Rightarrow> MessageQueue \<Rightarrow> int ax_result \<times> MessageQueue" where
  "msgsnd_locked e c msgp msgsz msgflg q =
     (let flags = MsgSndFlags_from_bits_truncate msgflg in
      if \<not> has_ipc_permission (msg_perm (ds q)) (current_uid c) (current_gid c) True then (Inl EACCES, q)
      else
        (case vm_read_mtype e msgp of
           Inl err \<Rightarrow> (Inl err, q)
         | Inr t \<Rightarrow>
             if t \<le> 0 then (Inl EINVAL, q)
             else
               (case vm_load e (mtext_ptr msgp) (unat msgsz) of
                  Inl err \<Rightarrow> (Inl err, q)
                | Inr data_vec \<Rightarrow>
                    (let would_exceed_bytes =
                           total_bytes q + of_nat (length data_vec) > msg_qbytes (ds q);
                         would_exceed_messages = msg_qnum (ds q) + 1 > msg_qbytes (ds q)
                     in if would_exceed_bytes \<or> would_exceed_messages then
                          (if flags_contain flags IPC_NOWAIT then (Inl EAGAIN, q) else (Inl EAGAIN, q))
                        else
                          (case enqueue_message t data_vec q of
                             (Inl err, q) \<Rightarrow> (Inl err, q)
                           | (Inr _, q) \<Rightarrow>
                               (Inr 0, q\<lparr> ds := (ds q)\<lparr> msg_lspid := current_pid c,
                                                         msg_stime := monotonic_time_nanos e \<rparr>\<rparr>))))))"

section \<open>msgrcv\<close>

definition i64_abs :: "int \<Rightarrow> int" where
  "i64_abs t = (if t = - (2 ^ 63) then t else \<bar>t\<bar>)"

definition matched_message :: "int \<Rightarrow> int \<Rightarrow> MessageQueue \<Rightarrow> (int \<times> u8 list) option" where
  "matched_message flags msgtyp q =
     (if msgtyp = 0 then find_first_message q
      else if msgtyp > 0 then
        (if flags_contain flags MSG_EXCEPT then find_message_not_equal msgtyp q
         else find_message_by_type msgtyp q)
      else find_message_less_equal (i64_abs msgtyp) q)"

text \<open>The matching logic: type, data, index and whether the message is to be removed.\<close>

definition msgrcv_match :: "int \<Rightarrow> int \<Rightarrow> MessageQueue \<Rightarrow> (int \<times> u8 list \<times> nat \<times> bool) ax_result" where
  "msgrcv_match flags msgtyp q =
     (if flags_contain flags MSG_COPY then
        (let index = nat (msgtyp mod 2 ^ 64) in
         if index \<ge> get_total_message_count q then Inl ENOMSG
         else
           (case get_message_by_index index q of
              None \<Rightarrow> Inl ENOMSG
            | Some message \<Rightarrow> Inr (mtype message, data message, index, False)))
      else
        (case matched_message flags msgtyp q of
           Some (t, d) \<Rightarrow> Inr (t, d, 0, True)
         | None \<Rightarrow> if flags_contain flags IPC_NOWAIT then Inl ENOMSG else Inl ENOMSG))"

definition vm_write :: "msg_env \<Rightarrow> user_write \<Rightarrow> unit ax_result" where
  "vm_write e w = (case vm_fault e w of Some err \<Rightarrow> Inl err | None \<Rightarrow> Inr ())"

definition msgrcv_finish :: "msg_env \<Rightarrow> caller \<Rightarrow> MessageQueue \<Rightarrow> MessageQueue" where
  "msgrcv_finish e c q =
     q\<lparr> ds := (ds q)\<lparr> msg_lrpid := current_pid c, msg_rtime := monotonic_time_nanos e \<rparr>\<rparr>"

text \<open>Copying the matched message out and, except in \<open>MSG_COPY\<close> mode, removing it.\<close>

definition msgrcv_deliver ::
    "msg_env \<Rightarrow> caller \<Rightarrow> u64 \<Rightarrow> u64 \<Rightarrow> int \<Rightarrow> int \<times> u8 list \<times> nat \<times> bool \<Rightarrow> MessageQueue \<Rightarrow>
     int ax_result \<times> MessageQueue \<times> user_write list" where
  "msgrcv_deliver e c msgp msgsz flags m q =
     (case m of (t, data_slice, index, should_remove) \<Rightarrow>
        if length data_slice > unat msgsz \<and> \<not> flags_contain flags MSG_NOERROR then (Inl E2BIG, q, [])
        else
          (case vm_write e (Write_mtype msgp t) of
             Inl err \<Rightarrow> (Inl err, q, [])
           | Inr _ \<Rightarrow>
               (let copy_len = min (length data_slice) (unat msgsz);
                    bytes = Write_bytes (mtext_ptr msgp) (take copy_len data_slice)
                in case vm_write e bytes of
                     Inl err \<Rightarrow> (Inl err, q, [Write_mtype msgp t])
                   | Inr _ \<Rightarrow>
                       (let ws = [Write_mtype msgp t, bytes] in
                        if should_remove then
                          (case remove_message_by_type_and_index t index q of
                             (Inl err, q) \<Rightarrow> (Inl err, q, ws)
                           | (Inr _, q) \<Rightarrow> (Inr (int copy_len), msgrcv_finish e c q, ws))
                        else (Inr (int copy_len), msgrcv_finish e c q, ws)))))"

text \<open>The section under the lock of the queue.\<close>

definition msgrcv_locked ::
    "msg_env \<Rightarrow> caller \<Rightarrow> u64 \<Rightarrow> u64 \<Rightarrow> int \<Rightarrow> int \<Rightarrow> MessageQueue \<Rightarrow>
     int ax_result \<times> MessageQueue \<times> user_write list" where
  "msgrcv_locked e c msgp msgsz msgtyp msgflg q =
     (let flags = MsgRcvFlags_from_bits_truncate msgflg in
      if \<not> has_ipc_permission (msg_perm (ds q)) (current_uid c) (current_gid c) False
      then (Inl EACCES, q, [])
      else if mark_removed q then (Inl EIDRM, q, [])
      else
        (case msgrcv_match flags msgtyp q of
           Inl err \<Rightarrow> (Inl err, q, [])
         | Inr m \<Rightarrow> msgrcv_deliver e c msgp msgsz flags m q))"

section \<open>msgctl\<close>

definition msg_info :: MsgInfo where
  "msg_info = \<lparr> msgpool = 0, msgmap = 0, msgmax = int MSGMAX, msgmnb = int MSGMNB,
                msgmni = int MSGMNI, msgssz = 0, msgtql = 0, msgseg = 0 \<rparr>"

definition msg_info_ds :: "caller \<Rightarrow> msg_state \<Rightarrow> msqid_ds" where
  "msg_info_ds c s =
     \<lparr> msg_perm = \<lparr> key = 0, uid = current_uid c, gid = current_gid c, cuid = current_uid c,
                   cgid = current_gid c, mode = 0x180, seq = 0, pad = 0, unused0 = 0, unused1 = 0 \<rparr>,
       msg_stime = 0, msg_rtime = 0, msg_ctime = 0,
       msg_cbytes = manager_total_bytes s, msg_qnum = of_nat (queue_count (MSG_MANAGER s)),
       msg_qbytes = of_nat MSGMNB, msg_lspid = 0, msg_lrpid = 0 \<rparr>"

definition user_copy :: "msg_env \<Rightarrow> user_write \<Rightarrow> int \<Rightarrow> int ax_result \<times> user_write list" where
  "user_copy e w r = (case vm_write e w of Inl err \<Rightarrow> (Inl err, []) | Inr _ \<Rightarrow> (Inr r, [w]))"

text \<open>
  The commands before the queue is looked up; \<open>None\<close> is falling through to the lookup.
\<close>

definition msgctl_global ::
    "msg_env \<Rightarrow> caller \<Rightarrow> int \<Rightarrow> int \<Rightarrow> u64 \<Rightarrow> msg_state \<Rightarrow> (int ax_result \<times> user_write list) option" where
  "msgctl_global e c msqid cmd buf s =
     (if cmd \<noteq> IPC_STAT \<and> cmd \<noteq> IPC_SET \<and> cmd \<noteq> IPC_RMID \<and> cmd \<noteq> IPC_INFO \<and> cmd \<noteq> MSG_INFO \<and> cmd \<noteq> MSG_STAT
      then Some (Inl EINVAL, [])
      else if cmd = IPC_INFO then Some (user_copy e (Write_info buf msg_info) 0)
      else if cmd = MSG_INFO then
        Some (user_copy e (Write_ds buf (msg_info_ds c s)) (int (queue_count (MSG_MANAGER s))))
      else if cmd = MSG_STAT then
        (let index = nat (msqid mod 2 ^ 64); active = iter_active_queues s in
         if index < length active then
           (let (actual_msqid, a) = active ! index; guard = arcs s ! a in
            if \<not> has_ipc_permission (msg_perm (ds guard)) (current_uid c) (current_gid c) False
            then Some (Inl EACCES, [])
            else Some (user_copy e (Write_ds buf (ds guard)) actual_msqid))
         else Some (Inl EINVAL, []))
      else None)"

definition msgctl_set :: "msg_env \<Rightarrow> bool \<Rightarrow> msqid_ds \<Rightarrow> MessageQueue \<Rightarrow> int ax_result \<times> MessageQueue" where
  "msgctl_set e is_privileged user_buf q =
     (let p = msg_perm (ds q);
          q = q\<lparr> ds := (ds q)\<lparr> msg_perm := p\<lparr> uid := uid (msg_perm user_buf), gid := gid (msg_perm user_buf),
                                             mode := mode (msg_perm user_buf) AND 0x1FF \<rparr>\<rparr>\<rparr>
      in if msg_qbytes user_buf \<noteq> msg_qbytes (ds q) then
           (if msg_qbytes user_buf > of_nat MSGMNB \<and> \<not> is_privileged then (Inl EPERM, q)
            else (Inr 0, q\<lparr> ds := (ds q)\<lparr> msg_qbytes := msg_qbytes user_buf,
                                           msg_ctime := monotonic_time_nanos e \<rparr>\<rparr>))
         else (Inr 0, q\<lparr> ds := (ds q)\<lparr> msg_ctime := monotonic_time_nanos e \<rparr>\<rparr>))"

text \<open>
  The section under the lock of the queue.  The last component says that the queue is empty
  and removed, so that the manager is to be locked and the queue taken out.
\<close>

definition msgctl_locked ::
    "msg_env \<Rightarrow> caller \<Rightarrow> int \<Rightarrow> u64 \<Rightarrow> MessageQueue \<Rightarrow>
     int ax_result \<times> MessageQueue \<times> user_write list \<times> bool" where
  "msgctl_locked e c cmd buf q =
     (let is_privileged = (current_uid c = 0);
          is_owner = (current_uid c = uid (msg_perm (ds q)));
          is_creator = (current_uid c = cuid (msg_perm (ds q)))
      in if mark_removed q then (Inl EIDRM, q, [], False)
         else if cmd = IPC_STAT then
           (if \<not> has_ipc_permission (msg_perm (ds q)) (current_uid c) (current_gid c) False
            then (Inl EACCES, q, [], False)
            else (case user_copy e (Write_ds buf (ds q)) 0 of (r, ws) \<Rightarrow> (r, q, ws, False)))
         else if \<not> is_privileged \<and> \<not> is_owner \<and> \<not> is_creator then (Inl EPERM, q, [], False)
         else if cmd = IPC_SET then
           (case vm_read_ds e buf of
              Inl err \<Rightarrow> (Inl err, q, [], False)
            | Inr user_buf \<Rightarrow> (case msgctl_set e is_privileged user_buf q of (r, q) \<Rightarrow> (r, q, [], False)))
         else if cmd = IPC_RMID then
           (let q = q\<lparr> mark_removed := True \<rparr>
            in if msg_qnum (ds q) = 0 then (Inr 0, q, [], True)
               else (Inr 0, q\<lparr> ds := (ds q)\<lparr> msg_ctime := monotonic_time_nanos e \<rparr>\<rparr>, [], False))
         else (Inl EINVAL, q, [], False))"

section \<open>The sections of a system call\<close>

datatype msg_call =
    Msgget int int
  | Msgsnd int u64 u64 int
  | Msgrcv int u64 u64 int int
  | Msgctl int int u64

text \<open>A call between two sections: it holds the \<open>Arc\<close> it looked up.\<close>

datatype pending =
    Snd caller u64 u64 int nat
  | Rcv caller u64 u64 int int nat
  | Ctl caller int int u64 nat
  | Rmv int

datatype outcome = Ret "int ax_result" | Await pending

definition lookup :: "msg_state \<Rightarrow> int \<Rightarrow> (nat \<Rightarrow> pending) \<Rightarrow> outcome" where
  "lookup s msqid k =
     (case get_queue_by_msqid msqid (MSG_MANAGER s) of None \<Rightarrow> Ret (Inl EINVAL) | Some a \<Rightarrow> Await (k a))"

definition msgsnd_start :: "caller \<Rightarrow> int \<Rightarrow> u64 \<Rightarrow> u64 \<Rightarrow> int \<Rightarrow> msg_state \<Rightarrow> outcome" where
  "msgsnd_start c msqid msgp msgsz msgflg s =
     (if unat msgsz > MSGMAX then Ret (Inl EINVAL) else lookup s msqid (Snd c msgp msgsz msgflg))"

definition msgrcv_start :: "caller \<Rightarrow> int \<Rightarrow> u64 \<Rightarrow> u64 \<Rightarrow> int \<Rightarrow> int \<Rightarrow> msg_state \<Rightarrow> outcome" where
  "msgrcv_start c msqid msgp msgsz msgtyp msgflg s =
     (let flags = MsgRcvFlags_from_bits_truncate msgflg in
      if flags_contain flags MSG_COPY \<and> (\<not> flags_contain flags IPC_NOWAIT \<or> flags_contain flags MSG_EXCEPT)
      then Ret (Inl EINVAL)
      else lookup s msqid (Rcv c msgp msgsz msgtyp msgflg))"

definition msgctl_start ::
    "msg_env \<Rightarrow> caller \<Rightarrow> int \<Rightarrow> int \<Rightarrow> u64 \<Rightarrow> msg_state \<Rightarrow> outcome \<times> user_write list" where
  "msgctl_start e c msqid cmd buf s =
     (case msgctl_global e c msqid cmd buf s of
        Some (r, ws) \<Rightarrow> (Ret r, ws)
      | None \<Rightarrow> (lookup s msqid (Ctl c msqid cmd buf), []))"

fun start :: "msg_env \<Rightarrow> caller \<Rightarrow> msg_call \<Rightarrow> msg_state \<Rightarrow> outcome \<times> msg_state \<times> user_write list" where
  "start e c (Msgget k msgflg) s = (case sys_msgget e c k msgflg s of (r, s) \<Rightarrow> (Ret r, s, []))"
| "start e c (Msgsnd msqid msgp msgsz msgflg) s = (msgsnd_start c msqid msgp msgsz msgflg s, s, [])"
| "start e c (Msgrcv msqid msgp msgsz msgtyp msgflg) s = (msgrcv_start c msqid msgp msgsz msgtyp msgflg s, s, [])"
| "start e c (Msgctl msqid cmd buf) s = (case msgctl_start e c msqid cmd buf s of (out, ws) \<Rightarrow> (out, s, ws))"

declare msgsnd_start_def [simp] msgrcv_start_def [simp] msgctl_start_def [simp]

fun resume :: "msg_env \<Rightarrow> pending \<Rightarrow> msg_state \<Rightarrow> outcome \<times> msg_state \<times> user_write list" where
  "resume e (Snd c msgp msgsz msgflg a) s =
     (case msgsnd_locked e c msgp msgsz msgflg (arcs s ! a) of (r, q) \<Rightarrow>
        (Ret r, s\<lparr> arcs := (arcs s)[a := q] \<rparr>, []))"
| "resume e (Rcv c msgp msgsz msgtyp msgflg a) s =
     (case msgrcv_locked e c msgp msgsz msgtyp msgflg (arcs s ! a) of (r, q, ws) \<Rightarrow>
        (Ret r, s\<lparr> arcs := (arcs s)[a := q] \<rparr>, ws))"
| "resume e (Ctl c msqid cmd buf a) s =
     (case msgctl_locked e c cmd buf (arcs s ! a) of (r, q, ws, rm) \<Rightarrow>
        (if rm then Await (Rmv msqid) else Ret r, s\<lparr> arcs := (arcs s)[a := q] \<rparr>, ws))"
| "resume e (Rmv msqid) s =
     (Ret (Inr 0), s\<lparr> MSG_MANAGER := remove_msqid msqid (MSG_MANAGER s) \<rparr>, [])"

text \<open>The whole call, when no other call comes between its sections.\<close>

definition continue ::
    "msg_env \<Rightarrow> outcome \<times> msg_state \<times> user_write list \<Rightarrow> outcome \<times> msg_state \<times> user_write list" where
  "continue e r =
     (case r of
        (Ret x, s, ws) \<Rightarrow> (Ret x, s, ws)
      | (Await k, s, ws) \<Rightarrow> (case resume e k s of (out, s', ws') \<Rightarrow> (out, s', ws @ ws')))"

definition sys_msgsnd where
  "sys_msgsnd e c msqid msgp msgsz msgflg s =
     (case continue e (start e c (Msgsnd msqid msgp msgsz msgflg) s) of (out, s, _) \<Rightarrow> (out, s))"

definition sys_msgrcv where
  "sys_msgrcv e c msqid msgp msgsz msgtyp msgflg s =
     continue e (start e c (Msgrcv msqid msgp msgsz msgtyp msgflg) s)"

definition sys_msgctl where
  "sys_msgctl e c msqid cmd buf s = continue e (continue e (start e c (Msgctl msqid cmd buf) s))"

section \<open>Interleaved calls\<close>

text \<open>
  Any number of threads, each between calls or between two sections of one.  The log keeps
  every section that ran under a queue's lock: what ran, what it saw, its outcome and what
  it wrote to user memory.  The shared memory calls take identifiers from the same counter.
\<close>

type_synonym msg_log = "(pending \<times> msg_env \<times> outcome \<times> user_write list) list"

record msg_sys =
  shared :: msg_state
  threads :: "nat \<Rightarrow> pending option"
  log :: msg_log

definition msg_boot :: msg_sys where
  "msg_boot = \<lparr> shared = \<lparr> IPC_ID = 0, MSG_MANAGER = MsgManager_new, arcs = [] \<rparr>,
                threads = Map.empty, log = [] \<rparr>"

definition rest_of :: "outcome \<Rightarrow> pending option" where
  "rest_of out = (case out of Ret _ \<Rightarrow> None | Await k \<Rightarrow> Some k)"

inductive msg_step :: "msg_sys \<Rightarrow> msg_sys \<Rightarrow> bool" where
  call: "threads s tid = None \<Longrightarrow> start e c call (shared s) = (out, s', ws) \<Longrightarrow>
     msg_step s (s\<lparr> shared := s', threads := (threads s)(tid := rest_of out) \<rparr>)"
| resume: "threads s tid = Some k \<Longrightarrow> resume e k (shared s) = (out, s', ws) \<Longrightarrow>
     msg_step s (s\<lparr> shared := s', threads := (threads s)(tid := rest_of out),
                    log := log s @ [(k, e, out, ws)] \<rparr>)"
| other_id: "msg_step s (s\<lparr> shared := (shared s)\<lparr> IPC_ID := snd (next_ipc_id (IPC_ID (shared s))) \<rparr>\<rparr>)"

section \<open>What the sections do\<close>

text \<open>The part of a queue the statistics and the permissions are not.\<close>

definition same_messages :: "MessageQueue \<Rightarrow> MessageQueue \<Rightarrow> bool" where
  "same_messages q q' \<longleftrightarrow>
     messages q' = messages q \<and> total_bytes q' = total_bytes q
     \<and> msg_cbytes (ds q') = msg_cbytes (ds q) \<and> msg_qnum (ds q') = msg_qnum (ds q)"

lemma same_messages_refl [simp]: "same_messages q q"
  by (simp add: same_messages_def)

lemma same_messages_invar: "same_messages q q' \<Longrightarrow> mq_invar q' = mq_invar q"
  by (simp add: same_messages_def mq_invar_def queue_bytes_def all_messages_def)

lemma same_messages_waiting: "same_messages q q' \<Longrightarrow> waiting q' = waiting q"
  by (simp add: same_messages_def waiting_def fun_eq_iff)

lemma same_messages_bytes: "same_messages q q' \<Longrightarrow> queue_bytes q' = queue_bytes q"
  by (simp add: same_messages_def queue_bytes_def all_messages_def)

lemma msgsnd_locked_cases:
  assumes "msgsnd_locked e c msgp msgsz msgflg q = (r, q')"
  obtains (error) err where "r = Inl err" "q' = q"
  | (sent) t d q1 where "r = Inr 0" "vm_read_mtype e msgp = Inr t" "0 < t"
    "vm_load e (mtext_ptr msgp) (unat msgsz) = Inr d"
    "has_ipc_permission (msg_perm (ds q)) (current_uid c) (current_gid c) True"
    "total_bytes q + of_nat (length d) \<le> msg_qbytes (ds q)" "msg_qnum (ds q) + 1 \<le> msg_qbytes (ds q)"
    "enqueue_message t d q = (Inr (), q1)"
    "q' = q1\<lparr> ds := (ds q1)\<lparr> msg_lspid := current_pid c, msg_stime := monotonic_time_nanos e \<rparr>\<rparr>"
proof (cases "\<exists>t d. r = Inr 0 \<and> vm_read_mtype e msgp = Inr t \<and> 0 < t \<and>
    vm_load e (mtext_ptr msgp) (unat msgsz) = Inr d \<and>
    has_ipc_permission (msg_perm (ds q)) (current_uid c) (current_gid c) True \<and>
    total_bytes q + of_nat (length d) \<le> msg_qbytes (ds q) \<and> msg_qnum (ds q) + 1 \<le> msg_qbytes (ds q)")
  case True
  then obtain t d where s: "r = Inr 0" "vm_read_mtype e msgp = Inr t" "0 < t"
    "vm_load e (mtext_ptr msgp) (unat msgsz) = Inr d"
    "has_ipc_permission (msg_perm (ds q)) (current_uid c) (current_gid c) True"
    "total_bytes q + of_nat (length d) \<le> msg_qbytes (ds q)" "msg_qnum (ds q) + 1 \<le> msg_qbytes (ds q)"
    by blast
  obtain x q1 where enq: "enqueue_message t d q = (x, q1)" by fastforce
  from enq have x: "x = Inr ()"
    by (cases rule: enqueue_message_cases) (use s(6) in \<open>simp_all add: not_less [symmetric]\<close>)
  have "q' = q1\<lparr> ds := (ds q1)\<lparr> msg_lspid := current_pid c, msg_stime := monotonic_time_nanos e \<rparr>\<rparr>"
    using assms s enq by (simp add: msgsnd_locked_def Let_def not_less [symmetric] x)
  with s enq x show ?thesis by (intro sent) simp_all
next
  case False
  have "(\<exists>err. r = Inl err) \<and> q' = q"
    using assms False
    by (cases "vm_read_mtype e msgp"; cases "vm_load e (mtext_ptr msgp) (unat msgsz)")
      (auto simp: msgsnd_locked_def Let_def enqueue_message_def not_less split: if_splits, metis+)
  with error show ?thesis by blast
qed

text \<open>The types a receive asks for.\<close>

definition rcv_wants :: "int \<Rightarrow> int \<Rightarrow> int \<Rightarrow> bool" where
  "rcv_wants flags msgtyp t =
     (if msgtyp = 0 then True
      else if 0 < msgtyp then (t = msgtyp) \<noteq> flags_contain flags MSG_EXCEPT
      else t \<le> i64_abs msgtyp)"

lemma matched_message_selects:
  assumes "mq_invar q"
  shows "selects (rcv_wants flags msgtyp) (waiting q) (matched_message flags msgtyp q)"
  using find_first_message_selects [OF assms] find_message_by_type_selects [of msgtyp q]
    find_message_not_equal_selects [OF assms, of msgtyp]
    find_message_less_equal_selects [OF assms, of "i64_abs msgtyp"]
  by (simp add: matched_message_def rcv_wants_def [abs_def])

lemma msgrcv_match_copy:
  "flags_contain flags MSG_COPY \<Longrightarrow> msgrcv_match flags msgtyp q =
     (let i = nat (msgtyp mod 2 ^ 64) in
      if i < length (all_messages q) then Inr (mtype (all_messages q ! i), data (all_messages q ! i), i, False)
      else Inl ENOMSG)"
  by (simp add: msgrcv_match_def Let_def get_message_by_index_eq get_total_message_count_eq)

lemma msgrcv_match_type:
  "\<not> flags_contain flags MSG_COPY \<Longrightarrow> msgrcv_match flags msgtyp q =
     (case matched_message flags msgtyp q of None \<Rightarrow> Inl ENOMSG | Some (t, d) \<Rightarrow> Inr (t, d, 0, True))"
  by (simp add: msgrcv_match_def cong: option.case_cong)

lemma msgrcv_deliver_Inl:
  assumes "msgrcv_deliver e c msgp msgsz flags m q = (Inl err, q', ws)"
  shows "q' = q"
proof -
  have "q1 = q" if "remove_message_by_type_and_index t i q = (Inl err, q1)" for t i err q1
    using that by (cases rule: remove_message_cases) simp_all
  with assms show ?thesis
    by (auto simp: msgrcv_deliver_def Let_def split: if_splits sum.splits prod.splits)
qed

lemma msgrcv_deliver_Inr:
  assumes "msgrcv_deliver e c msgp msgsz flags (t, d, i, b) q = (Inr n, q', ws)"
  shows "(length d \<le> unat msgsz \<or> flags_contain flags MSG_NOERROR) \<and> n = int (min (length d) (unat msgsz)) \<and>
    ws = [Write_mtype msgp t, Write_bytes (mtext_ptr msgp) (take (unat msgsz) d)] \<and>
    (if b then \<exists>m q1. remove_message_by_type_and_index t i q = (Inr m, q1) \<and> q' = msgrcv_finish e c q1
     else q' = msgrcv_finish e c q)"
proof -
  have "take (min (length d) (unat msgsz)) d = take (unat msgsz) d" by (simp add: min_def)
  with assms show ?thesis
    by (auto simp: msgrcv_deliver_def Let_def split: if_splits sum.splits prod.splits)
qed

lemma msgrcv_locked_error:
  assumes "msgrcv_locked e c msgp msgsz msgtyp msgflg q = (Inl err, q', ws)"
  shows "q' = q"
  using assms by (auto simp: msgrcv_locked_def Let_def split: if_splits sum.splits dest: msgrcv_deliver_Inl)

lemma msgrcv_locked_cases:
  assumes inv: "mq_invar q" and rcv: "msgrcv_locked e c msgp msgsz msgtyp msgflg q = (r, q', ws)"
  defines "flags \<equiv> MsgRcvFlags_from_bits_truncate msgflg"
  obtains (error) err where "r = Inl err" "q' = q"
  | (copied) i where "flags_contain flags MSG_COPY" "i = nat (msgtyp mod 2 ^ 64)" "i < length (all_messages q)"
    "r = Inr (int (min (length (data (all_messages q ! i))) (unat msgsz)))" "q' = msgrcv_finish e c q"
    "\<not> mark_removed q"
    "ws = [Write_mtype msgp (mtype (all_messages q ! i)),
           Write_bytes (mtext_ptr msgp) (take (unat msgsz) (data (all_messages q ! i)))]"
  | (received) t d rest where "\<not> flags_contain flags MSG_COPY" "rcv_wants flags msgtyp t" "waiting q t = d # rest"
    "\<And>t'. rcv_wants flags msgtyp t' \<Longrightarrow> waiting q t' \<noteq> [] \<Longrightarrow> t \<le> t'"
    "length d \<le> unat msgsz \<or> flags_contain flags MSG_NOERROR"
    "r = Inr (int (min (length d) (unat msgsz)))" "mq_invar q'" "\<not> mark_removed q" "\<not> mark_removed q'"
    "waiting q' = (waiting q)(t := rest)"
    "ws = [Write_mtype msgp t, Write_bytes (mtext_ptr msgp) (take (unat msgsz) d)]"
proof (cases r)
  case (Inl err)
  from rcv have "q' = q" unfolding Inl by (rule msgrcv_locked_error)
  with Inl show ?thesis by (rule error)
next
  case (Inr n)
  obtain t d i b where m: "msgrcv_match flags msgtyp q = Inr (t, d, i, b)"
    and w: "\<not> mark_removed q" "length d \<le> unat msgsz \<or> flags_contain flags MSG_NOERROR"
      "n = int (min (length d) (unat msgsz))"
      "ws = [Write_mtype msgp t, Write_bytes (mtext_ptr msgp) (take (unat msgsz) d)]"
    and rm: "if b then \<exists>m q1. remove_message_by_type_and_index t i q = (Inr m, q1) \<and> q' = msgrcv_finish e c q1
             else q' = msgrcv_finish e c q"
    using rcv Inr unfolding flags_def
    by (auto simp: msgrcv_locked_def Let_def split: if_splits sum.splits dest!: msgrcv_deliver_Inr)
  show ?thesis
  proof (cases "flags_contain flags MSG_COPY")
    case True
    with m have i: "i = nat (msgtyp mod 2 ^ 64)" "i < length (all_messages q)" "\<not> b"
      "t = mtype (all_messages q ! i)" "d = data (all_messages q ! i)"
      by (auto simp: msgrcv_match_copy Let_def split: if_splits)
    show ?thesis
      by (rule copied [OF True i(1,2)]) (use i(3) w(1,3,4) rm in \<open>simp_all add: Inr i(4,5)\<close>)
  next
    case False
    with m have mm: "matched_message flags msgtyp q = Some (t, d)" "i = 0" b
      by (auto simp: msgrcv_match_type split: option.splits)
    note sel = selectsD [OF matched_message_selects [OF inv, of flags msgtyp, unfolded mm]]
    from rm mm(3) obtain m q1 where rm: "remove_message_by_type_and_index t 0 q = (Inr m, q1)"
      and q': "q' = msgrcv_finish e c q1" by (auto simp: mm(2))
    have same: "same_messages q1 q'" "mark_removed q' = mark_removed q1"
      by (simp_all add: q' same_messages_def msgrcv_finish_def)
    have r1: "mark_removed q1 = mark_removed q" using rm by (cases rule: remove_message_cases) simp_all
    have "waiting q1 = (waiting q)(t := vec_remove 0 (waiting q t))"
      by (rule remove_message_waiting(4) [OF inv rm])
    then have wt: "waiting q' = (waiting q)(t := tl (waiting q t))"
      by (simp add: same_messages_waiting [OF same(1)] vec_remove_def drop_Suc)
    show ?thesis
      by (rule received [OF False sel w(2)])
        (use w(1,3,4) wt same(2) r1 remove_message_invar [OF inv rm] same_messages_invar [OF same(1)]
          in \<open>simp_all add: Inr\<close>)
  qed
qed

lemma msgctl_set_same:
  "msgctl_set e p u q = (r, q') \<Longrightarrow> same_messages q q' \<and> mark_removed q' = mark_removed q"
  by (auto simp: msgctl_set_def Let_def same_messages_def split: if_splits)

lemma msgctl_locked_cases:
  assumes ctl: "msgctl_locked e c cmd buf q = (r, q', ws, rm)"
  obtains (error) err where "r = Inl err" "q' = q" "\<not> rm"
  | (stat) "cmd = IPC_STAT" "q' = q" "\<not> rm"
  | (set) user_buf where "cmd = IPC_SET" "msgctl_set e (current_uid c = 0) user_buf q = (r, q')" "\<not> rm" 
      "vm_read_ds e buf = Inr user_buf" "\<not> mark_removed q"
  | (empty) "cmd = IPC_RMID" "r = Inr 0" "q' = q\<lparr> mark_removed := True \<rparr>" "rm" "msg_qnum (ds q) = 0"
      "\<not> mark_removed q"
  | (marked) "cmd = IPC_RMID" "r = Inr 0" "\<not> rm" "msg_qnum (ds q) \<noteq> 0" "\<not> mark_removed q"
      "q' = q\<lparr> mark_removed := True, ds := (ds q)\<lparr> msg_ctime := monotonic_time_nanos e \<rparr>\<rparr>"
proof -
  consider "mark_removed q \<or> (cmd \<noteq> IPC_STAT \<and> \<not> (current_uid c = 0 \<or> current_uid c = uid (msg_perm (ds q)) \<or> current_uid c = cuid (msg_perm (ds q))))"
    | "\<not> mark_removed q" "cmd = IPC_STAT"
    | "\<not> mark_removed q" "cmd \<noteq> IPC_STAT" "current_uid c = 0 \<or> current_uid c = uid (msg_perm (ds q)) \<or> current_uid c = cuid (msg_perm (ds q))"
    by blast
  then show ?thesis
  proof cases
    case 1
    with ctl have "(r = Inl EIDRM \<or> r = Inl EPERM) \<and> q' = q \<and> \<not> rm"
      by (cases "mark_removed q") (auto simp: msgctl_locked_def Let_def)
    with error show ?thesis by blast
  next
    case 2
    with ctl have "q' = q \<and> \<not> rm"
      by (auto simp: msgctl_locked_def Let_def split: if_splits prod.splits)
    with stat 2 show ?thesis by blast
  next
    case 3
    then have u: "\<not> (current_uid c \<noteq> 0 \<and> current_uid c \<noteq> uid (msg_perm (ds q)) \<and> current_uid c \<noteq> cuid (msg_perm (ds q)))" by blast
    show ?thesis
    proof (cases "cmd = IPC_SET")
      case True
      then have s: "cmd \<noteq> IPC_RMID" by (simp add: ipc_consts)
      show ?thesis
      proof (cases "vm_read_ds e buf")
        case (Inl err)
        with ctl 3 u True have "r = Inl err \<and> q' = q \<and> \<not> rm"
          by (simp add: msgctl_locked_def Let_def)
        with error show ?thesis by blast
      next
        case (Inr user_buf)
        with ctl 3 u True have "msgctl_set e (current_uid c = 0) user_buf q = (r, q') \<and> \<not> rm"
          by (simp add: msgctl_locked_def Let_def split: prod.splits)
        with set True Inr 3 show ?thesis by blast
      qed
    next
      case False
      note n = False
      show ?thesis
      proof (cases "cmd = IPC_RMID")
        case True
        with ctl 3 u n show ?thesis
          by (cases "msg_qnum (ds q) = 0") (auto simp: msgctl_locked_def Let_def intro: empty marked)
      next
        case False
        with ctl 3 u n have "r = Inl EINVAL \<and> q' = q \<and> \<not> rm"
          by (simp add: msgctl_locked_def Let_def)
        with error show ?thesis by blast
      qed
    qed
  qed
qed

lemma msgctl_locked_same:
  assumes "msgctl_locked e c cmd buf q = (r, q', ws, rm)"
  shows "same_messages q q' \<and> (mark_removed q \<longrightarrow> mark_removed q')"
  using assms
proof (cases rule: msgctl_locked_cases)
  case set
  then show ?thesis using msgctl_set_same by blast
qed (simp_all add: same_messages_def)

end
