(* ===== verification/Msg_Run.thy ===== *)
theory Msg_Run
  imports Msg_Sys
begin

text \<open>
  The message queues under any interleaving of the system calls: the invariant of the
  manager and of every queue, and the conservation of messages.  The properties of the
  calls are stated here.
\<close>

section \<open>Invariant of the shared state\<close>

definition manager_invar :: "msg_state \<Rightarrow> bool" where
  "manager_invar s \<longleftrightarrow>
     bt_invar (key_msqid (MSG_MANAGER s)) \<and> bt_invar (msqid_queues (MSG_MANAGER s))
     \<and> snd ` set (key_msqid (MSG_MANAGER s)) \<subseteq> fst ` set (msqid_queues (MSG_MANAGER s))
     \<and> distinct (map snd (msqid_queues (MSG_MANAGER s)))
     \<and> snd ` set (msqid_queues (MSG_MANAGER s)) \<subseteq> {..<length (arcs s)}
     \<and> queue_count (MSG_MANAGER s) \<le> MSGMNI"

definition msg_invar :: "msg_state \<Rightarrow> bool" where
  "msg_invar s \<longleftrightarrow> manager_invar s \<and> (\<forall>q \<in> set (arcs s). mq_invar q)"

lemma msg_invarI: "manager_invar s \<Longrightarrow> (\<And>q. q \<in> set (arcs s) \<Longrightarrow> mq_invar q) \<Longrightarrow> msg_invar s"
  by (simp add: msg_invar_def)

lemma msg_invarD: "msg_invar s \<Longrightarrow> manager_invar s" "msg_invar s \<Longrightarrow> a < length (arcs s) \<Longrightarrow> mq_invar (arcs s ! a)"
  by (simp_all add: msg_invar_def)

lemma length_bt_insert:
  "length (bt_insert k v m) \<le> Suc (length m)"
  by (induction k v m rule: bt_insert.induct) auto

lemma snd_set_bt_insert: "snd ` set (bt_insert k v m) \<subseteq> insert v (snd ` set m)"
  by (induction k v m rule: bt_insert.induct) auto

lemma distinct_snd_bt_insert:
  "distinct (map snd m) \<Longrightarrow> v \<notin> snd ` set m \<Longrightarrow> distinct (map snd (bt_insert k v m))"
proof (induction k v m rule: bt_insert.induct)
  case (2 k v a b m)
  then show ?case using snd_set_bt_insert [of k v m] by auto
qed simp

lemma manager_invar_insert:
  assumes inv: "manager_invar s" and room: "queue_count (MSG_MANAGER s) < MSGMNI"
  shows "manager_invar (s\<lparr> IPC_ID := n, arcs := arcs s @ [q],
     MSG_MANAGER := insert_msqid_queues msqid (length (arcs s)) (MSG_MANAGER s) \<rparr>)"
    and "manager_invar (s\<lparr> IPC_ID := n, arcs := arcs s @ [q],
     MSG_MANAGER := insert_msqid_queues msqid (length (arcs s)) (insert_key_msqid k msqid (MSG_MANAGER s)) \<rparr>)"
proof -
  let ?m = "MSG_MANAGER s"
  have fresh: "length (arcs s) \<notin> snd ` set (msqid_queues ?m)"
    using inv by (auto simp: manager_invar_def)
  have bounds: "snd ` set (bt_insert msqid (length (arcs s)) (msqid_queues ?m)) \<subseteq> {..<Suc (length (arcs s))}"
    using snd_set_bt_insert [of msqid "length (arcs s)" "msqid_queues ?m"] inv
    by (force simp: manager_invar_def)
  have count: "length (bt_insert msqid (length (arcs s)) (msqid_queues ?m)) \<le> MSGMNI"
    using length_bt_insert [of msqid "length (arcs s)" "msqid_queues ?m"] room
    by (simp add: queue_count_def)
  have keys: "snd ` set (bt_insert k msqid (key_msqid ?m)) \<subseteq> insert msqid (fst ` set (msqid_queues ?m))"
    using snd_set_bt_insert [of k msqid "key_msqid ?m"] inv by (auto simp: manager_invar_def)
  show "manager_invar (s\<lparr> IPC_ID := n, arcs := arcs s @ [q],
     MSG_MANAGER := insert_msqid_queues msqid (length (arcs s)) ?m \<rparr>)"
    "manager_invar (s\<lparr> IPC_ID := n, arcs := arcs s @ [q],
     MSG_MANAGER := insert_msqid_queues msqid (length (arcs s)) (insert_key_msqid k msqid ?m) \<rparr>)"
    using inv fresh bounds count keys
    by (auto simp: manager_invar_def insert_msqid_queues_def insert_key_msqid_def queue_count_def
        bt_invar_insert fst_set_bt_insert distinct_snd_bt_insert)
qed

lemma manager_invar_remove:
  assumes "manager_invar s"
  shows "manager_invar (s\<lparr> MSG_MANAGER := remove_msqid msqid (MSG_MANAGER s) \<rparr>)"
  using assms
  by (auto simp: manager_invar_def remove_msqid_def bt_invar_retain bt_remove_retain set_bt_retain
      queue_count_def distinct_snd_bt_retain intro!: order_trans [OF length_bt_retain]) force

lemma manager_invar_arcs: "manager_invar (s\<lparr> arcs := (arcs s)[a := q] \<rparr>) = manager_invar s"
  by (simp add: manager_invar_def)

lemma msg_invar_update: "msg_invar s \<Longrightarrow> mq_invar q \<Longrightarrow> msg_invar (s\<lparr> arcs := (arcs s)[a := q] \<rparr>)"
  using set_update_subset_insert [of "arcs s" a q] by (auto simp: msg_invar_def manager_invar_arcs)

lemma sys_msgget_cases:
  assumes "sys_msgget e c k msgflg s = (r, s')"
  obtains (error) err where "r = Inl err" "s' = s"
  | (found) msqid a where "r = Inr msqid" "s' = s" "k \<noteq> IPC_PRIVATE"
      "get_msqid_by_key k (MSG_MANAGER s) = Some msqid" "get_queue_by_msqid msqid (MSG_MANAGER s) = Some a"
      "has_ipc_permission (msg_perm (ds (arcs s ! a))) (current_uid c) (current_gid c) False"
      "\<not> mark_removed (arcs s ! a)" "msgflg AND IPC_EXCL = 0 \<or> msgflg AND IPC_CREAT = 0"
  | (created) m where "r = Inr (IPC_ID s)" "queue_count (MSG_MANAGER s) < MSGMNI"
      "m = (if k = IPC_PRIVATE then MSG_MANAGER s else insert_key_msqid k (IPC_ID s) (MSG_MANAGER s))"
      "k \<noteq> IPC_PRIVATE \<Longrightarrow> get_msqid_by_key k (MSG_MANAGER s) = None \<and> msgflg AND IPC_CREAT \<noteq> 0"
      "s' = s\<lparr> IPC_ID := snd (next_ipc_id (IPC_ID s)), arcs := arcs s @ [new_queue e c k msgflg],
               MSG_MANAGER := insert_msqid_queues (IPC_ID s) (length (arcs s)) m \<rparr>"
  using assms
  by (auto simp: sys_msgget_def Let_def next_ipc_id_def not_le split: if_splits option.splits)

lemma sys_msgget_invar:
  assumes inv: "msg_invar s" and get: "sys_msgget e c k msgflg s = (r, s')"
  shows "msg_invar s'"
  using get
proof (cases rule: sys_msgget_cases)
  case (created m)
  then have "manager_invar s'"
    using manager_invar_insert [OF msg_invarD(1) [OF inv] created(2)] by (simp split: if_splits)
  then show ?thesis using inv
    by (auto simp: msg_invar_def created(5) new_queue_def mq_invar_new)
qed (use inv in simp_all)

section \<open>Conservation of messages\<close>

fun sent_by :: "nat \<Rightarrow> int \<Rightarrow> pending \<times> msg_env \<times> outcome \<times> user_write list \<Rightarrow> u8 list list" where
  "sent_by a t (Snd c msgp msgsz msgflg a', e, Ret (Inr _), _) =
     (if a' = a \<and> vm_read_mtype e msgp = Inr t
      then (case vm_load e (mtext_ptr msgp) (unat msgsz) of Inr d \<Rightarrow> [d] | Inl _ \<Rightarrow> []) else [])"
| "sent_by a t _ = []"

fun received_by :: "nat \<Rightarrow> int \<Rightarrow> pending \<times> msg_env \<times> outcome \<times> user_write list \<Rightarrow> (nat \<times> u8 list) list" where
  "received_by a t (Rcv c msgp msgsz msgtyp msgflg a', e, Ret (Inr _), [Write_mtype _ t', Write_bytes _ b]) =
     (if a' = a \<and> t' = t \<and> \<not> flags_contain (MsgRcvFlags_from_bits_truncate msgflg) MSG_COPY
      then [(unat msgsz, b)] else [])"
| "received_by a t _ = []"

text \<open>
  The messages of type \<open>t\<close> a queue accepted, and what was copied out for the ones taken, with
  the room the receiver had.
\<close>

definition sent :: "nat \<Rightarrow> int \<Rightarrow> msg_log \<Rightarrow> u8 list list" where
  "sent a t l = concat (map (sent_by a t) l)"

definition received :: "nat \<Rightarrow> int \<Rightarrow> msg_log \<Rightarrow> (nat \<times> u8 list) list" where
  "received a t l = concat (map (received_by a t) l)"

definition copied_out :: "u8 list \<Rightarrow> nat \<times> u8 list \<Rightarrow> bool" where
  "copied_out d r = (snd r = take (fst r) d)"

fun arc_of :: "pending \<Rightarrow> nat option" where
  "arc_of (Snd c msgp msgsz msgflg a) = Some a"
| "arc_of (Rcv c msgp msgsz msgtyp msgflg a) = Some a"
| "arc_of (Ctl c msqid cmd buf a) = Some a"
| "arc_of (Rmv msqid) = None"

definition valid_pending :: "msg_state \<Rightarrow> pending \<Rightarrow> bool" where
  "valid_pending s k = (case arc_of k of None \<Rightarrow> True | Some a \<Rightarrow> a < length (arcs s))"

lemma lookup_valid:
  assumes "manager_invar s" "lookup s msqid k = Await p" "\<And>a. arc_of (k a) = Some a"
  shows "valid_pending s p"
  using assms
  by (force simp: lookup_def valid_pending_def get_queue_by_msqid_def manager_invar_def bt_get_entries
      split: option.splits)

lemma start_cases:
  assumes "start e c call s = (out, s', ws)"
  obtains (get) k msgflg r where "call = Msgget k msgflg" "sys_msgget e c k msgflg s = (r, s')" "out = Ret r"
  | (ret) r where "out = Ret r" "s' = s"
  | (look) msqid k where "out = lookup s msqid k" "s' = s" "\<And>a. arc_of (k a) = Some a"
proof (cases call)
  case (Msgget k msgflg)
  with assms show ?thesis by (auto intro: get split: prod.splits)
next
  case (Msgsnd msqid msgp msgsz msgflg)
  with assms show ?thesis by (auto split: if_splits intro: ret look)
next
  case (Msgrcv msqid msgp msgsz msgtyp msgflg)
  with assms show ?thesis by (auto simp: Let_def split: if_splits intro: ret look)
next
  case (Msgctl msqid cmd buf)
  with assms show ?thesis by (auto split: option.splits intro: ret look)
qed

lemma start_invar:
  assumes inv: "msg_invar s" and st: "start e c call s = (out, s', ws)"
  shows "msg_invar s' \<and> (\<exists>qs. arcs s' = arcs s @ qs \<and> (\<forall>q \<in> set qs. \<forall>t. waiting q t = [])) \<and>
    (\<forall>k. out = Await k \<longrightarrow> valid_pending s' k)"
  using st
proof (cases rule: start_cases)
  case (get k msgflg r)
  from get(2) have "\<exists>qs. arcs s' = arcs s @ qs \<and> (\<forall>q \<in> set qs. \<forall>t. waiting q t = [])"
    by (cases rule: sys_msgget_cases) (auto simp: new_queue_def waiting_new)
  with get sys_msgget_invar [OF inv get(2)] show ?thesis by simp
next
  case (look msqid k)
  then show ?thesis using inv lookup_valid [OF msg_invarD(1) [OF inv]] by auto
qed (use inv in simp)

text \<open>
  One section: the messages waiting before it followed by the one it sent are the ones it
  took followed by those waiting after it.
\<close>

definition moves :: "u8 list list \<Rightarrow> u8 list list \<Rightarrow> u8 list list \<Rightarrow> (nat \<times> u8 list) list \<Rightarrow> bool" where
  "moves w snt w' rcv = (\<exists>taken. w @ snt = taken @ w' \<and> list_all2 copied_out taken rcv)"

lemma moves_same [simp]: "moves w [] w []"
  by (auto simp: moves_def)

lemma moves_trans: "moves w s1 w1 r1 \<Longrightarrow> moves w1 s2 w2 r2 \<Longrightarrow> moves w (s1 @ s2) w2 (r1 @ r2)"
  unfolding moves_def by (metis append.assoc list_all2_appendI)

lemma resume_moves:
  assumes inv: "msg_invar s" and valid: "valid_pending s k"
    and res: "resume e k s = (out, s', ws)"
  shows "msg_invar s' \<and> length (arcs s') = length (arcs s) \<and> (\<forall>k'. out = Await k' \<longrightarrow> valid_pending s' k') \<and>
    (\<forall>a < length (arcs s). \<forall>t. moves (waiting (arcs s ! a) t) (sent_by a t (k, e, out, ws))
       (waiting (arcs s' ! a) t) (received_by a t (k, e, out, ws)))"
proof (cases k)
  case (Snd c msgp msgsz msgflg b)
  with valid have b: "b < length (arcs s)" by (simp add: valid_pending_def)
  obtain r q where snd: "msgsnd_locked e c msgp msgsz msgflg (arcs s ! b) = (r, q)" by fastforce
  with res Snd have s': "s' = s\<lparr>arcs := (arcs s)[b := q]\<rparr>" "out = Ret r" by simp_all
  note q0 = msg_invarD(2) [OF inv b]
  from snd show ?thesis
  proof (cases rule: msgsnd_locked_cases)
    case (error err)
    then show ?thesis using inv by (simp add: s' Snd)
  next
    case (sent t d q1)
    have same: "same_messages q1 q" by (simp add: sent(9) same_messages_def)
    have w: "waiting q = (waiting (arcs s ! b))(t := waiting (arcs s ! b) t @ [d])"
      using enqueue_message_waiting [OF sent(8)] same_messages_waiting [OF same] by simp
    have "mq_invar q" using enqueue_message_invar [OF q0 sent(8)] same_messages_invar [OF same] by simp
    then show ?thesis
      using msg_invar_update [OF inv] b
      by (auto simp: s' Snd sent(1,2,4) w moves_def nth_list_update)
  qed
next
  case (Rcv c msgp msgsz msgtyp msgflg b)
  with valid have b: "b < length (arcs s)" by (simp add: valid_pending_def)
  obtain r q ws' where rcv: "msgrcv_locked e c msgp msgsz msgtyp msgflg (arcs s ! b) = (r, q, ws')"
    by (metis prod_cases3)
  with res Rcv have s': "s' = s\<lparr>arcs := (arcs s)[b := q]\<rparr>" "out = Ret r" "ws' = ws" by simp_all
  note q0 = msg_invarD(2) [OF inv b]
  from q0 rcv show ?thesis
  proof (cases rule: msgrcv_locked_cases)
    case (error err)
    then show ?thesis using inv by (simp add: s' Rcv)
  next
    case (copied i)
    have same: "same_messages (arcs s ! b) q" by (simp add: copied(5) same_messages_def msgrcv_finish_def)
    then show ?thesis
      using msg_invar_update [OF inv, of q b] same_messages_invar [OF same] q0 b copied(1,4,7)
      by (auto simp: s' Rcv same_messages_waiting [OF same] nth_list_update)
  next
    case (received t d rest)
    then show ?thesis
      using msg_invar_update [OF inv received(7), of b] b
      by (auto simp: s' Rcv nth_list_update moves_def copied_out_def)
  qed
next
  case (Ctl c msqid cmd buf b)
  with valid have b: "b < length (arcs s)" by (simp add: valid_pending_def)
  obtain r q ws' rm where ctl: "msgctl_locked e c cmd buf (arcs s ! b) = (r, q, ws', rm)"
    by (metis prod_cases4)
  with res Ctl have s': "s' = s\<lparr>arcs := (arcs s)[b := q]\<rparr>" "out = (if rm then Await (Rmv msqid) else Ret r)"
    by simp_all
  have same: "same_messages (arcs s ! b) q" using msgctl_locked_same [OF ctl] by simp
  then show ?thesis
    using msg_invar_update [OF inv, of q b] same_messages_invar [OF same] msg_invarD(2) [OF inv b] b
    by (auto simp: s' Ctl same_messages_waiting [OF same] nth_list_update valid_pending_def split: if_splits)
next
  case (Rmv msqid)
  then show ?thesis
    using res inv manager_invar_remove [of s msqid] by (auto simp: msg_invar_def)
qed

definition conserved :: "msg_sys \<Rightarrow> bool" where
  "conserved s \<longleftrightarrow>
     msg_invar (shared s) \<and> (\<forall>tid k. threads s tid = Some k \<longrightarrow> valid_pending (shared s) k)
     \<and> (\<forall>a < length (arcs (shared s)). \<forall>t.
          moves [] (sent a t (log s)) (waiting (arcs (shared s) ! a) t) (received a t (log s)))
     \<and> (\<forall>a \<ge> length (arcs (shared s)). \<forall>t. sent a t (log s) = [] \<and> received a t (log s) = [])"

lemma conserved_boot: "conserved msg_boot"
  by (simp add: conserved_def msg_boot_def msg_invar_def manager_invar_def MsgManager_new_def bt_empty_def
      queue_count_def sent_def received_def)

lemma valid_pending_mono:
  "valid_pending s k \<Longrightarrow> length (arcs s) \<le> length (arcs s') \<Longrightarrow> valid_pending s' k"
  by (auto simp: valid_pending_def split: option.splits)

lemma sent_by_arc: "sent_by a t (k, r) \<noteq> [] \<Longrightarrow> arc_of k = Some a"
  by (cases "(a, t, k, r)" rule: sent_by.cases) (auto split: if_splits)

lemma received_by_arc: "received_by a t (k, r) \<noteq> [] \<Longrightarrow> arc_of k = Some a"
  by (cases "(a, t, k, r)" rule: received_by.cases) (auto split: if_splits)

lemma sent_by_elsewhere:
  assumes "valid_pending s k" "length (arcs s) \<le> a"
  shows "sent_by a t (k, e, out, ws) = []" "received_by a t (k, e, out, ws) = []"
  using assms sent_by_arc received_by_arc by (fastforce simp: valid_pending_def)+

lemma conserved_step: "msg_step s s' \<Longrightarrow> conserved s \<Longrightarrow> conserved s'"
proof (induction rule: msg_step.induct)
  case (call s tid e c cl out s' ws)
  then have inv: "msg_invar (shared s)" by (simp add: conserved_def)
  obtain qs where st: "msg_invar s'" "arcs s' = arcs (shared s) @ qs" "\<forall>q \<in> set qs. \<forall>t. waiting q t = []"
    "\<And>k. out = Await k \<Longrightarrow> valid_pending s' k"
    using start_invar [OF inv call(2)] by auto
  have v: "valid_pending s' k" if "valid_pending (shared s) k" for k
    by (rule valid_pending_mono [OF that]) (simp add: st(2))
  show ?case
    using call(3) st v by (auto simp: conserved_def nth_append rest_of_def split: outcome.splits if_splits)
next
  case (resume s tid k e out s' ws)
  then have inv: "msg_invar (shared s)" and vk: "valid_pending (shared s) k" by (simp_all add: conserved_def)
  note r = resume_moves [OF inv vk resume(2)]
  have v: "valid_pending s' k" if "valid_pending (shared s) k" for k
    by (rule valid_pending_mono [OF that]) (simp add: r)
  have m: "moves [] (sent a t (log s) @ sent_by a t (k, e, out, ws)) (waiting (arcs s' ! a) t)
      (received a t (log s) @ received_by a t (k, e, out, ws))" if "a < length (arcs s')" for a t
    by (rule moves_trans [where ?w1.0 = "waiting (arcs (shared s) ! a) t"])
      (use resume(3) r that in \<open>auto simp: conserved_def\<close>)
  show ?case
    using resume(3) r m v sent_by_elsewhere [OF vk]
    by (auto simp: conserved_def sent_def received_def rest_of_def split: outcome.splits if_splits)
next
  case (other_id s)
  have "valid_pending (shared s\<lparr>IPC_ID := i\<rparr>) k = valid_pending (shared s) k" for i k
    by (simp add: valid_pending_def split: option.splits)
  with other_id show ?case by (simp add: conserved_def msg_invar_def manager_invar_def)
qed

lemma conserved_reachable: "msg_step\<^sup>*\<^sup>* msg_boot s \<Longrightarrow> conserved s"
  by (induction rule: rtranclp_induct) (auto intro: conserved_boot conserved_step)

section \<open>Removed queues\<close>







section \<open>Runs\<close>

text \<open>One step of a given thread, as a function.\<close>

definition do_call :: "nat \<Rightarrow> msg_env \<Rightarrow> caller \<Rightarrow> msg_call \<Rightarrow> msg_sys \<Rightarrow> msg_sys" where
  "do_call tid e c cl s =
     (case threads s tid of
        Some _ \<Rightarrow> s
      | None \<Rightarrow>
          (case start e c cl (shared s) of (out, s', ws) \<Rightarrow>
             s\<lparr> shared := s', threads := (threads s)(tid := rest_of out) \<rparr>))"

definition do_resume :: "nat \<Rightarrow> msg_env \<Rightarrow> msg_sys \<Rightarrow> msg_sys" where
  "do_resume tid e s =
     (case threads s tid of
        None \<Rightarrow> s
      | Some k \<Rightarrow>
          (case resume e k (shared s) of (out, s', ws) \<Rightarrow>
             s\<lparr> shared := s', threads := (threads s)(tid := rest_of out), log := log s @ [(k, e, out, ws)] \<rparr>))"

lemma do_call_steps: "msg_step\<^sup>*\<^sup>* s0 s \<Longrightarrow> msg_step\<^sup>*\<^sup>* s0 (do_call tid e c cl s)"
  by (auto simp: do_call_def split: option.splits prod.splits intro: rtranclp.rtrancl_into_rtrancl msg_step.call)

lemma do_resume_steps: "msg_step\<^sup>*\<^sup>* s0 s \<Longrightarrow> msg_step\<^sup>*\<^sup>* s0 (do_resume tid e s)"
  by (auto simp: do_resume_def split: option.splits prod.splits intro: rtranclp.rtrancl_into_rtrancl msg_step.resume)

lemmas run_steps = do_call_steps do_resume_steps rtranclp.rtrancl_refl

text \<open>A user process whose message buffer holds the given type and bytes.\<close>

definition user_msg :: "int \<Rightarrow> u8 list \<Rightarrow> msg_env" where
  "user_msg t d =
     \<lparr> vm_read_mtype = (\<lambda>_. Inr t), vm_load = (\<lambda>_ n. if n \<le> length d then Inr (take n d) else Inl BadAddress),
       vm_read_ds = (\<lambda>_. Inl BadAddress),
       vm_fault = (\<lambda>_. None), monotonic_time_nanos = 5 \<rparr>"

definition root :: caller where
  "root = \<lparr> current_uid = 0, current_gid = 0, current_pid = 7 \<rparr>"

text \<open>
  Two senders and a receiver on one queue; the second send overlaps the receive.
\<close>

definition run_prefix :: msg_sys where
  "run_prefix =
     do_call 2 (user_msg 3 []) root (Msgrcv 0 0x1000 1 0 0x1000)
       (do_call 1 (user_msg 3 [30, 31]) root (Msgsnd 0 0x1000 2 0)
         (do_resume 1 (user_msg 3 [10, 11])
           (do_call 1 (user_msg 3 [10, 11]) root (Msgsnd 0 0x1000 2 0)
             (do_call 0 (user_msg 0 []) root (Msgget 77 0x3B6) msg_boot))))"

definition run_two_senders :: msg_sys where
  "run_two_senders = do_resume 1 (user_msg 3 [30, 31]) (do_resume 2 (user_msg 3 []) run_prefix)"

lemma run_two_senders_reachable: "msg_step\<^sup>*\<^sup>* msg_boot run_two_senders"
  unfolding run_two_senders_def run_prefix_def by (intro run_steps)

lemma registered_arc: "manager_invar s \<Longrightarrow> bt_get (msqid_queues (MSG_MANAGER s)) i = Some a \<Longrightarrow> a < length (arcs s)"
  by (force simp: manager_invar_def bt_get_entries)

lemma key_registered:
  "manager_invar s \<Longrightarrow> bt_get (key_msqid (MSG_MANAGER s)) k = Some i \<Longrightarrow>
   \<exists>a. bt_get (msqid_queues (MSG_MANAGER s)) i = Some a"
  by (force simp: manager_invar_def bt_get_entries)

lemma registered_once:
  assumes "manager_invar s" "bt_get (msqid_queues (MSG_MANAGER s)) i = Some a"
    "bt_get (msqid_queues (MSG_MANAGER s)) j = Some a"
  shows "i = j"
proof -
  have "inj_on snd (set (msqid_queues (MSG_MANAGER s)))" "bt_invar (msqid_queues (MSG_MANAGER s))"
    using assms(1) by (simp_all add: manager_invar_def distinct_map)
  with assms(2,3) show ?thesis
    using inj_onD [of snd "set (msqid_queues (MSG_MANAGER s))" "(i, a)" "(j, a)"] by (simp add: bt_get_entries)
qed

lemmas msg_eval = do_call_def do_resume_def msg_boot_def MsgManager_new_def user_msg_def root_def
  sys_msgget_def Let_def queue_count_def MSGMNI_def MSGMNB_def MSGMAX_def ipc_consts next_ipc_id_def
  get_msqid_by_key_def get_queue_by_msqid_def insert_key_msqid_def insert_msqid_queues_def bt_empty_def bt_get_def
  new_queue_def MessageQueue_new_def msqid_ds_new_def lookup_def rest_of_def msgsnd_locked_def
  has_ipc_permission_def enqueue_message_def mtext_ptr_def msgrcv_locked_def msgrcv_match_def
  matched_message_def msgrcv_deliver_def msgrcv_finish_def vm_write_def MsgRcvFlags_from_bits_truncate_def
  flags_contain_def msg_flags find_first_message_def find_message_by_type_def
  remove_message_by_type_and_index_def vec_remove_def bt_remove_def

lemma run_two_senders_state:
  "length (arcs (shared run_two_senders)) = 1"
  "sent 0 3 (log run_two_senders) = [[10, 11], [30, 31]]"
  "received 0 3 (log run_two_senders) = [(1, [10])]"
  "get_queue_by_msqid 0 (MSG_MANAGER (shared run_two_senders)) = Some 0"
  by (simp_all add: msg_eval run_two_senders_def run_prefix_def sent_def received_def)

section \<open>Properties\<close>

text \<open>
  C4: Under every interleaving of the calls, the messages of a type a queue accepted are, in
  the order they were accepted, those that were copied out (cut to the receiver's room)
  followed by those still waiting: none is lost, duplicated or overtaken within its type.
\<close>

theorem messages_conserved:
  assumes "msg_step\<^sup>*\<^sup>* msg_boot s" "a < length (arcs (shared s))"
  shows "\<exists>taken. sent a t (log s) = taken @ waiting (arcs (shared s) ! a) t
           \<and> list_all2 (\<lambda>d (room, bytes). bytes = take room d) taken (received a t (log s))"
proof -
  have "copied_out = (\<lambda>d (room, bytes). bytes = take room d)" by (auto simp: copied_out_def fun_eq_iff)
  with conserved_reachable [OF assms(1)] assms(2) show ?thesis by (simp add: conserved_def moves_def)
qed

theorem messages_conserved_witness:
  "msg_step\<^sup>*\<^sup>* msg_boot run_two_senders \<and> 0 < length (arcs (shared run_two_senders))
   \<and> waiting (arcs (shared run_two_senders) ! 0) 3 = [[30, 31]]"
proof -
  obtain taken where t: "sent 0 3 (log run_two_senders) = taken @ waiting (arcs (shared run_two_senders) ! 0) 3"
    "list_all2 (\<lambda>d (room, bytes). bytes = take room d) taken (received 0 3 (log run_two_senders))"
    using messages_conserved [OF run_two_senders_reachable, of 0 3] by (auto simp: run_two_senders_state)
  from t(2) have "length taken = 1" by (simp add: run_two_senders_state list_all2_conv_all_nth)
  with t(1) show ?thesis
    by (cases taken) (auto simp: run_two_senders_state run_two_senders_reachable)
qed

text \<open>
  C12: In every reachable state the manager and the queues agree: at most \<open>MSGMNI\<close> queues, a
  key only leads to a registered queue, no queue has two identifiers, and the byte and
  message counters of a registered queue are those of the messages it holds, each filed
  under its own type.
\<close>

theorem manager_consistent:
  assumes reach: "msg_step\<^sup>*\<^sup>* msg_boot s"
    and get: "get_queue_by_msqid msqid (MSG_MANAGER (shared s)) = Some a"
    and q: "q = arcs (shared s) ! a"
  shows "queue_count (MSG_MANAGER (shared s)) \<le> MSGMNI
    \<and> (\<forall>k i. get_msqid_by_key k (MSG_MANAGER (shared s)) = Some i \<longrightarrow>
             get_queue_by_msqid i (MSG_MANAGER (shared s)) \<noteq> None)
    \<and> (\<forall>i. get_queue_by_msqid i (MSG_MANAGER (shared s)) = Some a \<longrightarrow> i = msqid)
    \<and> a < length (arcs (shared s))
    \<and> total_bytes q = of_nat (queue_bytes q) \<and> msg_cbytes (ds q) = of_nat (queue_bytes q)
    \<and> msg_qnum (ds q) = of_nat (length (all_messages q))
    \<and> (\<forall>m \<in> set (all_messages q). data m \<in> set (waiting q (mtype m)))"
proof -
  have inv: "msg_invar (shared s)" using conserved_reachable [OF reach] by (simp add: conserved_def)
  note m = msg_invarD(1) [OF inv]
  have a: "a < length (arcs (shared s))" using get m by (simp add: get_queue_by_msqid_def registered_arc)
  note qi = msg_invarD(2) [OF inv a, folded q]
  show ?thesis
    using get m a mq_invarD [OF qi] all_messages_waiting [OF qi]
    by (auto simp: get_queue_by_msqid_def get_msqid_by_key_def key_registered manager_invar_def
        dest: registered_once [OF m])
qed

theorem manager_consistent_witness:
  "msg_step\<^sup>*\<^sup>* msg_boot run_two_senders
   \<and> get_queue_by_msqid 0 (MSG_MANAGER (shared run_two_senders)) = Some 0
   \<and> total_bytes (arcs (shared run_two_senders) ! 0) = of_nat (queue_bytes (arcs (shared run_two_senders) ! 0))"
  using manager_consistent [OF run_two_senders_reachable run_two_senders_state(4) refl]
  by (simp add: run_two_senders_reachable run_two_senders_state(4))





lemma receive_by_type_ok:
  assumes "mq_invar q" "0 < t" "waiting q t = [d]" 
    "has_ipc_permission (msg_perm (ds q)) (current_uid c) (current_gid c) False" "\<not> mark_removed q"
    "\<And>w. vm_fault e w = None" "length d \<le> unat msgsz"
  shows "\<exists>n q' ws. msgrcv_locked e c msgp msgsz t 0 q = (Inr n, q', ws)"
proof -
  have f: "MsgRcvFlags_from_bits_truncate 0 = 0" "\<not> flags_contain 0 MSG_COPY" "\<not> flags_contain 0 MSG_EXCEPT"
    by (simp_all add: msg_eval)
  have m: "matched_message 0 t q = Some (t, d)"
    using matched_message_selects [OF assms(1), of 0 t] assms(2,3) f
    by (cases "matched_message 0 t q") (auto simp: selects_def rcv_wants_def)
  obtain m q' where "remove_message_by_type_and_index t 0 q = (Inr m, q')"
    using remove_message_ok [of 0 q t] assms(3) by auto
  with assms f m show ?thesis
    by (simp add: msgrcv_locked_def msgrcv_match_type msgrcv_deliver_def vm_write_def Let_def)
qed

text \<open>
  C15: Sending and then receiving by type gives the message back: when no message of that
  type was waiting, the receive copies out exactly the type and the bytes the sender had in
  its buffer, returns their number, and the queue holds the same messages as before.
\<close>

theorem msg_round_trip:
  assumes inv: "msg_invar s" and reg: "get_queue_by_msqid msqid (MSG_MANAGER s) = Some a"
    and live: "\<not> mark_removed (arcs s ! a)" and fresh: "waiting (arcs s ! a) t = []"
    and snd: "sys_msgsnd e c msqid msgp msgsz msgflg s = (Ret (Inr 0), s1)"
    and buf: "vm_read_mtype e msgp = Inr t" "vm_load e (mtext_ptr msgp) (unat msgsz) = Inr d"
    and perm: "has_ipc_permission (msg_perm (ds (arcs s ! a))) (current_uid c') (current_gid c') False"
    and room: "length d \<le> unat msgsz'" and ok: "\<And>w. vm_fault e' w = None"
  shows "\<exists>s2. sys_msgrcv e' c' msqid msgp' msgsz' t 0 s1 =
      (Ret (Inr (int (length d))), s2, [Write_mtype msgp' t, Write_bytes (mtext_ptr msgp') d])
    \<and> waiting (arcs s2 ! a) = waiting (arcs s ! a)"
proof -
  have a: "a < length (arcs s)" using registered_arc [OF msg_invarD(1) [OF inv]] reg
    by (simp add: get_queue_by_msqid_def)
  note qi = msg_invarD(2) [OF inv a]
  obtain r q where l: "msgsnd_locked e c msgp msgsz msgflg (arcs s ! a) = (r, q)" by fastforce
  from snd reg l have r: "r = Inr 0" and s1: "s1 = s\<lparr> arcs := (arcs s)[a := q] \<rparr>"
    by (auto simp: sys_msgsnd_def continue_def lookup_def split: if_splits)
  from l [unfolded r] obtain q1 where t: "0 < t" and enq: "enqueue_message t d (arcs s ! a) = (Inr (), q1)"
    and q: "q = q1\<lparr> ds := (ds q1)\<lparr> msg_lspid := current_pid c, msg_stime := monotonic_time_nanos e \<rparr>\<rparr>"
    by (cases rule: msgsnd_locked_cases) (auto simp: buf)
  have same: "same_messages q1 q" by (simp add: q same_messages_def)
  have w: "waiting q = (waiting (arcs s ! a))(t := [d])"
    using enqueue_message_waiting [OF enq] same_messages_waiting [OF same] fresh by simp
  have q_inv: "mq_invar q" using enqueue_message_invar [OF qi enq] same_messages_invar [OF same] by simp
  have q_perm: "msg_perm (ds q) = msg_perm (ds (arcs s ! a))" "\<not> mark_removed q"
    using enq live by (auto simp: q elim: enqueue_message_cases)
  obtain r' q' ws where rcv: "msgrcv_locked e' c' msgp' msgsz' t 0 q = (r', q', ws)" by (metis prod_cases3)
  have noerr: "\<exists>n. r' = Inr n"
    using rcv receive_by_type_ok [OF q_inv t _ _ q_perm(2) ok room, of c' msgp'] w q_perm(1) perm by simp
  from q_inv rcv have got: "r' = Inr (int (length d)) \<and> waiting q' = waiting (arcs s ! a)
      \<and> ws = [Write_mtype msgp' t, Write_bytes (mtext_ptr msgp') d]"
  proof (cases rule: msgrcv_locked_cases)
    case (received t' d' rest)
    then have "t' = t" using t by (simp add: rcv_wants_def msg_eval)
    with received w room fresh show ?thesis by (auto simp: fun_eq_iff)
  qed (use noerr in \<open>simp_all add: msg_eval\<close>)
  have "get_queue_by_msqid msqid (MSG_MANAGER s1) = Some a" "arcs s1 ! a = q" "a < length (arcs s1)"
    using reg a by (simp_all add: s1)
  with rcv got show ?thesis
    by (auto simp: sys_msgrcv_def continue_def lookup_def msg_flags MsgRcvFlags_from_bits_truncate_def
        flags_contain_def Let_def)
qed

definition one_queue :: msg_state where
  "one_queue = shared (do_call 0 (user_msg 0 []) root (Msgget 77 0x3B6) msg_boot)"

lemma one_queue_invar: "msg_invar one_queue"
  using conserved_reachable [OF do_call_steps [OF rtranclp.rtrancl_refl]]
  by (simp add: one_queue_def conserved_def)

theorem msg_round_trip_witness:
  "\<exists>s1 s2. sys_msgsnd (user_msg 3 [8, 9]) root 0 0x1000 2 0 one_queue = (Ret (Inr 0), s1)
     \<and> sys_msgrcv (user_msg 0 []) root 0 0x2000 16 3 0 s1
       = (Ret (Inr 2), s2, [Write_mtype 0x2000 3, Write_bytes 0x2008 [8, 9]])"
proof -
  obtain s1 where s1: "sys_msgsnd (user_msg 3 [8, 9]) root 0 0x1000 2 0 one_queue = (Ret (Inr 0), s1)"
    by (simp add: sys_msgsnd_def continue_def one_queue_def msg_eval)
  have "\<exists>s2. sys_msgrcv (user_msg 0 []) root 0 0x2000 16 3 0 s1 =
      (Ret (Inr (int (length [8, 9 :: u8]))), s2,
       [Write_mtype 0x2000 3, Write_bytes (mtext_ptr 0x2000) [8, 9]])
    \<and> waiting (arcs s2 ! 0) = waiting (arcs one_queue ! 0)"
    by (rule msg_round_trip [OF one_queue_invar _ _ _ s1])
      (simp_all add: one_queue_def msg_eval waiting_def)
  with s1 show ?thesis by (auto simp: mtext_ptr_def)
qed



text \<open>\<open>vm_load\<close> of \<open>n\<close> bytes returns \<open>n\<close> bytes or fails.\<close>

definition exact_loads :: "msg_env \<Rightarrow> bool" where
  "exact_loads e \<longleftrightarrow> (\<forall>p n d. vm_load e p n = Inr d \<longrightarrow> length d = n)"

text \<open>
  C18: A send that succeeds stays within the limits: the message is at most \<open>MSGMAX\<close> bytes, and
  after it the bytes and the number of messages on the queue are at most \<open>msg_qbytes\<close>, as
  long as they did not exceed 64 bits before.
\<close>

theorem msgsnd_within_limits:
  assumes inv: "msg_invar s" and st: "start e0 c (Msgsnd msqid msgp msgsz msgflg) s0 = (Await k, s1, ws)"
    and res: "resume e k s = (Ret (Inr n), s', ws')" and a: "arc_of k = Some a" "a < length (arcs s)"
    and load: "exact_loads e"
    and room: "queue_bytes (arcs s ! a) + MSGMAX < 2 ^ 64" "length (all_messages (arcs s ! a)) + 1 < 2 ^ 64"
  shows "\<exists>t d. 0 < t \<and> length d = unat msgsz \<and> length d \<le> MSGMAX
    \<and> waiting (arcs s' ! a) = (waiting (arcs s ! a))(t := waiting (arcs s ! a) t @ [d])
    \<and> queue_bytes (arcs s' ! a) \<le> unat (msg_qbytes (ds (arcs s' ! a)))
    \<and> length (all_messages (arcs s' ! a)) \<le> unat (msg_qbytes (ds (arcs s' ! a)))"
proof -
  let ?q = "arcs s ! a"
  from st have k: "k = Snd c msgp msgsz msgflg a" and sz: "unat msgsz \<le> MSGMAX"
    using a(1) by (auto simp: lookup_def split: if_splits option.splits)
  note qi = msg_invarD(2) [OF inv a(2)]
  obtain q where l: "msgsnd_locked e c msgp msgsz msgflg ?q = (Inr n, q)" "s' = s\<lparr> arcs := (arcs s)[a := q] \<rparr>"
    using res k by (auto split: prod.splits)
  from l(1) show ?thesis
  proof (cases rule: msgsnd_locked_cases)
    case (sent t d q1)
    have same: "same_messages q1 q" by (simp add: sent(9) same_messages_def)
    have len: "length d = unat msgsz" using load sent(4) by (simp add: exact_loads_def)
    note c = enqueue_message_counts [OF qi sent(8)]
    have qb: "msg_qbytes (ds q) = msg_qbytes (ds ?q)" using sent(8) by (auto simp: sent(9) elim: enqueue_message_cases)
    have "unat (of_nat (queue_bytes ?q + length d) :: u64) \<le> unat (msg_qbytes (ds ?q))"
      "unat (of_nat (length (all_messages ?q) + 1) :: u64) \<le> unat (msg_qbytes (ds ?q))"
      using sent(6,7) mq_invarD [OF qi] by (simp_all add: word_le_nat_alt add.commute)
    moreover have "unat (of_nat (queue_bytes ?q + length d) :: u64) = queue_bytes ?q + length d"
      "unat (of_nat (length (all_messages ?q) + 1) :: u64) = length (all_messages ?q) + 1"
      by (rule unat_of_nat_less, use room sz len in simp)+
    ultimately have "queue_bytes ?q + length d \<le> unat (msg_qbytes (ds ?q))"
      "length (all_messages ?q) + 1 \<le> unat (msg_qbytes (ds ?q))"
      by (simp_all only:)
    moreover have "waiting q = (waiting ?q)(t := waiting ?q t @ [d])"
      using enqueue_message_waiting [OF sent(8)] same_messages_waiting [OF same] by simp
    moreover have "queue_bytes q = queue_bytes ?q + length d" "length (all_messages q) = length (all_messages ?q) + 1"
      using c same by (simp_all add: same_messages_def queue_bytes_def all_messages_def)
    ultimately show ?thesis
      using sent(3) len sz a(2) by (intro exI [of _ t] exI [of _ d]) (simp add: l(2) qb)
  qed simp
qed

theorem msgsnd_within_limits_witness:
  "\<exists>s'. resume (user_msg 3 [8, 9]) (Snd root 0x1000 2 0 0) one_queue = (Ret (Inr 0), s', [])
     \<and> queue_bytes (arcs s' ! 0) \<le> unat (msg_qbytes (ds (arcs s' ! 0)))"
proof -
  have st: "start (user_msg 3 [8, 9]) root (Msgsnd 0 0x1000 2 0) one_queue = (Await (Snd root 0x1000 2 0 0), one_queue, [])"
    by (simp add: one_queue_def msg_eval)
  obtain s' where s': "resume (user_msg 3 [8, 9]) (Snd root 0x1000 2 0 0) one_queue = (Ret (Inr 0), s', [])"
    by (simp add: one_queue_def msg_eval)
  have "exact_loads (user_msg 3 [8, 9])" "arc_of (Snd root 0x1000 2 0 0) = Some 0" "0 < length (arcs one_queue)"
    "queue_bytes (arcs one_queue ! 0) + MSGMAX < 2 ^ 64" "length (all_messages (arcs one_queue ! 0)) + 1 < 2 ^ 64"
    by (simp_all add: one_queue_def msg_eval queue_bytes_def all_messages_def exact_loads_def)
  then show ?thesis using msgsnd_within_limits [OF one_queue_invar st s', of 0] s' by blast
qed


definition run_removed :: msg_sys where
  "run_removed =
     do_resume 3 (user_msg 0 []) (do_call 3 (user_msg 0 []) root (Msgctl 0 IPC_RMID 0) run_two_senders)"




text \<open>
  C20: A key leads back to its queue: after a \<open>msgget\<close> of a non-private key that succeeded, any
  caller with read permission that does not insist on creating gets the same identifier, and
  the lookup changes nothing.
\<close>

theorem msgget_key_round_trip:
  assumes "sys_msgget e c k msgflg s = (Inr msqid, s1)" "k \<noteq> IPC_PRIVATE"
    and "queue_count (MSG_MANAGER s1) < MSGMNI" "msg_invar s"
    and "get_queue_by_msqid msqid (MSG_MANAGER s1) = Some a"
    and "has_ipc_permission (msg_perm (ds (arcs s1 ! a))) (current_uid c') (current_gid c') False"
    and "msgflg' AND IPC_CREAT = 0 \<or> msgflg' AND IPC_EXCL = 0"
  shows "sys_msgget e' c' k msgflg' s1 = (Inr msqid, s1)"
  using assms(1)
proof (cases rule: sys_msgget_cases)
  case (found i b)
  then show ?thesis using assms(2-) by (simp add: sys_msgget_def Let_def) blast
next
  case (created m)
  have "get_msqid_by_key k (MSG_MANAGER s1) = Some msqid" "a = length (arcs s)"
    using assms(5) created(1,3,5) assms(2)
    by (simp_all add: get_msqid_by_key_def get_queue_by_msqid_def insert_key_msqid_def insert_msqid_queues_def
        bt_get_insert)
  moreover from this(2) have "\<not> mark_removed (arcs s1 ! a)"
    by (simp add: created(5) new_queue_def MessageQueue_new_def)
  ultimately show ?thesis using assms(2-) by (simp add: sys_msgget_def Let_def) blast
qed simp

theorem msgget_key_round_trip_witness:
  "\<exists>s1. sys_msgget (user_msg 0 []) root 78 0x3B6 one_queue = (Inr 1, s1)
     \<and> sys_msgget (user_msg 0 []) \<lparr> current_uid = 9, current_gid = 9, current_pid = 9 \<rparr> 78 0 s1 = (Inr 1, s1)"
proof -
  obtain s1 where s1: "sys_msgget (user_msg 0 []) root 78 0x3B6 one_queue = (Inr 1, s1)"
    by (simp add: one_queue_def msg_eval)
  have "sys_msgget (user_msg 0 []) \<lparr> current_uid = 9, current_gid = 9, current_pid = 9 \<rparr> 78 0 s1 = (Inr 1, s1)"
    by (rule msgget_key_round_trip [OF s1 _ _ one_queue_invar, where a = 1])
      (use s1 in \<open>auto simp: one_queue_def msg_eval ipc_modes\<close>)
  with s1 show ?thesis by blast
qed

text \<open>
  C19: A section changes the messages of a queue only for a caller the permissions admit: the
  superuser, or one whose class (owner, group, others) has the write bit for a send and the
  read bit for a receive.
\<close>

theorem msg_access_control:
  assumes inv: "msg_invar s" and valid: "valid_pending s k" and res: "resume e k s = (out, s', ws)"
    and a: "a < length (arcs s)" and p: "p = msg_perm (ds (arcs s ! a))"
    and changed: "waiting (arcs s' ! a) \<noteq> waiting (arcs s ! a)"
  shows "(\<exists>c msgp msgsz msgflg. k = Snd c msgp msgsz msgflg a \<and>
            (current_uid c = 0 \<or> bit (mode p) (3 * perm_class p (current_uid c) (current_gid c) + 1)))
       \<or> (\<exists>c msgp msgsz msgtyp msgflg. k = Rcv c msgp msgsz msgtyp msgflg a \<and>
            (current_uid c = 0 \<or> bit (mode p) (3 * perm_class p (current_uid c) (current_gid c) + 2)))"
proof (cases k)
  case (Snd c msgp msgsz msgflg b)
  obtain r q where snd: "msgsnd_locked e c msgp msgsz msgflg (arcs s ! b) = (r, q)" by fastforce
  with res Snd have s': "s' = s\<lparr> arcs := (arcs s)[b := q] \<rparr>" by simp
  with changed have b: "b = a" "q \<noteq> arcs s ! a" using a by (cases "b = a"; auto)+
  from snd show ?thesis
    by (cases rule: msgsnd_locked_cases) (use b Snd p in \<open>auto simp: has_ipc_permission_iff\<close>)
next
  case (Rcv c msgp msgsz msgtyp msgflg b)
  obtain r q ws' where rcv: "msgrcv_locked e c msgp msgsz msgtyp msgflg (arcs s ! b) = (r, q, ws')"
    by (metis prod_cases3)
  with res Rcv have s': "s' = s\<lparr> arcs := (arcs s)[b := q] \<rparr>" by simp
  with changed have b: "b = a" "q \<noteq> arcs s ! a" using a by (cases "b = a"; auto)+
  from rcv b have "has_ipc_permission p (current_uid c) (current_gid c) False"
    by (auto simp: msgrcv_locked_def p Let_def split: if_splits)
  then show ?thesis using Rcv b by (auto simp: has_ipc_permission_iff)
next
  case (Ctl c msqid cmd buf b)
  obtain r q ws' rm where ctl: "msgctl_locked e c cmd buf (arcs s ! b) = (r, q, ws', rm)"
    by (metis prod_cases4)
  with res Ctl have "s' = s\<lparr> arcs := (arcs s)[b := q] \<rparr>" by simp
  with changed show ?thesis
    using msgctl_locked_same [OF ctl] a by (cases "b = a") (auto simp: same_messages_waiting)
qed (use res changed in auto)

theorem msg_access_control_witness:
  "\<exists>s'. resume (user_msg 3 [8]) (Snd \<lparr> current_uid = 5, current_gid = 6, current_pid = 7 \<rparr> 0x1000 1 0 0) one_queue
       = (Ret (Inr 0), s', [])
     \<and> bit (mode (msg_perm (ds (arcs one_queue ! 0)))) (3 * perm_class (msg_perm (ds (arcs one_queue ! 0))) 5 6 + 1)"
proof -
  let ?k = "Snd \<lparr> current_uid = 5, current_gid = 6, current_pid = 7 \<rparr> 0x1000 1 0 0"
  obtain s' where s': "resume (user_msg 3 [8]) ?k one_queue = (Ret (Inr 0), s', [])"
    "waiting (arcs s' ! 0) 3 \<noteq> waiting (arcs one_queue ! 0) 3"
    by (simp add: one_queue_def msg_eval ipc_modes waiting_def)
  have "valid_pending one_queue ?k" "0 < length (arcs one_queue)"
    by (simp_all add: one_queue_def valid_pending_def msg_eval)
  moreover have "waiting (arcs s' ! 0) \<noteq> waiting (arcs one_queue ! 0)" using s'(2) by metis
  ultimately have "bit (mode (msg_perm (ds (arcs one_queue ! 0)))) (3 * perm_class (msg_perm (ds (arcs one_queue ! 0))) 5 6 + 1)"
    using msg_access_control [OF one_queue_invar _ s'(1) _ refl, of 0] by auto
  with s'(1) show ?thesis by blast
qed

section \<open>Where the calls differ from what their comments say\<close>

text \<open>
  The queue of \<open>run_removed\<close> was removed while it held a message: it stays registered under
  its identifier and key, the calls that would empty or remove it answer \<open>EIDRM\<close>, and a send to
  it is still accepted.
\<close>

lemma removed_queue_is_kept:
  "sys_msgget (user_msg 0 []) root 77 0x3B6 (shared run_removed) = (Inl EIDRM, shared run_removed)"
  "\<exists>s' ws. sys_msgrcv (user_msg 0 []) root 0 0x1000 8 0 0 (shared run_removed) = (Ret (Inl EIDRM), s', ws)"
  "\<exists>s' ws. sys_msgctl (user_msg 0 []) root 0 IPC_RMID 0 (shared run_removed) = (Ret (Inl EIDRM), s', ws)"
  "\<exists>s'. sys_msgsnd (user_msg 3 [1]) root 0 0x1000 1 0 (shared run_removed) = (Ret (Inr 0), s')"
  by (simp_all add: msg_eval run_removed_def run_two_senders_def run_prefix_def
      msgctl_global_def msgctl_locked_def sys_msgrcv_def sys_msgctl_def sys_msgsnd_def continue_def)

text \<open>With type 0 the message of the least type is taken, not the first one sent.\<close>

lemma type_zero_is_not_fifo:
  "find_first_message (snd (enqueue_message 2 [1] (snd (enqueue_message 9 [4] (MessageQueue_new 0 0x1B6 7 0 0 5)))))
   = Some (2, [1])"
  by (simp add: msg_eval)

text \<open>A refused \<open>IPC_SET\<close> has already changed the owner and the mode.\<close>

lemma ipc_set_refused_changes_perm:
  "msgctl_set e False u q = (Inl EPERM, q') \<Longrightarrow>
     uid (msg_perm (ds q')) = uid (msg_perm u) \<and> gid (msg_perm (ds q')) = gid (msg_perm u)"
  by (auto simp: msgctl_set_def Let_def split: if_splits)

end
