(* ===== verification/Bi_Map.thy ===== *)
theory Bi_Map
  imports Ord_Map
begin

text \<open>
  \<open>BiBTreeMap\<close> of \<open>kernel/src/syscall/ipc/shm.rs\<close>: two ordered maps, one the inverse of the
  other.  The invariant is that they are; the interface is the locale \<open>bijective_map\<close>.
\<close>

record ('k, 'v) bi_btree_map =
  forward :: "('k, 'v) btree_map"
  reverse :: "('v, 'k) btree_map"

definition bi_new :: "('k, 'v) bi_btree_map" where
  "bi_new = \<lparr> forward = bt_empty, reverse = bt_empty \<rparr>"

definition bi_insert :: "'k::linorder \<Rightarrow> 'v::linorder \<Rightarrow> ('k, 'v) bi_btree_map \<Rightarrow> ('k, 'v) bi_btree_map" where
  "bi_insert k v b =
     (let old_key = bt_get (reverse b) v;
          rev = bt_insert v k (reverse b);
          fwd = (case old_key of Some k' \<Rightarrow> bt_remove k' (forward b) | None \<Rightarrow> forward b);
          old_value = bt_get fwd k;
          fwd = bt_insert k v fwd;
          rev = (case old_value of Some v' \<Rightarrow> bt_remove v' rev | None \<Rightarrow> rev)
      in \<lparr> forward = fwd, reverse = rev \<rparr>)"

definition get_by_key :: "'k \<Rightarrow> ('k, 'v) bi_btree_map \<Rightarrow> 'v option" where
  "get_by_key k b = bt_get (forward b) k"

definition get_by_value :: "'v \<Rightarrow> ('k, 'v) bi_btree_map \<Rightarrow> 'k option" where
  "get_by_value v b = bt_get (reverse b) v"

definition remove_by_key :: "'k \<Rightarrow> ('k, 'v) bi_btree_map \<Rightarrow> 'v option \<times> ('k, 'v) bi_btree_map" where
  "remove_by_key k b =
     (case bt_get (forward b) k of
        Some v \<Rightarrow> (Some v, b\<lparr> forward := bt_remove k (forward b), reverse := bt_remove v (reverse b) \<rparr>)
      | None \<Rightarrow> (None, b))"

definition remove_by_value :: "'v \<Rightarrow> ('k, 'v) bi_btree_map \<Rightarrow> 'k option \<times> ('k, 'v) bi_btree_map" where
  "remove_by_value v b =
     (case bt_get (reverse b) v of
        Some k \<Rightarrow> (Some k, b\<lparr> forward := bt_remove k (forward b), reverse := bt_remove v (reverse b) \<rparr>)
      | None \<Rightarrow> (None, b))"

definition bi_invar :: "('k::linorder, 'v::linorder) bi_btree_map \<Rightarrow> bool" where
  "bi_invar b \<longleftrightarrow> bt_invar (forward b) \<and> bt_invar (reverse b)
     \<and> (\<forall>(k, v) \<in> set (forward b). bt_get (reverse b) v = Some k)
     \<and> (\<forall>(v, k) \<in> set (reverse b). bt_get (forward b) k = Some v)"

section \<open>The interface\<close>

text \<open>
  What the clients rely on: a partial bijection, in which inserting a pair displaces the
  pairs that share its key or its value.
\<close>

locale bijective_map =
  fixes new :: 'm
    and insert :: "'k \<Rightarrow> 'v \<Rightarrow> 'm \<Rightarrow> 'm"
    and by_key :: "'k \<Rightarrow> 'm \<Rightarrow> 'v option"
    and by_value :: "'v \<Rightarrow> 'm \<Rightarrow> 'k option"
    and del_key :: "'k \<Rightarrow> 'm \<Rightarrow> 'v option \<times> 'm"
    and del_value :: "'v \<Rightarrow> 'm \<Rightarrow> 'k option \<times> 'm"
    and invar :: "'m \<Rightarrow> bool"
  assumes invar_new: "invar new" and new_empty: "by_key k new = None"
    and inverse: "invar m \<Longrightarrow> by_key k m = Some v \<longleftrightarrow> by_value v m = Some k"
    and invar_insert: "invar m \<Longrightarrow> invar (insert k v m)"
    and key_insert: "invar m \<Longrightarrow> by_key k' (insert k v m) =
          (if k' = k then Some v else if by_key k' m = Some v then None else by_key k' m)"
    and del_value: "invar m \<Longrightarrow> del_value v m = (r, m') \<Longrightarrow>
          invar m' \<and> r = by_value v m \<and> by_key k m' = (if by_key k m = Some v then None else by_key k m)"
    and del_key: "invar m \<Longrightarrow> del_key k' m = (r', m') \<Longrightarrow>
          invar m' \<and> r' = by_key k' m \<and> by_key k m' = (if k = k' then None else by_key k m)"
begin

lemma value_new: "by_value v new = None"
  using inverse [OF invar_new, of _ v] new_empty by (cases "by_value v new") auto

lemma key_injective: "invar m \<Longrightarrow> by_key k m = Some v \<Longrightarrow> by_key k' m = Some v \<Longrightarrow> k = k'"
  using inverse by (metis option.inject)

lemma value_insert: "invar m \<Longrightarrow> by_value v (insert k v m) = Some k"
  using inverse [OF invar_insert] key_insert by fastforce

text \<open>Inserting a pair and removing it by its value leaves the pairs it displaced removed.\<close>

lemma insert_del_value:
  assumes "invar m" "del_value v (insert k v m) = (r, m')"
  shows "r = Some k" "by_key k' m' = (if k' = k \<or> by_key k' m = Some v then None else by_key k' m)"
proof -
  note d = del_value [OF invar_insert [OF assms(1)] assms(2)]
  show "r = Some k" using d value_insert [OF assms(1)] by simp
  show "by_key k' m' = (if k' = k \<or> by_key k' m = Some v then None else by_key k' m)"
    using d [of k'] key_insert [OF assms(1), of k' k v] by (auto split: if_splits)
qed

end

section \<open>The laws\<close>

lemma bi_invarD:
  assumes "bi_invar b"
  shows "bt_invar (forward b)" "bt_invar (reverse b)"
    "bt_get (forward b) k = Some v \<longleftrightarrow> bt_get (reverse b) v = Some k"
  using assms unfolding bi_invar_def by (fastforce simp: bt_get_entries)+

lemma bi_invarI:
  assumes "bt_invar (forward b)" "bt_invar (reverse b)"
    "\<And>k v. bt_get (forward b) k = Some v \<longleftrightarrow> bt_get (reverse b) v = Some k"
  shows "bi_invar b"
  using assms unfolding bi_invar_def by (auto simp: bt_get_entries)

lemma bi_reverse_inj: "bi_invar b \<Longrightarrow> bt_get (reverse b) v = Some k \<Longrightarrow> bt_get (reverse b) v' = Some k \<Longrightarrow> v = v'"
  using bi_invarD(3) by (metis option.inject)

lemma bi_forward_None: "bi_invar b \<Longrightarrow> bt_get (forward b) k = None \<Longrightarrow> bt_get (reverse b) v \<noteq> Some k"
  using bi_invarD(3) by (metis option.distinct(1))

lemma bt_invar_remove: "bt_invar m \<Longrightarrow> bt_invar (bt_remove k m)"
  by (rule bt.invar_remove)

lemma bi_insert_forward:
  assumes "bi_invar b"
  shows "bt_get (forward (bi_insert k v b)) k' =
    (if k' = k then Some v else if bt_get (forward b) k' = Some v then None else bt_get (forward b) k')"
  using bi_invarD(3) [OF assms]
  by (auto simp: bi_insert_def Let_def bt_get_insert bt_get_remove split: option.splits)

lemma bi_insert_reverse:
  assumes "bi_invar b"
  shows "bt_get (reverse (bi_insert k v b)) v' =
    (if v' = v then Some k else if bt_get (reverse b) v' = Some k then None else bt_get (reverse b) v')"
  using bi_invarD(3) [OF assms]
  by (auto simp: bi_insert_def Let_def bt_get_insert bt_get_remove split: option.splits if_splits
      dest: bi_reverse_inj [OF assms] bi_forward_None [OF assms])

lemma bi_invar_insert: "bi_invar b \<Longrightarrow> bi_invar (bi_insert k v b)"
proof (rule bi_invarI)
  assume b: "bi_invar b"
  show "bt_invar (forward (bi_insert k v b))" "bt_invar (reverse (bi_insert k v b))"
    using bi_invarD(1,2) [OF b]
    by (auto simp: bi_insert_def Let_def bt_invar_insert bt_invar_remove split: option.splits)
  show "bt_get (forward (bi_insert k v b)) k' = Some v' \<longleftrightarrow> bt_get (reverse (bi_insert k v b)) v' = Some k'" for k' v'
    using bi_invarD(3) [OF b]
    by (auto simp: bi_insert_forward [OF b] bi_insert_reverse [OF b] dest: bi_reverse_inj [OF b])
qed

lemma bi_invar_unlink:
  assumes "bi_invar b" "bt_get (reverse b) v = Some k"
  shows "bi_invar (b\<lparr> forward := bt_remove k (forward b), reverse := bt_remove v (reverse b) \<rparr>)"
  by (rule bi_invarI)
    (use bi_invarD [OF assms(1)] assms(2) in \<open>auto simp: bt_get_remove bt_invar_remove
      dest: bi_reverse_inj [OF assms(1)]\<close>)

lemma bi_remove_value:
  assumes b: "bi_invar b" and r: "remove_by_value v b = (r, b')"
  shows "bi_invar b' \<and> r = get_by_value v b
    \<and> get_by_key k b' = (if get_by_key k b = Some v then None else get_by_key k b)"
proof (cases "bt_get (reverse b) v")
  case None
  then show ?thesis using b r bi_invarD(3) [OF b, of k v]
    by (simp add: remove_by_value_def get_by_value_def get_by_key_def)
next
  case (Some k')
  then show ?thesis using r bi_invar_unlink [OF b Some] bi_invarD(3) [OF b]
    by (auto simp: remove_by_value_def get_by_value_def get_by_key_def bt_get_remove)
qed

lemma bi_remove_key:
  assumes b: "bi_invar b" and r: "remove_by_key k' b = (r, b')"
  shows "bi_invar b' \<and> r = get_by_key k' b \<and> get_by_key k b' = (if k = k' then None else get_by_key k b)"
proof (cases "bt_get (forward b) k'")
  case None
  then show ?thesis using b r by (simp add: remove_by_key_def get_by_key_def)
next
  case (Some v)
  then have "bt_get (reverse b) v = Some k'" using bi_invarD(3) [OF b] by simp
  then show ?thesis using r Some bi_invar_unlink [OF b]
    by (auto simp: remove_by_key_def get_by_key_def bt_get_remove)
qed

interpretation bi: bijective_map bi_new bi_insert get_by_key get_by_value remove_by_key remove_by_value bi_invar
proof
  show "bi_invar bi_new" by (simp add: bi_invar_def bi_new_def bt_empty_def)
  show "get_by_key k bi_new = None" for k by (simp add: get_by_key_def bi_new_def bt_empty_def bt_get_def)
  show "get_by_key k m = Some v \<longleftrightarrow> get_by_value v m = Some k" if "bi_invar m" for m k v
    using bi_invarD(3) [OF that] by (simp add: get_by_key_def get_by_value_def)
  show "get_by_key k' (bi_insert k v m) =
      (if k' = k then Some v else if get_by_key k' m = Some v then None else get_by_key k' m)"
    if "bi_invar m" for m k' k v
    using bi_insert_forward [OF that] by (simp add: get_by_key_def)
qed (fact bi_invar_insert bi_remove_value bi_remove_key)+

section \<open>Properties\<close>

text \<open>
  C21: The bidirectional map keeps its two halves inverse to each other through every operation,
  and inserting a pair makes it found from both sides while displacing exactly the pairs that
  shared its key or its value.
\<close>

theorem bi_btree_map_bijective:
  assumes "bi_invar b"
  shows "(get_by_key k b = Some v \<longleftrightarrow> get_by_value v b = Some k)
    \<and> bi_invar (bi_insert k v b) \<and> bi_invar (snd (remove_by_key k b)) \<and> bi_invar (snd (remove_by_value v b))
    \<and> get_by_value v (bi_insert k v b) = Some k
    \<and> get_by_key k' (bi_insert k v b) =
        (if k' = k then Some v else if get_by_key k' b = Some v then None else get_by_key k' b)"
  using assms bi.del_key [OF assms surjective_pairing] bi.del_value [OF assms surjective_pairing]
  by (simp add: bi.inverse bi.invar_insert bi.value_insert bi.key_insert)

theorem bi_btree_map_bijective_witness:
  "bi_invar (bi_insert (1 :: int) (7 :: int) bi_new)
   \<and> get_by_key (1 :: int) (bi_insert 2 (7 :: int) (bi_insert 1 7 bi_new)) = None"
proof -
  have b: "bi_invar (bi_insert (1 :: int) (7 :: int) bi_new)" by (rule bi.invar_insert [OF bi.invar_new])
  then show ?thesis
    using bi_btree_map_bijective [OF b, of 2 7 1] bi.key_insert [OF bi.invar_new, of "1 :: int" "1 :: int" "7 :: int"] by simp
qed

end
