(* ===== verification/Shm.thy ===== *)
theory Shm
  imports Bi_Map Ipc
begin

text \<open>
  System V shared memory (\<open>kernel/src/syscall/ipc/shm.rs\<close>): the segments, the manager with its
  three maps, the four system calls and the cleanup when a process exits.  A segment is shared
  by reference: an \<open>Arc\<close> is an index into \<open>inners\<close>.  A failing \<open>unwrap\<close> or \<open>assert!\<close> is the
  may_panic \<open>Panic\<close>.  The address space of the process, the physical pages, user memory, the
  flag encoding and the page arithmetic of \<open>memory_addr\<close> are a parameter, \<open>shm_env\<close>.
\<close>

section \<open>Data\<close>

record MappingFlags =
  USER :: bool
  READ :: bool
  WRITE :: bool
  EXECUTE :: bool

record ShmidDs =
  shm_perm :: IpcPerm
  shm_segsz :: u64
  shm_atime :: u64
  shm_dtime :: u64
  shm_ctime :: u64
  shm_cpid :: u32
  shm_lpid :: u32
  shm_nattch :: u16

record ShmInner =
  shmid :: int
  page_num :: u64
  va_range :: "(u32, u64 \<times> u64) btree_map"
  phys_pages :: "nat option"
  rmid :: bool
  mapping_flags :: MappingFlags
  shmid_ds :: ShmidDs

record ShmManager =
  key_shmid :: "(int, int) bi_btree_map"
  shmid_inner :: "(int, nat) btree_map"
  pid_shmid_vaddr :: "(u32, (int, u64) bi_btree_map) btree_map"

record shm_state =
  SHM_IPC_ID :: int
  SHM_MANAGER :: ShmManager
  inners :: "ShmInner list"
  next_pages :: nat

record shm_env =
  align_up_4k :: "u64 \<Rightarrow> u64"
  align_down_4k :: "u64 \<Rightarrow> u64"
  flag_bits :: "MappingFlags \<Rightarrow> u32"
  aspace_base :: u64
  find_free_area :: "u64 \<Rightarrow> u64 \<Rightarrow> u64 option"
  new_pages :: "u64 \<Rightarrow> ax_error option"
  aspace_map :: "u64 \<Rightarrow> u64 \<Rightarrow> MappingFlags \<Rightarrow> nat \<Rightarrow> ax_error option"
  aspace_unmap :: "u64 \<Rightarrow> u64 \<Rightarrow> ax_error option"
  buf_is_null :: bool
  buf_get :: "ShmidDs ax_result"
  shm_now :: u64

datatype 'a may_panic = Returns 'a | Panic

definition PAGE_SIZE_4K :: u64 where "PAGE_SIZE_4K = 0x1000"

section \<open>Segments\<close>

definition ShmidDs_new :: "int \<Rightarrow> u64 \<Rightarrow> u32 \<Rightarrow> u32 \<Rightarrow> ShmidDs" where
  "ShmidDs_new k sz m pid =
     \<lparr> shm_perm = \<lparr> key = k, uid = 0, gid = 0, cuid = 0, cgid = 0, mode = m,
                   seq = 0, pad = 0, unused0 = 0, unused1 = 0 \<rparr>,
       shm_segsz = sz, shm_atime = 0, shm_dtime = 0, shm_ctime = 0,
       shm_cpid = pid, shm_lpid = pid, shm_nattch = 0 \<rparr>"

definition ShmInner_new :: "shm_env \<Rightarrow> int \<Rightarrow> int \<Rightarrow> u64 \<Rightarrow> MappingFlags \<Rightarrow> u32 \<Rightarrow> ShmInner" where
  "ShmInner_new e k i sz flags pid =
     \<lparr> shmid = i, page_num = align_up_4k e sz div PAGE_SIZE_4K, va_range = bt_empty, phys_pages = None,
       rmid = False, mapping_flags = flags, shmid_ds = ShmidDs_new k sz (flag_bits e flags) pid \<rparr>"

definition try_update :: "shm_env \<Rightarrow> u64 \<Rightarrow> MappingFlags \<Rightarrow> u32 \<Rightarrow> ShmInner \<Rightarrow> int ax_result \<times> ShmInner" where
  "try_update e sz flags pid inner =
     (if sz \<noteq> shm_segsz (shmid_ds inner) \<or> flag_bits e flags \<noteq> mode (shm_perm (shmid_ds inner))
      then (Inl InvalidInput, inner)
      else (Inr (shmid inner), inner\<lparr> shmid_ds := (shmid_ds inner)\<lparr> shm_lpid := pid \<rparr>\<rparr>))"

definition map_to_phys :: "nat \<Rightarrow> ShmInner \<Rightarrow> ShmInner" where
  "map_to_phys pages inner = inner\<lparr> phys_pages := Some pages \<rparr>"

definition attach_count :: "ShmInner \<Rightarrow> nat" where
  "attach_count inner = length (va_range inner)"

definition get_addr_range :: "u32 \<Rightarrow> ShmInner \<Rightarrow> (u64 \<times> u64) option" where
  "get_addr_range pid inner = bt_get (va_range inner) pid"

definition attach_process :: "shm_env \<Rightarrow> u32 \<Rightarrow> u64 \<times> u64 \<Rightarrow> ShmInner \<Rightarrow> ShmInner may_panic" where
  "attach_process e pid r inner =
     (if get_addr_range pid inner \<noteq> None then Panic
      else Returns (inner\<lparr> va_range := bt_insert pid r (va_range inner),
        shmid_ds := (shmid_ds inner)\<lparr> shm_nattch := shm_nattch (shmid_ds inner) + 1,
                                      shm_lpid := pid, shm_atime := shm_now e \<rparr>\<rparr>))"

definition detach_process :: "shm_env \<Rightarrow> u32 \<Rightarrow> ShmInner \<Rightarrow> ShmInner may_panic" where
  "detach_process e pid inner =
     (if get_addr_range pid inner = None then Panic
      else Returns (inner\<lparr> va_range := bt_remove pid (va_range inner),
        shmid_ds := (shmid_ds inner)\<lparr> shm_nattch := shm_nattch (shmid_ds inner) - 1,
                                      shm_lpid := pid, shm_dtime := shm_now e \<rparr>\<rparr>))"

section \<open>Manager\<close>

definition ShmManager_new :: ShmManager where
  "ShmManager_new = \<lparr> key_shmid = bi_new, shmid_inner = bt_empty, pid_shmid_vaddr = bt_empty \<rparr>"

definition get_shmid_by_key :: "int \<Rightarrow> ShmManager \<Rightarrow> int option" where
  "get_shmid_by_key k m = get_by_key k (key_shmid m)"

definition get_inner_by_shmid :: "int \<Rightarrow> ShmManager \<Rightarrow> nat option" where
  "get_inner_by_shmid i m = bt_get (shmid_inner m) i"

definition get_shmid_by_vaddr :: "u32 \<Rightarrow> u64 \<Rightarrow> ShmManager \<Rightarrow> int option" where
  "get_shmid_by_vaddr pid vaddr m = Option.bind (bt_get (pid_shmid_vaddr m) pid) (get_by_value vaddr)"

definition get_shmids_by_pid :: "u32 \<Rightarrow> ShmManager \<Rightarrow> int list option" where
  "get_shmids_by_pid pid m = map_option (\<lambda>b. map fst (forward b)) (bt_get (pid_shmid_vaddr m) pid)"

definition find_vaddr_by_shmid :: "u32 \<Rightarrow> int \<Rightarrow> ShmManager \<Rightarrow> u64 option" where
  "find_vaddr_by_shmid pid i m = Option.bind (bt_get (pid_shmid_vaddr m) pid) (get_by_key i)"

definition insert_key_shmid :: "int \<Rightarrow> int \<Rightarrow> ShmManager \<Rightarrow> ShmManager" where
  "insert_key_shmid k i m = m\<lparr> key_shmid := bi_insert k i (key_shmid m) \<rparr>"

definition insert_shmid_inner :: "int \<Rightarrow> nat \<Rightarrow> ShmManager \<Rightarrow> ShmManager" where
  "insert_shmid_inner i a m = m\<lparr> shmid_inner := bt_insert i a (shmid_inner m) \<rparr>"

definition insert_shmid_vaddr :: "u32 \<Rightarrow> int \<Rightarrow> u64 \<Rightarrow> ShmManager \<Rightarrow> ShmManager" where
  "insert_shmid_vaddr pid i vaddr m =
     (let b = (case bt_get (pid_shmid_vaddr m) pid of Some b \<Rightarrow> b | None \<Rightarrow> bi_new)
      in m\<lparr> pid_shmid_vaddr := bt_insert pid (bi_insert i vaddr b) (pid_shmid_vaddr m) \<rparr>)"

definition remove_shmaddr :: "u32 \<Rightarrow> u64 \<Rightarrow> ShmManager \<Rightarrow> ShmManager" where
  "remove_shmaddr pid shmaddr m =
     (case bt_get (pid_shmid_vaddr m) pid of
        None \<Rightarrow> m
      | Some b \<Rightarrow>
          (let b = snd (remove_by_value shmaddr b);
               m = m\<lparr> pid_shmid_vaddr := bt_insert pid b (pid_shmid_vaddr m) \<rparr>
           in if forward b = [] then m\<lparr> pid_shmid_vaddr := bt_remove pid (pid_shmid_vaddr m) \<rparr> else m))"

definition remove_pid :: "u32 \<Rightarrow> ShmManager \<Rightarrow> ShmManager" where
  "remove_pid pid m = m\<lparr> pid_shmid_vaddr := bt_remove pid (pid_shmid_vaddr m) \<rparr>"

definition remove_shmid :: "int \<Rightarrow> ShmManager \<Rightarrow> ShmManager" where
  "remove_shmid i m =
     m\<lparr> key_shmid := snd (remove_by_value i (key_shmid m)), shmid_inner := bt_remove i (shmid_inner m) \<rparr>"

text \<open>The loop over the segments of a process that exits.\<close>

fun clear_shmids :: "shm_env \<Rightarrow> u32 \<Rightarrow> int list \<Rightarrow> shm_state \<Rightarrow> shm_state may_panic" where
  "clear_shmids e pid [] s = Returns s"
| "clear_shmids e pid (i # ids) s =
     (case get_inner_by_shmid i (SHM_MANAGER s) of
        None \<Rightarrow> clear_shmids e pid ids s
      | Some a \<Rightarrow>
          (case detach_process e pid (inners s ! a) of
             Panic \<Rightarrow> Panic
           | Returns inner \<Rightarrow>
               (let s = s\<lparr> inners := (inners s)[a := inner] \<rparr>;
                    s = (if rmid inner \<and> attach_count inner = 0
                         then s\<lparr> SHM_MANAGER := remove_shmid i (SHM_MANAGER s) \<rparr> else s)
                in clear_shmids e pid ids s)))"

definition clear_proc_shm :: "shm_env \<Rightarrow> u32 \<Rightarrow> shm_state \<Rightarrow> shm_state may_panic" where
  "clear_proc_shm e pid s =
     (case (case get_shmids_by_pid pid (SHM_MANAGER s) of
              Some shmids \<Rightarrow> clear_shmids e pid shmids s
            | None \<Rightarrow> Returns s) of
        Panic \<Rightarrow> Panic
      | Returns s \<Rightarrow> Returns (s\<lparr> SHM_MANAGER := remove_pid pid (SHM_MANAGER s) \<rparr>))"

section \<open>System calls\<close>

definition shmget_flags :: "u64 \<Rightarrow> MappingFlags" where
  "shmget_flags shmflg =
     \<lparr> USER = True, READ = (shmflg AND 0x100 \<noteq> 0), WRITE = (shmflg AND 0x80 \<noteq> 0),
       EXECUTE = (shmflg AND 0x40 \<noteq> 0) \<rparr>"

definition sys_shmget ::
    "shm_env \<Rightarrow> u32 \<Rightarrow> int \<Rightarrow> u64 \<Rightarrow> u64 \<Rightarrow> shm_state \<Rightarrow> int ax_result \<times> shm_state" where
  "sys_shmget e cur_pid k sz shmflg s =
     (if align_up_4k e sz div PAGE_SIZE_4K = 0 then (Inl InvalidInput, s)
      else
        (let flags = shmget_flags shmflg; m = SHM_MANAGER s
         in case (if k \<noteq> IPC_PRIVATE then get_shmid_by_key k m else None) of
              Some i \<Rightarrow>
                (case get_inner_by_shmid i m of
                   None \<Rightarrow> (Inl InvalidInput, s)
                 | Some a \<Rightarrow>
                     (case try_update e sz flags cur_pid (inners s ! a) of (r, inner) \<Rightarrow>
                        (r, s\<lparr> inners := (inners s)[a := inner] \<rparr>)))
            | None \<Rightarrow>
                (let (i, next) = next_ipc_id (SHM_IPC_ID s)
                 in (Inr i, s\<lparr> SHM_IPC_ID := next, inners := inners s @ [ShmInner_new e k i sz flags cur_pid],
                       SHM_MANAGER := insert_shmid_inner i (length (inners s)) (insert_key_shmid k i m) \<rparr>))))"

definition SHM_RDONLY :: u32 where "SHM_RDONLY = 0x1000"

text \<open>Mapping the range to the pages of the segment, which the first attachment allocates.\<close>

definition shmat_map ::
    "shm_env \<Rightarrow> u64 \<Rightarrow> u64 \<Rightarrow> MappingFlags \<Rightarrow> ShmInner \<Rightarrow> shm_state \<Rightarrow> ShmInner ax_result \<times> shm_state" where
  "shmat_map e start_addr len flags inner s =
     (case phys_pages inner of
        Some pages \<Rightarrow>
          (case aspace_map e start_addr len flags pages of
             Some err \<Rightarrow> (Inl err, s)
           | None \<Rightarrow> (Inr inner, s))
      | None \<Rightarrow>
          (case new_pages e len of
             Some err \<Rightarrow> (Inl err, s)
           | None \<Rightarrow>
               (case aspace_map e start_addr len flags (next_pages s) of
                  Some err \<Rightarrow> (Inl err, s)
                | None \<Rightarrow> (Inr (map_to_phys (next_pages s) inner), s\<lparr> next_pages := next_pages s + 1 \<rparr>))))"

text \<open>
  \<open>shmat\<close> after the segment was looked up: under its lock, the address space's and, from the
  first change on, the manager's.
\<close>

definition shmat_locked ::
    "shm_env \<Rightarrow> u32 \<Rightarrow> u64 \<Rightarrow> u32 \<Rightarrow> nat \<Rightarrow> shm_state \<Rightarrow> (u64 ax_result \<times> shm_state) may_panic" where
  "shmat_locked e pid addr shmflg a s =
     (let inner = inners s ! a;
          flags = (if shmflg AND SHM_RDONLY \<noteq> 0 then (mapping_flags inner)\<lparr> WRITE := False \<rparr>
                   else mapping_flags inner);
          len = page_num inner * PAGE_SIZE_4K
      in if get_addr_range pid inner \<noteq> None then Panic
         else
           (case (case find_free_area e (align_down_4k e addr) len of
                    Some v \<Rightarrow> Some v
                  | None \<Rightarrow> find_free_area e (aspace_base e) len) of
              None \<Rightarrow> Returns (Inl NoMemory, s)
            | Some start_addr \<Rightarrow>
                (let end_addr = start_addr + len in
                 if start_addr > end_addr then Panic
                 else
                   (let s = s\<lparr> SHM_MANAGER := insert_shmid_vaddr pid (shmid inner) start_addr (SHM_MANAGER s) \<rparr>
                    in case shmat_map e start_addr len flags inner s of
                         (Inl err, s) \<Rightarrow> Returns (Inl err, s)
                       | (Inr inner, s) \<Rightarrow>
                           (case attach_process e pid (start_addr, end_addr) inner of
                              Panic \<Rightarrow> Panic
                            | Returns inner \<Rightarrow>
                                Returns (Inr start_addr, s\<lparr> inners := (inners s)[a := inner] \<rparr>))))))"

definition sys_shmat ::
    "shm_env \<Rightarrow> u32 \<Rightarrow> int \<Rightarrow> u64 \<Rightarrow> u32 \<Rightarrow> shm_state \<Rightarrow> (u64 ax_result \<times> shm_state) may_panic" where
  "sys_shmat e pid i addr shmflg s =
     (case get_inner_by_shmid i (SHM_MANAGER s) of
        None \<Rightarrow> Panic
      | Some a \<Rightarrow> shmat_locked e pid addr shmflg a s)"

text \<open>\<open>shmctl\<close>: the result, the state and what it wrote to the user's buffer.\<close>

definition sys_shmctl ::
    "shm_env \<Rightarrow> int \<Rightarrow> int \<Rightarrow> shm_state \<Rightarrow> int ax_result \<times> shm_state \<times> ShmidDs option" where
  "sys_shmctl e i cmd s =
     (case get_inner_by_shmid i (SHM_MANAGER s) of
        None \<Rightarrow> (Inl InvalidInput, s, None)
      | Some a \<Rightarrow>
          (let inner = inners s ! a;
               done = (\<lambda>inner w. (Inr 0, s\<lparr> inners := (inners s)[a :=
                         inner\<lparr> shmid_ds := (shmid_ds inner)\<lparr> shm_ctime := shm_now e \<rparr>\<rparr>] \<rparr>, w))
           in if cmd = IPC_SET then
                (case buf_get e of
                   Inl err \<Rightarrow> (Inl err, s, None)
                 | Inr ds \<Rightarrow> done (inner\<lparr> shmid_ds := ds \<rparr>) None)
              else if cmd = IPC_STAT then
                (if buf_is_null e then done inner None
                 else (case buf_get e of
                         Inl err \<Rightarrow> (Inl err, s, None)
                       | Inr _ \<Rightarrow> done inner (Some (shmid_ds inner))))
              else if cmd = IPC_RMID then done (inner\<lparr> rmid := True \<rparr>) None
              else (Inl InvalidInput, s, None)))"

text \<open>\<open>shmdt\<close> after the two lookups, under the locks of the segment and the manager.\<close>

definition shmdt_locked ::
    "shm_env \<Rightarrow> u32 \<Rightarrow> u64 \<Rightarrow> int \<Rightarrow> nat \<Rightarrow> shm_state \<Rightarrow> (int ax_result \<times> shm_state) may_panic" where
  "shmdt_locked e pid shmaddr i a s =
     (case get_addr_range pid (inners s ! a) of
        None \<Rightarrow> Returns (Inl InvalidInput, s)
      | Some (start, end_addr) \<Rightarrow>
          (case aspace_unmap e start (end_addr - start) of
             Some err \<Rightarrow> Returns (Inl err, s)
           | None \<Rightarrow>
               (let m = remove_shmaddr pid shmaddr (SHM_MANAGER s) in
                case detach_process e pid (inners s ! a) of
                  Panic \<Rightarrow> Panic
                | Returns inner \<Rightarrow>
                    (let m = (if rmid inner \<and> attach_count inner = 0 then remove_shmid i m else m)
                     in Returns (Inr 0, s\<lparr> SHM_MANAGER := m, inners := (inners s)[a := inner] \<rparr>)))))"

definition sys_shmdt :: "shm_env \<Rightarrow> u32 \<Rightarrow> u64 \<Rightarrow> shm_state \<Rightarrow> (int ax_result \<times> shm_state) may_panic" where
  "sys_shmdt e pid shmaddr s =
     (case get_shmid_by_vaddr pid shmaddr (SHM_MANAGER s) of
        None \<Rightarrow> Returns (Inl InvalidInput, s)
      | Some i \<Rightarrow>
          (case get_inner_by_shmid i (SHM_MANAGER s) of
             None \<Rightarrow> Returns (Inl InvalidInput, s)
           | Some a \<Rightarrow> shmdt_locked e pid shmaddr i a s))"

section \<open>The maps of the manager\<close>

definition maps_ok :: "ShmManager \<Rightarrow> bool" where
  "maps_ok m \<longleftrightarrow> bi_invar (key_shmid m) \<and> bt_invar (shmid_inner m) \<and> bt_invar (pid_shmid_vaddr m)
     \<and> (\<forall>(pid, b) \<in> set (pid_shmid_vaddr m). bi_invar b)"

lemma maps_okD:
  assumes "maps_ok m"
  shows "bi_invar (key_shmid m)" "bt_invar (shmid_inner m)" "bt_invar (pid_shmid_vaddr m)"
    "bt_get (pid_shmid_vaddr m) pid = Some b \<Longrightarrow> bi_invar b"
  using assms by (auto simp: maps_ok_def bt_get_entries)

lemma maps_okI:
  assumes "bi_invar (key_shmid m)" "bt_invar (shmid_inner m)" "bt_invar (pid_shmid_vaddr m)"
    "\<And>pid b. bt_get (pid_shmid_vaddr m) pid = Some b \<Longrightarrow> bi_invar b"
  shows "maps_ok m"
  using assms by (auto simp: maps_ok_def bt_get_entries)

lemma maps_ok_new: "maps_ok ShmManager_new"
  by (simp add: maps_ok_def ShmManager_new_def bi.invar_new bt_empty_def)

lemma insert_shmid_vaddr_maps:
  assumes "maps_ok m"
  shows "maps_ok (insert_shmid_vaddr pid i v m)"
    "key_shmid (insert_shmid_vaddr pid i v m) = key_shmid m"
    "shmid_inner (insert_shmid_vaddr pid i v m) = shmid_inner m"
    "find_vaddr_by_shmid pid' i' (insert_shmid_vaddr pid i v m) =
       (if pid' \<noteq> pid then find_vaddr_by_shmid pid' i' m
        else if i' = i then Some v
        else if find_vaddr_by_shmid pid i' m = Some v then None else find_vaddr_by_shmid pid i' m)"
proof -
  define b where "b = (case bt_get (pid_shmid_vaddr m) pid of Some b \<Rightarrow> b | None \<Rightarrow> bi_new)"
  have b: "bi_invar b" using maps_okD(4) [OF assms] by (auto simp: b_def bi.invar_new split: option.splits)
  have g: "get_by_key i' b = find_vaddr_by_shmid pid i' m" for i'
    by (auto simp: b_def find_vaddr_by_shmid_def bi.new_empty split: option.splits)
  have ins: "insert_shmid_vaddr pid i v m = m\<lparr> pid_shmid_vaddr := bt_insert pid (bi_insert i v b) (pid_shmid_vaddr m) \<rparr>"
    by (simp add: insert_shmid_vaddr_def b_def)
  show "maps_ok (insert_shmid_vaddr pid i v m)"
    by (rule maps_okI) (use maps_okD [OF assms] b in \<open>auto simp: ins bt_invar_insert bt_get_insert bi.invar_insert split: if_splits\<close>)
  show "find_vaddr_by_shmid pid' i' (insert_shmid_vaddr pid i v m) =
       (if pid' \<noteq> pid then find_vaddr_by_shmid pid' i' m
        else if i' = i then Some v
        else if find_vaddr_by_shmid pid i' m = Some v then None else find_vaddr_by_shmid pid i' m)"
    by (simp add: ins bi.key_insert [OF b] find_vaddr_by_shmid_def bt_get_insert
        g [unfolded find_vaddr_by_shmid_def])
qed (simp_all add: insert_shmid_vaddr_def Let_def)

lemma remove_pid_maps:
  assumes "maps_ok m"
  shows "maps_ok (remove_pid pid m)" "key_shmid (remove_pid pid m) = key_shmid m"
    "shmid_inner (remove_pid pid m) = shmid_inner m"
    "find_vaddr_by_shmid pid' i (remove_pid pid m) = (if pid' = pid then None else find_vaddr_by_shmid pid' i m)"
proof -
  show "maps_ok (remove_pid pid m)"
    by (rule maps_okI) (use maps_okD [OF assms] in
      \<open>auto simp: remove_pid_def bt_invar_remove bt_get_remove split: if_splits\<close>)
qed (simp_all add: remove_pid_def find_vaddr_by_shmid_def bt_get_remove)

lemma remove_shmid_maps:
  assumes "maps_ok m"
  shows "maps_ok (remove_shmid i m)"
    "get_shmid_by_key k (remove_shmid i m) = (if get_shmid_by_key k m = Some i then None else get_shmid_by_key k m)"
    "get_inner_by_shmid j (remove_shmid i m) = (if j = i then None else get_inner_by_shmid j m)"
    "find_vaddr_by_shmid pid j (remove_shmid i m) = find_vaddr_by_shmid pid j m"
proof -
  note d = bi.del_value [OF maps_okD(1) [OF assms] surjective_pairing, of i]
  show "maps_ok (remove_shmid i m)"
    by (rule maps_okI) (use maps_okD [OF assms] d in \<open>auto simp: remove_shmid_def bt_invar_remove\<close>)
  show "get_shmid_by_key k (remove_shmid i m) = (if get_shmid_by_key k m = Some i then None else get_shmid_by_key k m)"
    using d by (simp add: remove_shmid_def get_shmid_by_key_def)
qed (simp_all add: remove_shmid_def get_inner_by_shmid_def bt_get_remove find_vaddr_by_shmid_def)

lemma remove_shmaddr_maps:
  assumes "maps_ok m"
  shows "maps_ok (remove_shmaddr pid v m)" "key_shmid (remove_shmaddr pid v m) = key_shmid m"
    "shmid_inner (remove_shmaddr pid v m) = shmid_inner m"
    "find_vaddr_by_shmid pid' i (remove_shmaddr pid v m) =
       (if pid' = pid \<and> find_vaddr_by_shmid pid i m = Some v then None else find_vaddr_by_shmid pid' i m)"
proof -
  show "key_shmid (remove_shmaddr pid v m) = key_shmid m" "shmid_inner (remove_shmaddr pid v m) = shmid_inner m"
    by (simp_all add: remove_shmaddr_def Let_def split: option.splits)
  show "maps_ok (remove_shmaddr pid v m)"
    "find_vaddr_by_shmid pid' i (remove_shmaddr pid v m) =
       (if pid' = pid \<and> find_vaddr_by_shmid pid i m = Some v then None else find_vaddr_by_shmid pid' i m)"
  proof (atomize (full), cases "bt_get (pid_shmid_vaddr m) pid")
    case None
    then show "maps_ok (remove_shmaddr pid v m) \<and> find_vaddr_by_shmid pid' i (remove_shmaddr pid v m) =
       (if pid' = pid \<and> find_vaddr_by_shmid pid i m = Some v then None else find_vaddr_by_shmid pid' i m)"
      using assms by (simp add: remove_shmaddr_def find_vaddr_by_shmid_def)
  next
    case (Some b)
    define b' where "b' = snd (remove_by_value v b)"
    note d = bi.del_value [OF maps_okD(4) [OF assms Some] surjective_pairing, of v, folded b'_def]
    have e: "get_by_key i b' = None" if "forward b' = []" for i
      using that by (simp add: get_by_key_def bt_get_def)
    have r: "pid_shmid_vaddr (remove_shmaddr pid v m) =
        (if forward b' = [] then bt_remove pid (bt_insert pid b' (pid_shmid_vaddr m))
         else bt_insert pid b' (pid_shmid_vaddr m))"
      by (simp add: remove_shmaddr_def Some Let_def b'_def)
    have f: "find_vaddr_by_shmid pid' i (remove_shmaddr pid v m) =
       (if pid' = pid \<and> find_vaddr_by_shmid pid i m = Some v then None else find_vaddr_by_shmid pid' i m)"
      using d [of i] e [of i] by (auto simp: find_vaddr_by_shmid_def r bt_get_insert bt_get_remove Some)
    moreover have "maps_ok (remove_shmaddr pid v m)"
      by (rule maps_okI) (use maps_okD [OF assms] d in
        \<open>auto simp: \<open>key_shmid (remove_shmaddr pid v m) = key_shmid m\<close>
          \<open>shmid_inner (remove_shmaddr pid v m) = shmid_inner m\<close>
          r bt_invar_remove bt_invar_insert bt_get_insert bt_get_remove split: if_splits\<close>)
    ultimately show "maps_ok (remove_shmaddr pid v m) \<and> find_vaddr_by_shmid pid' i (remove_shmaddr pid v m) =
       (if pid' = pid \<and> find_vaddr_by_shmid pid i m = Some v then None else find_vaddr_by_shmid pid' i m)" by simp
  qed
qed

lemma get_shmid_by_vaddr_iff:
  "maps_ok m \<Longrightarrow> get_shmid_by_vaddr pid v m = Some i \<longleftrightarrow> find_vaddr_by_shmid pid i m = Some v"
  by (cases "bt_get (pid_shmid_vaddr m) pid")
    (simp_all add: get_shmid_by_vaddr_def find_vaddr_by_shmid_def bi.inverse maps_okD(4))

lemma get_shmids_by_pid_set:
  assumes "maps_ok m"
  shows "get_shmids_by_pid pid m = None \<Longrightarrow> find_vaddr_by_shmid pid i m = None"
    "get_shmids_by_pid pid m = Some ids \<Longrightarrow> distinct ids \<and> (i \<in> set ids \<longleftrightarrow> find_vaddr_by_shmid pid i m \<noteq> None)"
proof -
  show "get_shmids_by_pid pid m = None \<Longrightarrow> find_vaddr_by_shmid pid i m = None"
    by (simp add: get_shmids_by_pid_def find_vaddr_by_shmid_def)
  assume "get_shmids_by_pid pid m = Some ids"
  then obtain b where b: "bt_get (pid_shmid_vaddr m) pid = Some b" "ids = map fst (forward b)"
    by (auto simp: get_shmids_by_pid_def)
  note f = bi_invarD(1) [OF maps_okD(4) [OF assms b(1)]]
  have "distinct ids" using bt.entries_distinct [OF f] b(2) by simp
  moreover have "i \<in> set ids \<longleftrightarrow> find_vaddr_by_shmid pid i m \<noteq> None"
    using bt_get_entries [OF f, of i] by (force simp: b find_vaddr_by_shmid_def get_by_key_def)
  ultimately show "distinct ids \<and> (i \<in> set ids \<longleftrightarrow> find_vaddr_by_shmid pid i m \<noteq> None)" ..
qed

section \<open>Invariant\<close>

text \<open>
  Identifiers lead to segments that carry them, keys to identifiers in use, and a process has
  an address recorded for a segment exactly when it is attached to it there.  While a process
  is being detached this holds except for the pairs whose record is still to be dropped.
\<close>

definition shm_invar_except :: "(u32 \<times> int) set \<Rightarrow> shm_state \<Rightarrow> bool" where
  "shm_invar_except X s \<longleftrightarrow> maps_ok (SHM_MANAGER s)
     \<and> (\<forall>i a. get_inner_by_shmid i (SHM_MANAGER s) = Some a \<longrightarrow> a < length (inners s) \<and> shmid (inners s ! a) = i)
     \<and> (\<forall>k i. get_shmid_by_key k (SHM_MANAGER s) = Some i \<longrightarrow> get_inner_by_shmid i (SHM_MANAGER s) \<noteq> None)
     \<and> (\<forall>inner \<in> set (inners s). bt_invar (va_range inner)
          \<and> shm_nattch (shmid_ds inner) = of_nat (attach_count inner))
     \<and> (\<forall>pid i v. (pid, i) \<notin> X \<longrightarrow> find_vaddr_by_shmid pid i (SHM_MANAGER s) = Some v \<longrightarrow>
          get_inner_by_shmid i (SHM_MANAGER s) \<noteq> None)
     \<and> (\<forall>pid i a. get_inner_by_shmid i (SHM_MANAGER s) = Some a \<longrightarrow>
          map_option fst (get_addr_range pid (inners s ! a)) =
            (if (pid, i) \<in> X then None else find_vaddr_by_shmid pid i (SHM_MANAGER s)))"

definition shm_invar :: "shm_state \<Rightarrow> bool" where
  "shm_invar s = shm_invar_except {} s"

definition shm_boot :: shm_state where
  "shm_boot = \<lparr> SHM_IPC_ID = 0, SHM_MANAGER = ShmManager_new, inners = [], next_pages = 0 \<rparr>"

lemma shm_invar_boot: "shm_invar shm_boot"
  by (simp add: shm_invar_def shm_invar_except_def shm_boot_def maps_ok_new,
      simp add: ShmManager_new_def get_inner_by_shmid_def get_shmid_by_key_def find_vaddr_by_shmid_def
        bt_empty_def bt_get_def bi.new_empty)

lemma shm_exceptD:
  assumes "shm_invar_except X s"
  shows "maps_ok (SHM_MANAGER s)"
    "get_inner_by_shmid i (SHM_MANAGER s) = Some a \<Longrightarrow> a < length (inners s) \<and> shmid (inners s ! a) = i"
    "get_shmid_by_key k (SHM_MANAGER s) = Some i \<Longrightarrow> \<exists>a. get_inner_by_shmid i (SHM_MANAGER s) = Some a"
    "x \<in> set (inners s) \<Longrightarrow> bt_invar (va_range x) \<and> shm_nattch (shmid_ds x) = of_nat (attach_count x)"
    "find_vaddr_by_shmid pid i (SHM_MANAGER s) = Some v \<Longrightarrow> (pid, i) \<notin> X \<Longrightarrow>
       \<exists>a. get_inner_by_shmid i (SHM_MANAGER s) = Some a"
    "get_inner_by_shmid i (SHM_MANAGER s) = Some a \<Longrightarrow>
       map_option fst (get_addr_range pid (inners s ! a)) =
         (if (pid, i) \<in> X then None else find_vaddr_by_shmid pid i (SHM_MANAGER s))"
  using assms unfolding shm_invar_except_def not_None_eq by blast+

lemma shm_exceptI:
  assumes "maps_ok (SHM_MANAGER s)"
    "\<And>i a. get_inner_by_shmid i (SHM_MANAGER s) = Some a \<Longrightarrow> a < length (inners s) \<and> shmid (inners s ! a) = i"
    "\<And>k i. get_shmid_by_key k (SHM_MANAGER s) = Some i \<Longrightarrow> \<exists>a. get_inner_by_shmid i (SHM_MANAGER s) = Some a"
    "\<And>x. x \<in> set (inners s) \<Longrightarrow> bt_invar (va_range x) \<and> shm_nattch (shmid_ds x) = of_nat (attach_count x)"
    "\<And>pid i v. find_vaddr_by_shmid pid i (SHM_MANAGER s) = Some v \<Longrightarrow> (pid, i) \<notin> X \<Longrightarrow>
       \<exists>a. get_inner_by_shmid i (SHM_MANAGER s) = Some a"
    "\<And>pid i a. get_inner_by_shmid i (SHM_MANAGER s) = Some a \<Longrightarrow>
       map_option fst (get_addr_range pid (inners s ! a)) =
         (if (pid, i) \<in> X then None else find_vaddr_by_shmid pid i (SHM_MANAGER s))"
  shows "shm_invar_except X s"
  using assms unfolding shm_invar_except_def not_None_eq by blast

lemmas shm_invarD = shm_exceptD [where X = "{}", folded shm_invar_def, simplified]

text \<open>The segments after one of them was replaced.\<close>

lemma inners_update:
  assumes "x \<in> set (l[a := y])" "\<And>x. x \<in> set l \<Longrightarrow> P x" "P y"
  shows "P x"
  using assms set_update_subset_insert [of l a y] by auto

text \<open>A change of one segment's descriptor that keeps its identifier and attachments.\<close>

definition same_attach :: "ShmInner \<Rightarrow> ShmInner \<Rightarrow> bool" where
  "same_attach x y \<longleftrightarrow> shmid y = shmid x \<and> va_range y = va_range x
     \<and> shm_nattch (shmid_ds y) = shm_nattch (shmid_ds x)"

lemma shm_invar_same:
  assumes inv: "shm_invar s" and a: "a < length (inners s)" and same: "same_attach (inners s ! a) y"
  shows "shm_invar (s\<lparr> inners := (inners s)[a := y], next_pages := n \<rparr>)"
proof -
  have get: "get_addr_range pid ((inners s)[a := y] ! b) = get_addr_range pid (inners s ! b)" for pid b
    using same a by (cases "b = a") (auto simp: same_attach_def get_addr_range_def)
  have id: "shmid ((inners s)[a := y] ! b) = shmid (inners s ! b)" for b
    using same a by (cases "b = a") (auto simp: same_attach_def)
  have y: "bt_invar (va_range y) \<and> shm_nattch (shmid_ds y) = of_nat (attach_count y)"
    using shm_invarD(4) [OF inv nth_mem [OF a]] same by (simp add: same_attach_def attach_count_def)
  show ?thesis
    unfolding shm_invar_def
    by (rule shm_exceptI)
      (use shm_invarD [OF inv] y in \<open>auto simp: get id elim: inners_update\<close>)
qed

lemma length_bt_insert_absent: "bt_get m k = None \<Longrightarrow> length (bt_insert k v m) = Suc (length m)"
  by (induction k v m rule: bt_insert.induct) (auto simp: bt_get_def split: if_splits)

lemma length_bt_remove_present:
  assumes "bt_invar m" "bt_get m k \<noteq> None"
  shows "Suc (length (bt_remove k m)) = length m"
  using assms
proof (induction m)
  case (Cons p m)
  have rest: "bt_remove k m = m" if "k \<notin> fst ` set m"
    using that by (force simp: bt_remove_def filter_id_conv)
  show ?case
  proof (cases "fst p = k")
    case True
    with Cons(2) have "k \<notin> fst ` set m" by (cases p) (auto simp: bt_invar_Cons)
    with True rest show ?thesis by (cases p) (simp add: bt_remove_def)
  next
    case False
    with Cons show ?thesis by (cases p) (auto simp: bt_get_def bt_remove_def bt_invar_Cons)
  qed
qed (simp add: bt_get_def)

lemma shm_invar_attach:
  assumes inv: "shm_invar s" and reg: "get_inner_by_shmid i (SHM_MANAGER s) = Some a"
    and free: "get_addr_range pid (inners s ! a) = None" and fresh: "get_shmid_by_vaddr pid v (SHM_MANAGER s) = None"
    and y: "shmid y = i" "va_range y = bt_insert pid (v, w) (va_range (inners s ! a))"
      "shm_nattch (shmid_ds y) = shm_nattch (shmid_ds (inners s ! a)) + 1"
  shows "shm_invar (s\<lparr> SHM_MANAGER := insert_shmid_vaddr pid i v (SHM_MANAGER s),
    inners := (inners s)[a := y], next_pages := n \<rparr>)"
proof -
  note m = shm_invarD(1) [OF inv]
  note ins = insert_shmid_vaddr_maps [OF m, where pid = pid and i = i and v = v]
  have a: "a < length (inners s)" "shmid (inners s ! a) = i" using shm_invarD(2) [OF inv reg] by simp_all
  have look: "get_inner_by_shmid j (insert_shmid_vaddr pid i v (SHM_MANAGER s)) = get_inner_by_shmid j (SHM_MANAGER s)"
    "get_shmid_by_key k (insert_shmid_vaddr pid i v (SHM_MANAGER s)) = get_shmid_by_key k (SHM_MANAGER s)" for j k
    by (simp_all add: get_inner_by_shmid_def get_shmid_by_key_def ins)
  have nov: "find_vaddr_by_shmid pid j (SHM_MANAGER s) \<noteq> Some v" for j
    using fresh get_shmid_by_vaddr_iff [OF m, of pid v j] by simp
  have y_ok: "bt_invar (va_range y) \<and> shm_nattch (shmid_ds y) = of_nat (attach_count y)"
    using shm_invarD(4) [OF inv nth_mem [OF a(1)]] free
      length_bt_insert_absent [of "va_range (inners s ! a)" pid "(v, w)"]
    by (simp add: y attach_count_def get_addr_range_def bt_invar_insert)
  have range: "get_addr_range pid' ((inners s)[a := y] ! b) =
      (if b = a \<and> pid' = pid then Some (v, w) else get_addr_range pid' (inners s ! b))" for pid' b
    using a by (cases "b = a") (auto simp: get_addr_range_def y bt_get_insert)
  have id: "shmid ((inners s)[a := y] ! b) = shmid (inners s ! b)" for b
    using a y(1) by (cases "b = a") auto
  have rec: "map_option fst (get_addr_range pid' ((inners s)[a := y] ! b)) =
      find_vaddr_by_shmid pid' j (insert_shmid_vaddr pid i v (SHM_MANAGER s))"
    if "get_inner_by_shmid j (SHM_MANAGER s) = Some b" for pid' j b
  proof (cases "j = i")
    case True
    with that reg have "b = a" by simp
    then show ?thesis using shm_invarD(6) [OF inv reg] True by (simp add: ins range)
  next
    case False
    with that a shm_invarD(2) [OF inv that] have "b \<noteq> a" by auto
    moreover have "find_vaddr_by_shmid pid' j (insert_shmid_vaddr pid i v (SHM_MANAGER s)) =
        find_vaddr_by_shmid pid' j (SHM_MANAGER s)" using False nov by (simp add: ins)
    ultimately show ?thesis using shm_invarD(6) [OF inv that] by (simp add: range)
  qed
  show ?thesis
    unfolding shm_invar_def
    by (rule shm_exceptI)
      (use shm_invarD [OF inv] y_ok ins(1) rec reg in
        \<open>auto simp: look id ins(4) elim: inners_update split: if_splits\<close>)
qed

lemma detach_process_cases:
  assumes "get_addr_range pid x \<noteq> None"
  obtains y where "detach_process e pid x = Returns y" "shmid y = shmid x" "rmid y = rmid x"
    "phys_pages y = phys_pages x" "va_range y = bt_remove pid (va_range x)"
    "shm_nattch (shmid_ds y) = shm_nattch (shmid_ds x) - 1"
  using assms by (simp add: detach_process_def)

lemma shm_except_detach:
  assumes inv: "shm_invar_except X s" and reg: "get_inner_by_shmid i (SHM_MANAGER s) = Some a"
    and att: "get_addr_range pid (inners s ! a) \<noteq> None"
    and y: "shmid y = i" "va_range y = bt_remove pid (va_range (inners s ! a))"
      "shm_nattch (shmid_ds y) = shm_nattch (shmid_ds (inners s ! a)) - 1"
  shows "shm_invar_except (insert (pid, i) X) (s\<lparr> inners := (inners s)[a := y] \<rparr>)"
proof -
  have a: "a < length (inners s)" "shmid (inners s ! a) = i" using shm_exceptD(2) [OF inv reg] by simp_all
  have "Suc (length (bt_remove pid (va_range (inners s ! a)))) = length (va_range (inners s ! a))"
    by (rule length_bt_remove_present)
      (use shm_exceptD(4) [OF inv nth_mem [OF a(1)]] att in \<open>simp_all add: get_addr_range_def\<close>)
  then have len: "length (va_range (inners s ! a)) = Suc (length (bt_remove pid (va_range (inners s ! a))))" by simp
  have y_ok: "bt_invar (va_range y) \<and> shm_nattch (shmid_ds y) = of_nat (attach_count y)"
    using shm_exceptD(4) [OF inv nth_mem [OF a(1)]] by (simp add: y attach_count_def len bt_invar_remove)
  have range: "get_addr_range pid' ((inners s)[a := y] ! b) =
      (if b = a \<and> pid' = pid then None else get_addr_range pid' (inners s ! b))" for pid' b
    using a by (cases "b = a") (auto simp: get_addr_range_def y bt_get_remove)
  have id: "shmid ((inners s)[a := y] ! b) = shmid (inners s ! b)" for b
    using a y(1) by (cases "b = a") auto
  have rec: "map_option fst (get_addr_range pid' ((inners s)[a := y] ! b)) =
      (if (pid', j) \<in> insert (pid, i) X then None else find_vaddr_by_shmid pid' j (SHM_MANAGER s))"
    if "get_inner_by_shmid j (SHM_MANAGER s) = Some b" for pid' j b
  proof (cases "j = i")
    case True
    with that reg have "b = a" by simp
    then show ?thesis using shm_exceptD(6) [OF inv reg, of pid'] True by (auto simp: range)
  next
    case False
    with shm_exceptD(2) [OF inv that] a have "b \<noteq> a" by auto
    then show ?thesis using shm_exceptD(6) [OF inv that, of pid'] False by (auto simp: range)
  qed
  show ?thesis
    by (rule shm_exceptI)
      (use shm_exceptD(1-5) [OF inv] y_ok rec in \<open>auto simp: id elim: inners_update\<close>)
qed

text \<open>Dropping the records of the exceptions restores the invariant.\<close>

lemma shm_except_drop:
  assumes inv: "shm_invar_except X s" and m: "maps_ok m" "key_shmid m = key_shmid (SHM_MANAGER s)"
      "shmid_inner m = shmid_inner (SHM_MANAGER s)"
    and rec: "\<And>pid i. find_vaddr_by_shmid pid i m =
        (if (pid, i) \<in> X then None else find_vaddr_by_shmid pid i (SHM_MANAGER s))"
  shows "shm_invar (s\<lparr> SHM_MANAGER := m \<rparr>)"
proof -
  have look: "get_inner_by_shmid j m = get_inner_by_shmid j (SHM_MANAGER s)"
    "get_shmid_by_key k m = get_shmid_by_key k (SHM_MANAGER s)" for j k
    by (simp_all add: get_inner_by_shmid_def get_shmid_by_key_def m)
  show ?thesis
    unfolding shm_invar_def
    by (rule shm_exceptI) (use shm_exceptD [OF inv] m(1) in \<open>auto simp: look rec split: if_splits\<close>)
qed

lemma attach_count_0: "attach_count x = 0 \<Longrightarrow> get_addr_range pid x = None"
  by (simp add: attach_count_def get_addr_range_def bt_get_def)

lemma shm_except_remove:
  assumes inv: "shm_invar_except X s"
    and none: "\<And>a. get_inner_by_shmid i (SHM_MANAGER s) = Some a \<Longrightarrow> attach_count (inners s ! a) = 0"
  shows "shm_invar_except X (s\<lparr> SHM_MANAGER := remove_shmid i (SHM_MANAGER s) \<rparr>)"
proof -
  note rm = remove_shmid_maps [OF shm_exceptD(1) [OF inv]]
  have gone: "find_vaddr_by_shmid pid i (SHM_MANAGER s) = None" if nX: "(pid, i) \<notin> X" for pid
  proof (cases "find_vaddr_by_shmid pid i (SHM_MANAGER s)")
    case (Some v)
    then obtain a where a: "get_inner_by_shmid i (SHM_MANAGER s) = Some a"
      using shm_exceptD(5) [OF inv Some nX] by blast
    from shm_exceptD(6) [OF inv a, of pid] attach_count_0 [OF none [OF a], of pid] nX show ?thesis by simp
  qed
  show ?thesis
  proof (rule shm_exceptI)
    fix pid j v
    assume "find_vaddr_by_shmid pid j (SHM_MANAGER (s\<lparr>SHM_MANAGER := remove_shmid i (SHM_MANAGER s)\<rparr>)) = Some v"
      and X: "(pid, j) \<notin> X"
    then have f: "find_vaddr_by_shmid pid j (SHM_MANAGER s) = Some v" by (simp add: rm)
    then have "j \<noteq> i" using gone X by force
    with shm_exceptD(5) [OF inv f X]
    show "\<exists>a. get_inner_by_shmid j (SHM_MANAGER (s\<lparr>SHM_MANAGER := remove_shmid i (SHM_MANAGER s)\<rparr>)) = Some a"
      by (simp add: rm)
  next
    fix pid j a
    assume "get_inner_by_shmid j (SHM_MANAGER (s\<lparr>SHM_MANAGER := remove_shmid i (SHM_MANAGER s)\<rparr>)) = Some a"
    then have "get_inner_by_shmid j (SHM_MANAGER s) = Some a" by (simp add: rm split: if_splits)
    from shm_exceptD(6) [OF inv this, of pid]
    show "map_option fst (get_addr_range pid (inners (s\<lparr>SHM_MANAGER := remove_shmid i (SHM_MANAGER s)\<rparr>) ! a)) =
        (if (pid, j) \<in> X then None
         else find_vaddr_by_shmid pid j (SHM_MANAGER (s\<lparr>SHM_MANAGER := remove_shmid i (SHM_MANAGER s)\<rparr>)))"
      by (simp add: rm)
  qed (use shm_exceptD(1-4) [OF inv] in \<open>auto simp: rm split: if_splits\<close>)
qed

text \<open>
  The exit loop: every segment of the list is detached, so that only the records of the
  process are left to drop.
\<close>

lemma clear_shmids_detaches:
  assumes "shm_invar_except ({pid} \<times> D) s" "distinct ids" "set ids \<inter> D = {}"
    "\<And>i. i \<in> set ids \<Longrightarrow> find_vaddr_by_shmid pid i (SHM_MANAGER s) \<noteq> None"
  shows "\<exists>s'. clear_shmids e pid ids s = Returns s' \<and> shm_invar_except ({pid} \<times> (D \<union> set ids)) s'
    \<and> (\<forall>p i. find_vaddr_by_shmid p i (SHM_MANAGER s') = find_vaddr_by_shmid p i (SHM_MANAGER s))"
  using assms
proof (induction e pid ids s arbitrary: D rule: clear_shmids.induct)
  case (2 e pid i ids s)
  from 2(3,5,6) obtain a where reg: "get_inner_by_shmid i (SHM_MANAGER s) = Some a"
    using shm_exceptD(5) [OF 2(3), of pid i] by force
  have att: "get_addr_range pid (inners s ! a) \<noteq> None"
    using shm_exceptD(6) [OF 2(3) reg, of pid] 2(5,6) by force
  obtain y where y: "detach_process e pid (inners s ! a) = Returns y" "shmid y = i"
    "va_range y = bt_remove pid (va_range (inners s ! a))"
    "shm_nattch (shmid_ds y) = shm_nattch (shmid_ds (inners s ! a)) - 1"
    using detach_process_cases [OF att, of e] shm_exceptD(2) [OF 2(3) reg] by metis
  define s1 where "s1 = s\<lparr> inners := (inners s)[a := y] \<rparr>"
  define s2 where "s2 = (if rmid y \<and> attach_count y = 0
      then s1\<lparr> SHM_MANAGER := remove_shmid i (SHM_MANAGER s1) \<rparr> else s1)"
  have ins: "insert (pid, i) ({pid} \<times> D) = {pid} \<times> insert i D" by auto
  have i1: "shm_invar_except ({pid} \<times> insert i D) s1"
    unfolding s1_def ins [symmetric] by (rule shm_except_detach [OF 2(3) reg att y(2-4)])
  have i2: "shm_invar_except ({pid} \<times> insert i D) s2"
    using shm_except_remove [OF i1, of i] i1 reg shm_exceptD(2) [OF 2(3) reg] by (auto simp: s2_def s1_def)
  have rec: "find_vaddr_by_shmid p j (SHM_MANAGER s2) = find_vaddr_by_shmid p j (SHM_MANAGER s)" for p j
    by (simp add: s2_def s1_def remove_shmid_maps(4) [OF shm_exceptD(1) [OF 2(3)]])
  have "\<exists>s'. clear_shmids e pid ids s2 = Returns s' \<and> shm_invar_except ({pid} \<times> (insert i D \<union> set ids)) s'
    \<and> (\<forall>p i. find_vaddr_by_shmid p i (SHM_MANAGER s') = find_vaddr_by_shmid p i (SHM_MANAGER s2))"
    unfolding s2_def s1_def
    by (rule 2(2) [OF reg y(1) refl refl i2 [unfolded s2_def s1_def]])
      (use 2(4-6) rec in \<open>auto simp: s2_def s1_def\<close>)
  moreover have "insert i D \<union> set ids = D \<union> set (i # ids)" by simp
  moreover have "clear_shmids e pid (i # ids) s = clear_shmids e pid ids s2"
    by (simp add: reg y(1) s2_def s1_def Let_def)
  ultimately show ?case using rec by (simp del: clear_shmids.simps)
qed simp

lemma clear_proc_shm_invar:
  assumes inv: "shm_invar s"
  shows "\<exists>s'. clear_proc_shm e pid s = Returns s' \<and> shm_invar s'
    \<and> (\<forall>p i. find_vaddr_by_shmid p i (SHM_MANAGER s') =
          (if p = pid then None else find_vaddr_by_shmid p i (SHM_MANAGER s)))"
proof -
  have "\<exists>D s1. (case get_shmids_by_pid pid (SHM_MANAGER s) of
              Some shmids \<Rightarrow> clear_shmids e pid shmids s | None \<Rightarrow> Returns s) = Returns s1
      \<and> shm_invar_except ({pid} \<times> D) s1
      \<and> (\<forall>i. find_vaddr_by_shmid pid i (SHM_MANAGER s) \<noteq> None \<longrightarrow> i \<in> D)
      \<and> (\<forall>p i. find_vaddr_by_shmid p i (SHM_MANAGER s1) = find_vaddr_by_shmid p i (SHM_MANAGER s))"
  proof (cases "get_shmids_by_pid pid (SHM_MANAGER s)")
    case None
    then show ?thesis
      using inv get_shmids_by_pid_set(1) [OF shm_invarD(1) [OF inv] None]
      by (intro exI [of _ "{}"] exI [of _ s]) (simp add: shm_invar_def)
  next
    case (Some ids)
    note ids = get_shmids_by_pid_set(2) [OF shm_invarD(1) [OF inv] Some]
    have "shm_invar_except ({pid} \<times> {}) s" using inv by (simp add: shm_invar_def)
    from clear_shmids_detaches [OF this, of ids e] ids Some show ?thesis by fastforce
  qed
  then obtain D s1 where s1: "(case get_shmids_by_pid pid (SHM_MANAGER s) of
              Some shmids \<Rightarrow> clear_shmids e pid shmids s | None \<Rightarrow> Returns s) = Returns s1"
    "shm_invar_except ({pid} \<times> D) s1" "\<And>i. find_vaddr_by_shmid pid i (SHM_MANAGER s) \<noteq> None \<Longrightarrow> i \<in> D"
    "\<And>p i. find_vaddr_by_shmid p i (SHM_MANAGER s1) = find_vaddr_by_shmid p i (SHM_MANAGER s)"
    by blast
  note rp = remove_pid_maps [OF shm_exceptD(1) [OF s1(2)]]
  have "shm_invar (s1\<lparr> SHM_MANAGER := remove_pid pid (SHM_MANAGER s1) \<rparr>)"
  proof (rule shm_except_drop [OF s1(2) rp(1-3)])
    fix p i
    have "i \<notin> D \<Longrightarrow> find_vaddr_by_shmid pid i (SHM_MANAGER s) = None" using s1(3) by blast
    then show "find_vaddr_by_shmid p i (remove_pid pid (SHM_MANAGER s1)) =
        (if (p, i) \<in> {pid} \<times> D then None else find_vaddr_by_shmid p i (SHM_MANAGER s1))"
      by (auto simp: rp s1(4))
  qed
  then show ?thesis by (simp add: clear_proc_shm_def s1(1,4) rp)
qed

end
