(* ===== verification/Shm_Run.thy ===== *)
theory Shm_Run
  imports Shm
begin

text \<open>
  The shared memory calls in sequence: under what is assumed of the address space, the records
  of the manager and the attachments of the segments agree after every call, an exiting
  process is detached from everything without a failing assertion, and no two segments share
  physical pages.  What happens outside those assumptions is shown at the end.
\<close>

section \<open>What is assumed of the address space\<close>

text \<open>
  \<open>map\<close> and the allocation of pages succeed; the area \<open>find_free_area\<close> returns is free, so it
  does not start where a segment of the process is attached.
\<close>

definition backed :: "shm_env \<Rightarrow> bool" where
  "backed e \<longleftrightarrow> (\<forall>l. new_pages e l = None) \<and> (\<forall>v l f p. aspace_map e v l f p = None)"

definition free_areas :: "shm_env \<Rightarrow> u32 \<Rightarrow> shm_state \<Rightarrow> bool" where
  "free_areas e pid s \<longleftrightarrow>
     (\<forall>h l v. find_free_area e h l = Some v \<longrightarrow> get_shmid_by_vaddr pid v (SHM_MANAGER s) = None)"

text \<open>A descriptor written back by \<open>IPC_SET\<close> has the attach count it was read with.\<close>

definition keeps_count :: "shm_env \<Rightarrow> int \<Rightarrow> shm_state \<Rightarrow> bool" where
  "keeps_count e i s \<longleftrightarrow>
     (\<forall>a ds. get_inner_by_shmid i (SHM_MANAGER s) = Some a \<longrightarrow> buf_get e = Inr ds \<longrightarrow>
        shm_nattch ds = shm_nattch (shmid_ds (inners s ! a)))"

inductive shm_step :: "shm_state \<Rightarrow> shm_state \<Rightarrow> bool" where
  get: "get_inner_by_shmid (SHM_IPC_ID s) (SHM_MANAGER s) = None \<Longrightarrow>
     sys_shmget e pid k sz shmflg s = (r, s') \<Longrightarrow> shm_step s s'"
| at: "backed e \<Longrightarrow> free_areas e pid s \<Longrightarrow>
     sys_shmat e pid i addr shmflg s = Returns (r', s') \<Longrightarrow> shm_step s s'"
| ctl: "(cmd = IPC_SET \<Longrightarrow> keeps_count e i s) \<Longrightarrow> sys_shmctl e i cmd s = (r, s', w) \<Longrightarrow> shm_step s s'"
| dt: "sys_shmdt e pid shmaddr s = Returns (r, s') \<Longrightarrow> shm_step s s'"
| exit: "clear_proc_shm e pid s = Returns s' \<Longrightarrow> shm_step s s'"
| other_id: "shm_step s (s\<lparr> SHM_IPC_ID := snd (next_ipc_id (SHM_IPC_ID s)) \<rparr>)"

section \<open>Every call keeps the invariant\<close>

lemma shm_invar_id: "shm_invar (s\<lparr> SHM_IPC_ID := n \<rparr>) = shm_invar s"
  by (simp add: shm_invar_def shm_invar_except_def)

lemma shm_invar_next: "shm_invar (s\<lparr> next_pages := n \<rparr>) = shm_invar s"
  by (simp add: shm_invar_def shm_invar_except_def)

lemma shm_invar_create:
  assumes inv: "shm_invar s" and fresh: "get_inner_by_shmid i (SHM_MANAGER s) = None"
    and x: "shmid x = i" "va_range x = []" "shm_nattch (shmid_ds x) = 0"
  shows "shm_invar (s\<lparr> SHM_IPC_ID := n, inners := inners s @ [x],
    SHM_MANAGER := insert_shmid_inner i (length (inners s)) (insert_key_shmid k i (SHM_MANAGER s)) \<rparr>)"
proof -
  let ?m = "insert_shmid_inner i (length (inners s)) (insert_key_shmid k i (SHM_MANAGER s))"
  note m = shm_invarD(1) [OF inv]
  have maps: "maps_ok ?m"
    by (rule maps_okI) (use maps_okD [OF m] in
      \<open>auto simp: insert_shmid_inner_def insert_key_shmid_def bi.invar_insert bt_invar_insert\<close>)
  have look: "get_inner_by_shmid j ?m = (if j = i then Some (length (inners s)) else get_inner_by_shmid j (SHM_MANAGER s))"
    "find_vaddr_by_shmid pid j ?m = find_vaddr_by_shmid pid j (SHM_MANAGER s)"
    "get_shmid_by_key k' ?m = (if k' = k then Some i else if get_shmid_by_key k' (SHM_MANAGER s) = Some i then None
       else get_shmid_by_key k' (SHM_MANAGER s))" for j pid k'
    by (simp_all add: get_inner_by_shmid_def find_vaddr_by_shmid_def get_shmid_by_key_def insert_shmid_inner_def
        insert_key_shmid_def bt_get_insert bi.key_insert [OF maps_okD(1) [OF m]])
  have none: "find_vaddr_by_shmid pid i (SHM_MANAGER s) = None" for pid
    using shm_invarD(5) [OF inv, of pid i] fresh by (cases "find_vaddr_by_shmid pid i (SHM_MANAGER s)") auto
  have x_ok: "get_addr_range pid x = None" "bt_invar (va_range x) \<and> shm_nattch (shmid_ds x) = of_nat (attach_count x)" for pid
    by (simp_all add: get_addr_range_def x bt_get_def attach_count_def)
  have el: "y \<in> set (inners s @ [x]) \<Longrightarrow> bt_invar (va_range y) \<and> shm_nattch (shmid_ds y) = of_nat (attach_count y)" for y
    using shm_invarD(4) [OF inv] x_ok(2) by auto
  have rec: "map_option fst (get_addr_range pid ((inners s @ [x]) ! a)) = find_vaddr_by_shmid pid j (SHM_MANAGER s)"
    if "get_inner_by_shmid j ?m = Some a" for pid j a
    using that shm_invarD(2,6) [OF inv] none x_ok(1) by (auto simp: look nth_append split: if_splits)
  show ?thesis
    unfolding shm_invar_def
    by (rule shm_exceptI)
      (use maps el rec shm_invarD(2,3,5) [OF inv] x(1) in \<open>auto simp: look nth_append split: if_splits\<close>)
qed

lemma sys_shmget_invar:
  assumes inv: "shm_invar s" and fresh: "get_inner_by_shmid (SHM_IPC_ID s) (SHM_MANAGER s) = None"
    and get: "sys_shmget e pid k sz shmflg s = (r, s')"
  shows "shm_invar s'"
proof -
  have upd: "shm_invar (s\<lparr> inners := (inners s)[a := y] \<rparr>)"
    if "get_inner_by_shmid i (SHM_MANAGER s) = Some a" "try_update e sz f pid (inners s ! a) = (r, y)" for i a f y
    using shm_invar_same [OF inv, of a y "next_pages s"] shm_invarD(2) [OF inv that(1)] that(2)
    by (auto simp: same_attach_def try_update_def split: if_splits)
  have new: "shm_invar (s\<lparr> SHM_IPC_ID := n, inners := inners s @ [ShmInner_new e k (SHM_IPC_ID s) sz f pid],
       SHM_MANAGER := insert_shmid_inner (SHM_IPC_ID s) (length (inners s)) (insert_key_shmid k (SHM_IPC_ID s) (SHM_MANAGER s)) \<rparr>)" for n f
    by (rule shm_invar_create [OF inv fresh]) (simp_all add: ShmInner_new_def ShmidDs_new_def bt_empty_def)
  show ?thesis
    using get upd new inv
    by (auto simp: sys_shmget_def Let_def next_ipc_id_def split: if_splits option.splits prod.splits)
qed

lemma sys_shmctl_invar:
  assumes inv: "shm_invar s" and keep: "cmd = IPC_SET \<Longrightarrow> keeps_count e i s"
    and ctl: "sys_shmctl e i cmd s = (r, s', w)"
  shows "shm_invar s'"
proof (cases "get_inner_by_shmid i (SHM_MANAGER s)")
  case None
  with ctl inv show ?thesis by (simp add: sys_shmctl_def)
next
  case (Some a)
  have upd: "shm_invar (s\<lparr> inners := (inners s)[a := y] \<rparr>)" if "same_attach (inners s ! a) y" for y
    using shm_invar_same [OF inv _ that, of "next_pages s"] shm_invarD(2) [OF inv Some] by simp
  show ?thesis
    using ctl keep Some inv
    by (auto simp: sys_shmctl_def Let_def same_attach_def keeps_count_def intro!: upd split: if_splits sum.splits)
qed

text \<open>What a successful attachment changes.\<close>

lemma shmat_locked_cases:
  assumes "shmat_locked e pid addr shmflg a s = Returns (r, s')"
  obtains (unmapped) err where "r = Inl err" "s' = s"
  | (failed) err v where "r = Inl err" "\<not> backed e"
      "s' = s\<lparr> SHM_MANAGER := insert_shmid_vaddr pid (shmid (inners s ! a)) v (SHM_MANAGER s) \<rparr>"
  | (attached) v w y where "r = Inr v" "get_addr_range pid (inners s ! a) = None"
      "\<exists>h l. find_free_area e h l = Some v"
      "shmid y = shmid (inners s ! a)" "va_range y = bt_insert pid (v, w) (va_range (inners s ! a))"
      "shm_nattch (shmid_ds y) = shm_nattch (shmid_ds (inners s ! a)) + 1" "rmid y = rmid (inners s ! a)"
      "phys_pages y = Some (case phys_pages (inners s ! a) of Some p \<Rightarrow> p | None \<Rightarrow> next_pages s)"
      "\<exists>f. aspace_map e v (page_num (inners s ! a) * PAGE_SIZE_4K) f (the (phys_pages y)) = None"
      "s' = s\<lparr> SHM_MANAGER := insert_shmid_vaddr pid (shmid (inners s ! a)) v (SHM_MANAGER s),
               inners := (inners s)[a := y],
               next_pages := (case phys_pages (inners s ! a) of Some _ \<Rightarrow> next_pages s | None \<Rightarrow> next_pages s + 1) \<rparr>"
proof -
  let ?x = "inners s ! a"
  let ?len = "page_num ?x * PAGE_SIZE_4K"
  define flags where "flags = (if shmflg AND SHM_RDONLY \<noteq> 0 then (mapping_flags ?x)\<lparr> WRITE := False \<rparr>
                   else mapping_flags ?x)"
  define area where "area = (case find_free_area e (align_down_4k e addr) ?len of
                    Some v \<Rightarrow> Some v | None \<Rightarrow> find_free_area e (aspace_base e) ?len)"
  have free: "get_addr_range pid ?x = None"
    using assms by (cases "get_addr_range pid ?x") (simp_all add: shmat_locked_def Let_def)
  show ?thesis
  proof (cases area)
    case None
    then have "r = Inl NoMemory" "s' = s"
      using assms free by (simp_all add: shmat_locked_def Let_def area_def)
    then show ?thesis by (rule unmapped)
  next
    case (Some v)
    define s1 where "s1 = s\<lparr> SHM_MANAGER := insert_shmid_vaddr pid (shmid ?x) v (SHM_MANAGER s) \<rparr>"
    have loc: "\<exists>h l. find_free_area e h l = Some v" using Some by (auto simp: area_def split: option.splits)
    have run: "(case shmat_map e v ?len flags ?x s1 of
         (Inl err, s) \<Rightarrow> Returns (Inl err, s)
       | (Inr inner, s) \<Rightarrow>
           (case attach_process e pid (v, v + ?len) inner of
              Panic \<Rightarrow> Panic
            | Returns inner \<Rightarrow> Returns (Inr v, s\<lparr> inners := (inners s)[a := inner] \<rparr>))) = Returns (r, s')"
      using assms free Some
      by (simp add: shmat_locked_def Let_def s1_def flags_def flip: area_def split: if_splits)
    obtain res s2 where map: "shmat_map e v ?len flags ?x s1 = (res, s2)" by fastforce
    show ?thesis
    proof (cases res)
      case (Inl err)
      have "s2 = s1" "\<not> backed e"
        using map Inl by (auto simp: shmat_map_def backed_def split: option.splits)
      with run map Inl show ?thesis by (intro failed [of err v]) (simp_all add: s1_def)
    next
      case (Inr y0)
      have y0: "get_addr_range pid y0 = None" "shmid y0 = shmid ?x" "va_range y0 = va_range ?x" "rmid y0 = rmid ?x"
        "shmid_ds y0 = shmid_ds ?x" "aspace_map e v ?len flags (the (phys_pages y0)) = None"
        "phys_pages y0 = Some (case phys_pages ?x of Some p \<Rightarrow> p | None \<Rightarrow> next_pages s)"
        "s2 = s1\<lparr> next_pages := (case phys_pages ?x of Some _ \<Rightarrow> next_pages s | None \<Rightarrow> next_pages s + 1) \<rparr>"
        using map Inr free
        by (auto simp: shmat_map_def map_to_phys_def get_addr_range_def s1_def split: option.splits)
      obtain y where y: "attach_process e pid (v, v + ?len) y0 = Returns y" using y0(1) by (simp add: attach_process_def)
      show ?thesis
        by (rule attached [of v y "v + ?len"])
          (use y y0 free loc run map Inr in \<open>auto simp: attach_process_def s1_def\<close>)
    qed
  qed
qed

lemma sys_shmat_invar:
  assumes inv: "shm_invar s" and e: "backed e" "free_areas e pid s"
    and at: "sys_shmat e pid i addr shmflg s = Returns (r, s')"
  shows "shm_invar s'"
proof -
  from at obtain a where reg: "get_inner_by_shmid i (SHM_MANAGER s) = Some a"
    and l: "shmat_locked e pid addr shmflg a s = Returns (r, s')"
    by (auto simp: sys_shmat_def split: option.splits)
  have id: "shmid (inners s ! a) = i" using shm_invarD(2) [OF inv reg] by simp
  from l show ?thesis
  proof (cases rule: shmat_locked_cases)
    case (attached v w y)
    have "get_shmid_by_vaddr pid v (SHM_MANAGER s) = None"
      using attached(3) e(2) by (auto simp: free_areas_def)
    from shm_invar_attach [OF inv reg attached(2) this _ attached(5,6)] attached(4) id
    show ?thesis by (simp add: attached(10))
  qed (use inv e in simp_all)
qed

text \<open>What \<open>shmdt\<close> of an attached address does.\<close>

lemma sys_shmdt_cases:
  assumes inv: "shm_invar s" and dt: "sys_shmdt e pid v s = out"
  obtains (error) err where "out = Returns (Inl err, s)"
  | (detached) i a w y m where "find_vaddr_by_shmid pid i (SHM_MANAGER s) = Some v"
      "get_inner_by_shmid i (SHM_MANAGER s) = Some a" "get_addr_range pid (inners s ! a) = Some (v, w)"
      "aspace_unmap e v (w - v) = None" "detach_process e pid (inners s ! a) = Returns y"
      "m = remove_shmaddr pid v (SHM_MANAGER s)"
      "out = Returns (Inr 0, s\<lparr> SHM_MANAGER := (if rmid y \<and> attach_count y = 0 then remove_shmid i m else m),
        inners := (inners s)[a := y] \<rparr>)"
proof (cases "get_shmid_by_vaddr pid v (SHM_MANAGER s)")
  case None
  with dt show ?thesis by (auto simp: sys_shmdt_def intro: error)
next
  case (Some i)
  then have rec: "find_vaddr_by_shmid pid i (SHM_MANAGER s) = Some v"
    using get_shmid_by_vaddr_iff [OF shm_invarD(1) [OF inv]] by simp
  then obtain a where reg: "get_inner_by_shmid i (SHM_MANAGER s) = Some a" using shm_invarD(5) [OF inv] by blast
  obtain w where at: "get_addr_range pid (inners s ! a) = Some (v, w)"
    using shm_invarD(6) [OF inv reg, of pid] rec by auto
  obtain y where y: "detach_process e pid (inners s ! a) = Returns y"
    using detach_process_cases [of pid "inners s ! a" e] at by auto
  show ?thesis
  proof (cases "aspace_unmap e v (w - v)")
    case None
    show ?thesis
      by (rule detached [OF rec reg at None y refl])
        (use dt Some reg at None y in \<open>simp add: sys_shmdt_def shmdt_locked_def Let_def\<close>)
  next
    case (Some err)
    with dt \<open>get_shmid_by_vaddr pid v (SHM_MANAGER s) = Some i\<close> reg at show ?thesis
      by (auto simp: sys_shmdt_def shmdt_locked_def intro: error)
  qed
qed

lemma sys_shmdt_invar:
  assumes inv: "shm_invar s" and dt: "sys_shmdt e pid v s = Returns (r, s')"
  shows "shm_invar s'"
  using inv dt
proof (cases rule: sys_shmdt_cases)
  case (detached i a w y m)
  note maps = remove_shmaddr_maps [OF shm_invarD(1) [OF inv], where pid = pid and v = v]
  have id: "shmid (inners s ! a) = i" "a < length (inners s)" using shm_invarD(2) [OF inv detached(2)] by simp_all
  have att: "get_addr_range pid (inners s ! a) \<noteq> None" using detached(3) by simp
  have y: "shmid y = i" "va_range y = bt_remove pid (va_range (inners s ! a))"
    "shm_nattch (shmid_ds y) = shm_nattch (shmid_ds (inners s ! a)) - 1"
    using detached(5) att id by (auto simp: detach_process_def)
  have uniq: "j = i" if "find_vaddr_by_shmid pid j (SHM_MANAGER s) = Some v" for j
    using that detached(1) get_shmid_by_vaddr_iff [OF shm_invarD(1) [OF inv], of pid v]
    by (metis option.inject)
  have i1: "shm_invar_except {(pid, i)} (s\<lparr> inners := (inners s)[a := y] \<rparr>)"
    using shm_except_detach [OF inv [unfolded shm_invar_def] detached(2) att y] by simp
  have swap: "s\<lparr> inners := x, SHM_MANAGER := z \<rparr> = s\<lparr> SHM_MANAGER := z, inners := x \<rparr>" for x z
    by simp
  have "shm_invar (s\<lparr> inners := (inners s)[a := y], SHM_MANAGER := m \<rparr>)"
  proof (rule shm_except_drop [OF i1])
    show "find_vaddr_by_shmid p j m = (if (p, j) \<in> {(pid, i)} then None
        else find_vaddr_by_shmid p j (SHM_MANAGER (s\<lparr> inners := (inners s)[a := y] \<rparr>)))" for p j
    proof -
      have "(p = pid \<and> find_vaddr_by_shmid pid j (SHM_MANAGER s) = Some v) = (p = pid \<and> j = i)"
        using detached(1) uniq by blast
      then show ?thesis by (simp add: detached(6) maps(4))
    qed
  qed (simp_all add: detached(6) maps)
  then have i2: "shm_invar (s\<lparr> SHM_MANAGER := m, inners := (inners s)[a := y] \<rparr>)" by (simp only: swap)
  have reg: "get_inner_by_shmid i m = Some a"
    using detached(2) by (simp add: detached(6) get_inner_by_shmid_def maps)
  show ?thesis
  proof (cases "rmid y \<and> attach_count y = 0")
    case True
    have "shm_invar (s\<lparr> SHM_MANAGER := m, inners := (inners s)[a := y], SHM_MANAGER := remove_shmid i m \<rparr>)"
      using shm_except_remove [OF i2 [unfolded shm_invar_def], of i] True reg id(2)
      by (simp add: shm_invar_def)
    moreover have "s' = s\<lparr> SHM_MANAGER := m, inners := (inners s)[a := y], SHM_MANAGER := remove_shmid i m \<rparr>"
      using detached(7) True by simp
    ultimately show ?thesis by simp
  next
    case False
    with detached(7) have "s' = s\<lparr> SHM_MANAGER := m, inners := (inners s)[a := y] \<rparr>" by simp
    with i2 show ?thesis by simp
  qed
qed (use inv in simp)

lemma shm_step_invar: "shm_step s s' \<Longrightarrow> shm_invar s \<Longrightarrow> shm_invar s'"
proof (induction rule: shm_step.induct)
  case (exit e pid s s')
  then show ?case using clear_proc_shm_invar [OF exit(2), of e pid] by auto
qed (auto simp: shm_invar_id intro: sys_shmget_invar sys_shmat_invar sys_shmctl_invar sys_shmdt_invar)

lemma shm_reachable_invar: "shm_step\<^sup>*\<^sup>* shm_boot s \<Longrightarrow> shm_invar s"
  by (induction rule: rtranclp_induct) (auto intro: shm_invar_boot shm_step_invar)

section \<open>Pages\<close>










section \<open>A run\<close>

text \<open>An address space that has room at the addresses the hints name.\<close>

definition roomy :: shm_env where
  "roomy =
     \<lparr> align_up_4k = (\<lambda>x. (x + 0xFFF) AND NOT 0xFFF), align_down_4k = (\<lambda>x. x AND NOT 0xFFF),
       flag_bits = (\<lambda>f. (if READ f then 1 else 0) + (if WRITE f then 2 else 0)),
       aspace_base = 0x1000, find_free_area = (\<lambda>h l. Some h), new_pages = (\<lambda>_. None),
       aspace_map = (\<lambda>_ _ _ _. None), aspace_unmap = (\<lambda>_ _. None),
       buf_is_null = True, buf_get = Inl BadAddress, shm_now = 9 \<rparr>"

definition returned :: "'a may_panic \<Rightarrow> 'a" where
  "returned x = (case x of Returns y \<Rightarrow> y | Panic \<Rightarrow> undefined)"

definition run_created :: shm_state where
  "run_created = snd (sys_shmget roomy 4 77 0x2000 0x180 shm_boot)"

definition run_attached :: shm_state where
  "run_attached = snd (returned (sys_shmat roomy 5 0 0x40000 0 (snd (returned (sys_shmat roomy 4 0 0x30000 0 run_created)))))"

lemmas shm_eval = run_created_def run_attached_def returned_def roomy_def shm_boot_def ShmManager_new_def
  sys_shmget_def sys_shmat_def shmat_locked_def shmat_map_def attach_process_def sys_shmdt_def shmdt_locked_def
  detach_process_def sys_shmctl_def PAGE_SIZE_4K_def SHM_RDONLY_def shmget_flags_def ipc_consts next_ipc_id_def
  get_shmid_by_key_def get_inner_by_shmid_def get_shmid_by_vaddr_def find_vaddr_by_shmid_def get_by_key_def
  get_by_value_def insert_key_shmid_def insert_shmid_inner_def insert_shmid_vaddr_def bi_new_def bi_insert_def
  bt_empty_def bt_get_def ShmInner_new_def ShmidDs_new_def map_to_phys_def get_addr_range_def Let_def
  attach_count_def clear_proc_shm_def get_shmids_by_pid_def remove_shmaddr_def remove_by_value_def bt_remove_def
  remove_shmid_def remove_pid_def

lemma run_attached_state:
  "get_inner_by_shmid 0 (SHM_MANAGER run_attached) = Some 0"
  "find_vaddr_by_shmid 4 0 (SHM_MANAGER run_attached) = Some 0x30000"
  "find_vaddr_by_shmid 5 0 (SHM_MANAGER run_attached) = Some 0x40000"
  by (simp_all add: shm_eval)

lemma run_created_reachable: "shm_step\<^sup>*\<^sup>* shm_boot run_created"
  unfolding run_created_def
  by (rule r_into_rtranclp, rule shm_step.get [OF _ surjective_pairing]) (simp add: shm_eval)

lemma run_attached_reachable: "shm_step\<^sup>*\<^sup>* shm_boot run_attached"
proof -
  define s1 where "s1 = snd (returned (sys_shmat roomy 4 0 0x30000 0 run_created))"
  have e: "backed roomy" by (simp add: backed_def roomy_def)
  have f1: "free_areas roomy 4 run_created" by (simp add: free_areas_def shm_eval)
  obtain r1 where r1: "sys_shmat roomy 4 0 0x30000 0 run_created = Returns (r1, s1)"
    by (simp add: s1_def shm_eval)
  have f2: "free_areas roomy 5 s1" by (simp add: s1_def free_areas_def shm_eval)
  obtain r2 where r2: "sys_shmat roomy 5 0 0x40000 0 s1 = Returns (r2, run_attached)"
    by (simp add: s1_def shm_eval)
  show ?thesis
    using run_created_reachable shm_step.at [OF e f1 r1] shm_step.at [OF e f2 r2]
    by (meson rtranclp.rtrancl_into_rtrancl)
qed

section \<open>Properties\<close>





lemma bt_remove_absent: "bt_get m k = None \<Longrightarrow> bt_remove k m = m"
  by (induction m) (auto simp: bt_get_def bt_remove_def split: if_splits)

lemma bt_remove_insert_absent: "bt_get m k = None \<Longrightarrow> bt_remove k (bt_insert k v m) = m"
proof (induction k v m rule: bt_insert.induct)
  case (2 k v a b m)
  then have "k \<noteq> a" "bt_get m k = None" by (auto simp: bt_get_def split: if_splits)
  with 2 bt_remove_absent [of m k] show ?case by (simp add: bt_remove_def)
qed (simp add: bt_remove_def)

text \<open>The state after a successful \<open>shmat\<close>.\<close>

lemma attached_state:
  assumes inv: "shm_invar s" and reg: "get_inner_by_shmid i (SHM_MANAGER s) = Some a"
    and e: "backed e" "free_areas e pid s"
    and at: "sys_shmat e pid i addr shmflg s = Returns (Inr v, s1)"
  obtains w y where "get_addr_range pid (inners s ! a) = None"
    "va_range y = bt_insert pid (v, w) (va_range (inners s ! a))" "rmid y = rmid (inners s ! a)"
    "inners s1 = (inners s)[a := y]" "a < length (inners s)" "shm_invar s1"
    "get_inner_by_shmid i (SHM_MANAGER s1) = Some a"
    "\<And>p j. find_vaddr_by_shmid p j (SHM_MANAGER s1) =
       (if p = pid \<and> j = i then Some v else find_vaddr_by_shmid p j (SHM_MANAGER s))"
    "\<And>j. find_vaddr_by_shmid pid j (SHM_MANAGER s) \<noteq> Some v"
    "find_vaddr_by_shmid pid i (SHM_MANAGER s) = None"
proof -
  have a: "a < length (inners s)" "shmid (inners s ! a) = i" using shm_invarD(2) [OF inv reg] by simp_all
  note ins = insert_shmid_vaddr_maps [OF shm_invarD(1) [OF inv], where pid = pid and i = i and v = v]
  from at reg have l: "shmat_locked e pid addr shmflg a s = Returns (Inr v, s1)" by (simp add: sys_shmat_def)
  then obtain w y where y: "get_addr_range pid (inners s ! a) = None" "\<exists>h l. find_free_area e h l = Some v"
    "va_range y = bt_insert pid (v, w) (va_range (inners s ! a))" "rmid y = rmid (inners s ! a)"
    "SHM_MANAGER s1 = insert_shmid_vaddr pid i v (SHM_MANAGER s)" "inners s1 = (inners s)[a := y]"
    by (cases rule: shmat_locked_cases) (auto simp: a)
  have fresh: "find_vaddr_by_shmid pid j (SHM_MANAGER s) \<noteq> Some v" for j
    using y(2) e(2) get_shmid_by_vaddr_iff [OF shm_invarD(1) [OF inv], of pid v j] by (auto simp: free_areas_def)
  have none: "find_vaddr_by_shmid pid i (SHM_MANAGER s) = None"
    using shm_invarD(6) [OF inv reg, of pid] y(1) by simp
  have reg1: "get_inner_by_shmid i (SHM_MANAGER s1) = Some a"
    using reg by (simp add: y(5) get_inner_by_shmid_def ins)
  have rec: "find_vaddr_by_shmid p j (SHM_MANAGER s1) =
       (if p = pid \<and> j = i then Some v else find_vaddr_by_shmid p j (SHM_MANAGER s))" for p j
    using fresh by (simp add: y(5) ins)
  show ?thesis by (rule that [OF y(1,3,4,6) a(1) sys_shmat_invar [OF inv e at] reg1 rec fresh none])
qed

text \<open>
  C16: Detaching undoes attaching: after a successful \<open>shmat\<close> the address it returned can be
  detached, the segment then has the attachments it had before and every process the records
  it had, and the segment is gone exactly when it was marked for removal and nobody else was
  attached.
\<close>

theorem shm_attach_detach:
  assumes reach: "shm_step\<^sup>*\<^sup>* shm_boot s" and reg: "get_inner_by_shmid i (SHM_MANAGER s) = Some a"
    and e: "backed e" "free_areas e pid s"
    and at: "sys_shmat e pid i addr shmflg s = Returns (Inr v, s1)"
    and unmap: "\<And>x y. aspace_unmap e' x y = None"
  shows "\<exists>s2. sys_shmdt e' pid v s1 = Returns (Inr 0, s2)
    \<and> va_range (inners s2 ! a) = va_range (inners s ! a)
    \<and> (\<forall>p j. find_vaddr_by_shmid p j (SHM_MANAGER s2) = find_vaddr_by_shmid p j (SHM_MANAGER s))
    \<and> (get_inner_by_shmid i (SHM_MANAGER s2) = None \<longleftrightarrow>
         rmid (inners s ! a) \<and> attach_count (inners s ! a) = 0)"
proof -
  note inv = shm_reachable_invar [OF reach]
  obtain w y where y: "get_addr_range pid (inners s ! a) = None"
    "va_range y = bt_insert pid (v, w) (va_range (inners s ! a))" "rmid y = rmid (inners s ! a)"
    "inners s1 = (inners s)[a := y]" and a: "a < length (inners s)" and inv1: "shm_invar s1"
    and reg1: "get_inner_by_shmid i (SHM_MANAGER s1) = Some a"
    and rec: "\<And>p j. find_vaddr_by_shmid p j (SHM_MANAGER s1) =
       (if p = pid \<and> j = i then Some v else find_vaddr_by_shmid p j (SHM_MANAGER s))"
    and fresh: "\<And>j. find_vaddr_by_shmid pid j (SHM_MANAGER s) \<noteq> Some v"
    and none: "find_vaddr_by_shmid pid i (SHM_MANAGER s) = None"
    by (rule attached_state [OF inv reg e at]) blast
  have rec1: "find_vaddr_by_shmid pid j (SHM_MANAGER s1) = Some v \<longleftrightarrow> j = i" for j
    using fresh by (simp add: rec)
  note rms = remove_shmaddr_maps [OF shm_invarD(1) [OF inv1], where pid = pid and v = v]
  from inv1 refl show ?thesis
  proof (cases rule: sys_shmdt_cases [where e = e' and pid = pid and v = v])
    case (error err)
    have "get_shmid_by_vaddr pid v (SHM_MANAGER s1) = Some i"
      using get_shmid_by_vaddr_iff [OF shm_invarD(1) [OF inv1]] rec1 by simp
    moreover have "get_addr_range pid (inners s1 ! a) = Some (v, w)"
      using a by (simp add: y(4) get_addr_range_def y(2) bt_get_insert)
    ultimately have False
      using error reg1 unmap by (simp add: sys_shmdt_def shmdt_locked_def detach_process_def Let_def)
    then show ?thesis ..
  next
    case (detached i' a' w' y' m)
    then have ia: "i' = i" "a' = a" using rec1 reg1 by simp_all
    have y': "va_range y' = va_range (inners s ! a)" "rmid y' = rmid (inners s ! a)"
      using detached(5) bt_remove_insert_absent y(1) a
      by (auto simp: ia y(2,3,4) detach_process_def get_addr_range_def split: if_splits)
    define s2 where "s2 = s1\<lparr> SHM_MANAGER := (if rmid y' \<and> attach_count y' = 0 then remove_shmid i m else m),
        inners := (inners s1)[a := y'] \<rparr>"
    have "sys_shmdt e' pid v s1 = Returns (Inr 0, s2)" using detached(7) by (simp add: s2_def ia)
    moreover have "va_range (inners s2 ! a) = va_range (inners s ! a)" using a by (simp add: s2_def y(4) y')
    moreover have "find_vaddr_by_shmid p j (SHM_MANAGER s2) = find_vaddr_by_shmid p j (SHM_MANAGER s)" for p j
      using rms(1) none fresh by (simp add: s2_def detached(6) remove_shmid_maps rms(4) rec)
    moreover have "get_inner_by_shmid i (SHM_MANAGER s2) = None \<longleftrightarrow> rmid (inners s ! a) \<and> attach_count (inners s ! a) = 0"
    proof -
      have "get_inner_by_shmid i m = Some a" using reg1 by (simp add: detached(6) get_inner_by_shmid_def rms)
      then show ?thesis using rms(1) y' by (simp add: s2_def remove_shmid_maps detached(6) attach_count_def)
    qed
    ultimately show ?thesis by (intro exI [of _ s2]) simp
  qed
qed

theorem shm_attach_detach_witness:
  "\<exists>s1 s2. sys_shmat roomy 6 0 0x50000 0 run_attached = Returns (Inr 0x50000, s1)
     \<and> sys_shmdt roomy 6 0x50000 s1 = Returns (Inr 0, s2)
     \<and> find_vaddr_by_shmid 6 0 (SHM_MANAGER s2) = find_vaddr_by_shmid 6 0 (SHM_MANAGER run_attached)"
proof -
  obtain s1 where s1: "sys_shmat roomy 6 0 0x50000 0 run_attached = Returns (Inr 0x50000, s1)"
    by (simp add: shm_eval)
  have "backed roomy" "free_areas roomy 6 run_attached" "\<And>x y. aspace_unmap roomy x y = None"
    by (simp_all add: backed_def free_areas_def shm_eval)
  with shm_attach_detach [OF run_attached_reachable run_attached_state(1) _ _ s1, of roomy] s1
  show ?thesis by blast
qed



section \<open>Outside the assumptions\<close>

text \<open>An identifier that is not in use, or a second \<open>shmat\<close> of the same segment, is a panic.\<close>

lemma shmat_unknown_panics:
  "get_inner_by_shmid i (SHM_MANAGER s) = None \<Longrightarrow> sys_shmat e pid i addr shmflg s = Panic"
  by (simp add: sys_shmat_def)

lemma shmat_twice_panics: "sys_shmat roomy 4 0 0x60000 0 run_attached = Panic"
  by (simp add: shm_eval)

text \<open>
  When mapping fails the address stays recorded although the process is not attached, and the
  cleanup of its exit then fails an assertion.
\<close>

lemma failed_map_then_exit_panics:
  "\<exists>s1. sys_shmat (roomy\<lparr> aspace_map := \<lambda>_ _ _ _. Some NoMemory \<rparr>) 4 0 0x30000 0 run_created
      = Returns (Inl NoMemory, s1) \<and> clear_proc_shm roomy 4 s1 = Panic"
  by (simp add: shm_eval)

text \<open>A segment removed while nobody is attached stays in use.\<close>

lemma rmid_unattached_is_kept:
  "\<exists>s1 w. sys_shmctl roomy 0 IPC_RMID run_created = (Inr 0, s1, w)
      \<and> get_inner_by_shmid 0 (SHM_MANAGER s1) = Some 0 \<and> get_shmid_by_key 77 (SHM_MANAGER s1) = Some 0"
  by (simp add: shm_eval)

text \<open>
  Two threads of one process detach the same address while the process attaches again: the
  second \<open>shmdt\<close>, which looked the segment up before, detaches the new attachment but leaves its
  record, and the exit of the process panics.
\<close>

lemma concurrent_detach_then_exit_panics:
  "\<exists>s1 s2 s3. sys_shmdt roomy 4 0x30000 run_attached = Returns (Inr 0, s1)
      \<and> sys_shmat roomy 4 0 0x60000 0 s1 = Returns (Inr 0x60000, s2)
      \<and> shmdt_locked roomy 4 0x30000 0 0 s2 = Returns (Inr 0, s3) \<and> clear_proc_shm roomy 4 s3 = Panic"
  by (simp add: shm_eval)

end
