(* ===== verification/Spec2Isabelle.thy ===== *)
theory Spec2Isabelle
  imports Sd_Run Msg_Run Shm_Run
begin

end
